(* ===== verification/Prelude.thy ===== *)
theory Prelude
  imports Main "HOL-Library.Word"
begin

text \<open>
  The vocabulary the component theories share: the machine integers of the source, its
  \<^verbatim>\<open>Status\<close> values (src/include/quartz/common/Status.h), operations that thread a state and
  may fail, the byte image of an integer on a little-endian host, and generic lemmas on words
  and lists.
\<close>

unbundle bit_operations_syntax

section \<open>Machine integers\<close>

type_synonym u8 = "8 word"
type_synonym u16 = "16 word"
type_synonym u32 = "32 word"
type_synonym u64 = "64 word"
type_synonym i32 = "32 word"
type_synonym i64 = "64 word"

text \<open>
  A \<^verbatim>\<open>std::size_t\<close> that counts the elements of a container is a \<^typ>\<open>nat\<close>. Where the
  source adds two of them and compares, the sum wraps at 64 bits and is written with
  \<open>add_sz\<close>.
\<close>

definition add_sz :: "nat \<Rightarrow> nat \<Rightarrow> nat" where
  "add_sz a b = (a + b) mod 2 ^ 64"

section \<open>Status\<close>

datatype code = Ok | InvalidArgument | IOError | Corruption | OutOfMemory | Unknown

record status =
  st_code :: code
  st_message :: string

definition success :: status where
  "success = \<lparr>st_code = Ok, st_message = []\<rparr>"

definition invalidArgument :: "string \<Rightarrow> status" where
  "invalidArgument msg = \<lparr>st_code = InvalidArgument, st_message = msg\<rparr>"

definition ioError :: "string \<Rightarrow> status" where
  "ioError msg = \<lparr>st_code = IOError, st_message = msg\<rparr>"

definition corruption :: "string \<Rightarrow> status" where
  "corruption msg = \<lparr>st_code = Corruption, st_message = msg\<rparr>"

definition outOfMemory :: "string \<Rightarrow> status" where
  "outOfMemory msg = \<lparr>st_code = OutOfMemory, st_message = msg\<rparr>"

definition unknown :: "string \<Rightarrow> status" where
  "unknown msg = \<lparr>st_code = Unknown, st_message = msg\<rparr>"

definition ok :: "status \<Rightarrow> bool" where
  "ok st \<longleftrightarrow> st_code st = Ok"

definition toString :: "status \<Rightarrow> string" where
  "toString st =
     (if ok st then ''OK''
      else (case st_code st of
              InvalidArgument \<Rightarrow> ''InvalidArgument''
            | IOError \<Rightarrow> ''IOError''
            | Corruption \<Rightarrow> ''Corruption''
            | OutOfMemory \<Rightarrow> ''OutOfMemory''
            | _ \<Rightarrow> ''Unknown'') @ '': '' @ st_message st)"

named_theorems status_defs
declare success_def [status_defs] invalidArgument_def [status_defs] ioError_def [status_defs]
  corruption_def [status_defs] outOfMemory_def [status_defs] unknown_def [status_defs]
  ok_def [status_defs]

lemma ok_simps [simp]:
  "ok success" "\<not> ok (invalidArgument m)" "\<not> ok (ioError m)" "\<not> ok (corruption m)"
  "\<not> ok (outOfMemory m)" "\<not> ok (unknown m)"
  by (simp_all add: status_defs)

text \<open>\<^verbatim>\<open>std::to_string\<close> of an unsigned value.\<close>

fun to_string :: "nat \<Rightarrow> string" where
  "to_string n = (if n < 10 then [char_of (48 + n)] else to_string (n div 10) @ [char_of (48 + n mod 10)])"

declare to_string.simps [simp del]

section \<open>Operations that thread a state and may fail\<close>

text \<open>
  A member function that returns a \<^verbatim>\<open>Status\<close> and an out parameter becomes a state
  transformer: \<open>Inl st\<close> is the status of the early return, \<open>Inr x\<close> is
  \<^verbatim>\<open>Status::success()\<close> with the out parameter \<open>x\<close>. The state is returned on both
  sides, since whatever the function wrote before it failed stays written.
\<close>

type_synonym ('s, 'a) op = "'s \<Rightarrow> (status + 'a) \<times> 's"

definition ret :: "'a \<Rightarrow> ('s, 'a) op" where
  "ret x s = (Inr x, s)"

definition fail :: "status \<Rightarrow> ('s, 'a) op" where
  "fail st s = (Inl st, s)"

definition bindS :: "('s, 'a) op \<Rightarrow> ('a \<Rightarrow> ('s, 'b) op) \<Rightarrow> ('s, 'b) op" where
  "bindS m f s = (case m s of (Inl st, s') \<Rightarrow> (Inl st, s') | (Inr x, s') \<Rightarrow> f x s')"

definition thenS :: "('s, unit) op \<Rightarrow> ('s, 'b) op \<Rightarrow> ('s, 'b) op" where
  "thenS m k = bindS m (\<lambda>_. k)"

lemma ret_simp [simp]: "ret x s = (Inr x, s)"
  by (simp add: ret_def)

lemma fail_simp [simp]: "fail st s = (Inl st, s)"
  by (simp add: fail_def)

lemma bindS_simps [simp]:
  "m s = (Inr x, s') \<Longrightarrow> bindS m f s = f x s'"
  "m s = (Inl st, s') \<Longrightarrow> bindS m f s = (Inl st, s')"
  by (simp_all add: bindS_def)

lemma thenS_simps [simp]:
  "m s = (Inr x, s') \<Longrightarrow> thenS m k s = k s'"
  "m s = (Inl st, s') \<Longrightarrow> thenS m k s = (Inl st, s')"
  by (simp_all add: thenS_def)

lemma bindS_split:
  "P (bindS m f s) \<longleftrightarrow>
     (\<forall>st s'. m s = (Inl st, s') \<longrightarrow> P (Inl st, s')) \<and>
     (\<forall>x s'. m s = (Inr x, s') \<longrightarrow> P (f x s'))"
  by (auto simp: bindS_def split: prod.splits sum.splits)

lemma bindS_InrE:
  assumes "bindS m f s = (Inr y, s'')"
  obtains x s' where "m s = (Inr x, s')" "f x s' = (Inr y, s'')"
  using assms by (auto simp: bindS_def split: prod.splits sum.splits)

lemma thenS_InrE:
  assumes "thenS m k s = (Inr y, s'')"
  obtains s' where "m s = (Inr (), s')" "k s' = (Inr y, s'')"
  using assms by (auto simp: thenS_def elim: bindS_InrE)

section \<open>The memory image of an integer\<close>

text \<open>
  \<open>le_bytes k n\<close> is the \<open>k\<close>-byte little-endian image of \<open>n\<close>, \<open>le_nat\<close> reads one.
  \<open>mem\<close> is what \<^verbatim>\<open>memcpy\<close> from an unsigned integer of the source gives on a
  little-endian host, \<open>unmem\<close> what \<^verbatim>\<open>memcpy\<close> into one gives.
\<close>

fun le_bytes :: "nat \<Rightarrow> nat \<Rightarrow> u8 list" where
  "le_bytes 0 n = []"
| "le_bytes (Suc k) n = of_nat n # le_bytes k (n div 256)"

fun le_nat :: "u8 list \<Rightarrow> nat" where
  "le_nat [] = 0"
| "le_nat (b # bs) = unat b + 256 * le_nat bs"

definition mem :: "'a::len word \<Rightarrow> u8 list" where
  "mem w = le_bytes (LENGTH('a) div 8) (unat w)"

definition unmem :: "u8 list \<Rightarrow> 'a::len word" where
  "unmem bs = of_nat (le_nat bs)"

lemma length_le_bytes [simp]: "length (le_bytes k n) = k"
  by (induction k arbitrary: n) auto

lemma unat_of_nat_u8: "unat (of_nat n :: u8) = n mod 256"
  by (simp add: unat_of_nat)

lemma le_nat_le_bytes [simp]: "le_nat (le_bytes k n) = n mod 256 ^ k"
proof (induction k arbitrary: n)
  case 0
  then show ?case by simp
next
  case (Suc k)
  have "n mod (256 * 256 ^ k) = 256 * (n div 256 mod 256 ^ k) + n mod 256"
    by (rule mod_mult2_eq)
  with Suc show ?case by (simp add: unat_of_nat_u8)
qed

lemma le_nat_bound: "le_nat bs < 256 ^ length bs"
proof (induction bs)
  case Nil
  then show ?case by simp
next
  case (Cons b bs)
  have "unat b < 256"
    using unsigned_less [of b] by simp
  with Cons show ?case by simp
qed

lemma le_bytes_le_nat [simp]: "le_bytes (length bs) (le_nat bs) = bs"
proof (induction bs)
  case Nil
  then show ?case by simp
next
  case (Cons b bs)
  have "unat b < 256"
    using unsigned_less [of b] by simp
  then have "(unat b + 256 * le_nat bs) div 256 = le_nat bs"
    by simp
  moreover have "(of_nat (unat b + 256 * le_nat bs) :: u8) = b"
  proof -
    have z: "(256 :: u8) = 0"
      by simp
    have "(of_nat (unat b + 256 * le_nat bs) :: u8) = b + 256 * of_nat (le_nat bs)"
      by simp
    also have "\<dots> = b"
      unfolding z by simp
    finally show ?thesis .
  qed
  ultimately show ?case using Cons by simp
qed

lemma length_mem [simp]: "length (mem (w :: 'a::len word)) = LENGTH('a) div 8"
  by (simp add: mem_def)

lemma pow256: "(256::nat) ^ n = 2 ^ (8 * n)"
  by (simp add: power_mult)

lemma unmem_mem:
  assumes "8 dvd LENGTH('a::len)"
  shows "unmem (mem (w :: 'a word)) = w"
proof -
  have "(256::nat) ^ (LENGTH('a) div 8) = 2 ^ LENGTH('a)"
    using assms by (simp add: pow256)
  then have "unat w mod 256 ^ (LENGTH('a) div 8) = unat w"
    by (simp add: unsigned_less)
  then show ?thesis by (simp add: mem_def unmem_def)
qed

lemma mem_unmem:
  assumes "length bs = LENGTH('a::len) div 8" "8 dvd LENGTH('a)"
  shows "mem (unmem bs :: 'a word) = bs"
proof -
  have "le_nat bs < 2 ^ LENGTH('a)"
    using le_nat_bound [of bs] assms by (simp add: pow256)
  then have "unat (of_nat (le_nat bs) :: 'a word) = le_nat bs"
    by (simp add: unat_of_nat)
  then show ?thesis
    using assms(1) le_bytes_le_nat [of bs] by (simp add: mem_def unmem_def)
qed

lemma unmem_mem_simps [simp]:
  "unmem (mem (a :: u8)) = a" "unmem (mem (b :: u16)) = b"
  "unmem (mem (c :: u32)) = c" "unmem (mem (d :: u64)) = d"
  by (simp_all add: unmem_mem)

lemma le_nat_zeros [simp]: "le_nat (replicate n 0) = 0"
  by (induction n) auto

lemma unmem_zeros [simp]: "unmem (replicate n 0) = 0"
  by (simp add: unmem_def)

text \<open>The image of an array of integers, and the array of \<open>n\<close> integers an image stands for.\<close>

definition words_image :: "'a::len word list \<Rightarrow> u8 list" where
  "words_image ws = concat (map mem ws)"

fun words_of :: "nat \<Rightarrow> u8 list \<Rightarrow> 'a::len word list" where
  "words_of 0 bs = []"
| "words_of (Suc n) bs =
     unmem (take (LENGTH('a) div 8) bs) # words_of n (drop (LENGTH('a) div 8) bs)"

lemma length_words_image [simp]: "length (words_image (ws :: 'a::len word list)) = length ws * (LENGTH('a) div 8)"
  by (induction ws) (auto simp: words_image_def)

lemma length_words_of [simp]: "length (words_of n bs) = n"
  by (induction n arbitrary: bs) auto

lemma words_of_image:
  "8 dvd LENGTH('a::len) \<Longrightarrow> words_of (length ws) (words_image (ws :: 'a word list) @ rest) = ws"
  by (induction ws) (auto simp: words_image_def unmem_mem)

lemma words_of_image_simps [simp]:
  "length us = n \<Longrightarrow> words_of n (words_image (us :: u32 list) @ rest) = us"
  "length vs = n \<Longrightarrow> words_of n (words_image (vs :: u64 list) @ rest) = vs"
  "length us = n \<Longrightarrow> words_of n (words_image us) = us"
  "length vs = n \<Longrightarrow> words_of n (words_image vs) = vs"
  using words_of_image [of us rest] words_of_image [of vs rest] words_of_image [of us "[]"]
    words_of_image [of vs "[]"] by simp_all

lemma words_of_zeros: "words_of n (replicate m 0) = replicate n 0"
  by (induction n arbitrary: m) auto

section \<open>Words read as naturals\<close>

lemma u32_bound [simp]: "unat (x :: u32) < 4294967296"
  using unsigned_less [of x] by simp

lemma u32_bound_le [simp]: "unat (x :: u32) \<le> 4294967295"
proof -
  have "unat x < 4294967296" by simp
  then show ?thesis by linarith
qed

lemma u64_bound [simp]: "unat (x :: u64) < 18446744073709551616"
  using unsigned_less [of x] by simp

lemma unat_u32_plus: "unat (x + y :: u32) = (unat x + unat y) mod 4294967296"
  by (simp add: unat_word_ariths)

lemma unat_u32_minus: "(y :: u32) \<le> x \<Longrightarrow> unat (x - y) = unat x - unat y"
  by (rule unat_sub)

lemma u32_eq_iff: "(x :: u32) = y \<longleftrightarrow> unat x = unat y"
  by (simp add: word_unat_eq_iff)

lemmas u32_nat = u32_eq_iff word_less_nat_alt [where 'a = 32] word_le_nat_alt [where 'a = 32]

end
