(* ===== verification/VarInt.thy ===== *)
theory VarInt
  imports Prelude
begin

text \<open>
  Variable-length integers, src/src/serialization/VariableLengthInteger.cpp: seven bits a
  byte, least significant group first, the top bit of a byte says that another one follows.
  The loops of the anonymous namespace are \<open>encodeLoop\<close>, \<open>decodeLoop\<close> and
  \<open>sizeLoop\<close>; the members of \<^verbatim>\<open>struct VarInt\<close> follow. An output buffer of
  \<open>outSize\<close> bytes is the argument of that name, the bytes written are the result; the
  input \<^verbatim>\<open>(in, inSize)\<close> is a list.
\<close>

section \<open>The loops\<close>

definition kMaxVarInt32Bytes :: nat where "kMaxVarInt32Bytes = 5"
definition kMaxVarInt64Bytes :: nat where "kMaxVarInt64Bytes = 10"

function encodeLoop :: "u64 \<Rightarrow> nat \<Rightarrow> nat \<Rightarrow> u8 list option" where
  "encodeLoop value i maxBytes =
     (if i \<ge> maxBytes then None
      else let byte = ucast (value AND 0x7F);
               value' = drop_bit 7 value
           in if value' \<noteq> 0
              then map_option ((#) (byte OR 0x80)) (encodeLoop value' (Suc i) maxBytes)
              else Some [byte])"
  by pat_completeness auto
termination
  by (relation "measure (\<lambda>(value, i, maxBytes). maxBytes - i)") auto

declare encodeLoop.simps [simp del]

definition encodeImpl :: "u64 \<Rightarrow> nat \<Rightarrow> nat \<Rightarrow> status + u8 list" where
  "encodeImpl value outSize maxBytes =
     (case encodeLoop value 0 maxBytes of
        None \<Rightarrow> Inl (invalidArgument ''VarInt: value too large for encoding'')
      | Some buf \<Rightarrow>
          if length buf > outSize
          then Inl (invalidArgument ''VarInt: output buffer too small'')
          else Inr buf)"

function decodeLoop :: "u8 list \<Rightarrow> u64 \<Rightarrow> nat \<Rightarrow> nat \<Rightarrow> nat \<Rightarrow> status + u64 \<times> nat" where
  "decodeLoop inp value shift i maxBytes =
     (if i < maxBytes
      then if i \<ge> length inp
           then Inl (corruption ''VarInt: unexpected end of input'')
           else let byte = inp ! i;
                    value' = value OR push_bit shift (ucast (byte AND 0x7F));
                    shift' = shift + 7
                in if byte AND 0x80 = 0 then Inr (value', i + 1)
                   else if shift' \<ge> 64 \<and> byte AND 0x7F \<noteq> 0
                   then Inl (corruption ''VarInt: overflow'')
                   else decodeLoop inp value' shift' (Suc i) maxBytes
      else Inl (corruption ''VarInt: malformed input''))"
  by pat_completeness auto
termination
  by (relation "measure (\<lambda>(inp, value, shift, i, maxBytes). maxBytes - i)") auto

declare decodeLoop.simps [simp del]

definition decodeImpl :: "u8 list \<Rightarrow> nat \<Rightarrow> status + u64 \<times> nat" where
  "decodeImpl inp maxBytes = decodeLoop inp 0 0 0 maxBytes"

lemma unat_drop7: "unat (drop_bit 7 (v :: u64)) = unat v div 128"
  by (simp only: unat_drop_bit_eq) (simp add: drop_bit_eq_div)

lemma drop7_eq_0_iff: "drop_bit 7 (v :: u64) = 0 \<longleftrightarrow> unat v < 128"
  by (simp add: word_unat_eq_iff unat_drop7 div_eq_0_iff)

function sizeLoop :: "u64 \<Rightarrow> nat \<Rightarrow> nat" where
  "sizeLoop value count = (if value \<ge> 0x80 then sizeLoop (drop_bit 7 value) (count + 1) else count)"
  by pat_completeness auto
termination
  by (relation "measure (\<lambda>(value, count). unat value)")
     (auto simp: unat_drop7 word_le_nat_alt)

declare sizeLoop.simps [simp del]

definition encodedSizeImpl :: "u64 \<Rightarrow> nat" where
  "encodedSizeImpl value = sizeLoop value 1"

section \<open>The members of VarInt\<close>

definition encodeU32 :: "u32 \<Rightarrow> nat \<Rightarrow> status + u8 list" where
  "encodeU32 value outSize = encodeImpl (ucast value) outSize kMaxVarInt32Bytes"

definition decodeU32 :: "u8 list \<Rightarrow> status + u32 \<times> nat" where
  "decodeU32 inp =
     (case decodeImpl inp kMaxVarInt32Bytes of
        Inl st \<Rightarrow> Inl st
      | Inr (tmp, consumed) \<Rightarrow>
          if tmp > 0xFFFFFFFF
          then Inl (corruption ''VarInt: value too large for uint32'')
          else Inr (ucast tmp, consumed))"

definition encodeU64 :: "u64 \<Rightarrow> nat \<Rightarrow> status + u8 list" where
  "encodeU64 value outSize = encodeImpl value outSize kMaxVarInt64Bytes"

definition decodeU64 :: "u8 list \<Rightarrow> status + u64 \<times> nat" where
  "decodeU64 inp = decodeImpl inp kMaxVarInt64Bytes"

text \<open>
  A signed value is its two's complement word. The shift by 31 (63) is applied to the value
  cast to unsigned, so it brings in zeros; the negation in the decoder is applied to a signed
  0 or 1 and converted back, which is word negation.
\<close>

definition zigzagEncode32 :: "i32 \<Rightarrow> u32" where
  "zigzagEncode32 value = push_bit 1 value XOR drop_bit 31 value"

definition zigzagDecode32 :: "u32 \<Rightarrow> i32" where
  "zigzagDecode32 zigzag = drop_bit 1 zigzag XOR (- (zigzag AND 1))"

definition zigzagEncode64 :: "i64 \<Rightarrow> u64" where
  "zigzagEncode64 value = push_bit 1 value XOR drop_bit 63 value"

definition zigzagDecode64 :: "u64 \<Rightarrow> i64" where
  "zigzagDecode64 zigzag = drop_bit 1 zigzag XOR (- (zigzag AND 1))"

definition encodeS32 :: "i32 \<Rightarrow> nat \<Rightarrow> status + u8 list" where
  "encodeS32 value outSize = encodeU32 (zigzagEncode32 value) outSize"

definition decodeS32 :: "u8 list \<Rightarrow> status + i32 \<times> nat" where
  "decodeS32 inp =
     (case decodeU32 inp of
        Inl st \<Rightarrow> Inl st
      | Inr (zigzag, consumed) \<Rightarrow> Inr (zigzagDecode32 zigzag, consumed))"

definition encodeS64 :: "i64 \<Rightarrow> nat \<Rightarrow> status + u8 list" where
  "encodeS64 value outSize = encodeU64 (zigzagEncode64 value) outSize"

definition decodeS64 :: "u8 list \<Rightarrow> status + i64 \<times> nat" where
  "decodeS64 inp =
     (case decodeU64 inp of
        Inl st \<Rightarrow> Inl st
      | Inr (zigzag, consumed) \<Rightarrow> Inr (zigzagDecode64 zigzag, consumed))"

definition encodedSizeU32 :: "u32 \<Rightarrow> nat" where
  "encodedSizeU32 value = encodedSizeImpl (ucast value)"

definition encodedSizeU64 :: "u64 \<Rightarrow> nat" where
  "encodedSizeU64 value = encodedSizeImpl value"

abbreviation encodedSizeS32 :: "i32 \<Rightarrow> nat" where
  "encodedSizeS32 value \<equiv> encodedSizeImpl (ucast (zigzagEncode32 value))"

abbreviation encodedSizeS64 :: "i64 \<Rightarrow> nat" where
  "encodedSizeS64 value \<equiv> encodedSizeImpl (zigzagEncode64 value)"

section \<open>Encoding\<close>

lemma encodeLoop_defined:
  assumes "unat v < 128 ^ (m - i)" "i < m"
  shows "\<exists>bs. encodeLoop v i m = Some bs"
  using assms
proof (induction v i m rule: encodeLoop.induct)
  case (1 v i m)
  show ?case
  proof (cases "drop_bit 7 v = 0")
    case True
    with "1.prems" show ?thesis by (simp add: encodeLoop.simps [of v i m])
  next
    case False
    then have "128 \<le> unat v" by (simp add: drop7_eq_0_iff)
    have "Suc i < m"
    proof (rule ccontr)
      assume "\<not> Suc i < m"
      with "1.prems" have "m - i = 1" by simp
      with "1.prems" \<open>128 \<le> unat v\<close> show False by simp
    qed
    moreover from this have "unat (drop_bit 7 v) < 128 ^ (m - Suc i)"
    proof -
      have "m - i = Suc (m - Suc i)" using \<open>Suc i < m\<close> by simp
      then have "128 ^ (m - i) = 128 * (128::nat) ^ (m - Suc i)" by simp
      with "1.prems" show ?thesis by (simp add: unat_drop7 less_mult_imp_div_less mult.commute)
    qed
    ultimately have "\<exists>bs. encodeLoop (drop_bit 7 v) (Suc i) m = Some bs"
      using "1.IH" "1.prems" False by simp
    then obtain bs where "encodeLoop (drop_bit 7 v) (Suc i) m = Some bs" ..
    with False "1.prems" show ?thesis by (simp add: encodeLoop.simps [of v i m])
  qed
qed

lemma encodeLoop_length:
  "encodeLoop v i m = Some bs \<Longrightarrow> 0 < length bs \<and> i + length bs \<le> m"
proof (induction v i m arbitrary: bs rule: encodeLoop.induct)
  case (1 v i m)
  then show ?case
    by (subst (asm) (2) encodeLoop.simps)
       (fastforce simp: Let_def split: if_splits)
qed

lemma sizeLoop_encodeLoop:
  "encodeLoop v i m = Some bs \<Longrightarrow> sizeLoop v c = c + length bs - 1"
proof (induction v i m arbitrary: bs c rule: encodeLoop.induct)
  case (1 v i m)
  show ?case
  proof (cases "drop_bit 7 v = 0")
    case True
    with "1.prems" show ?thesis
      by (auto simp: encodeLoop.simps [of v i m] sizeLoop.simps [of v c] Let_def
          drop7_eq_0_iff word_le_nat_alt split: if_splits)
  next
    case False
    with "1.prems" obtain bs' where bs': "encodeLoop (drop_bit 7 v) (Suc i) m = Some bs'"
      and len: "length bs = Suc (length bs')" and im: "\<not> m \<le> i"
      by (auto simp: encodeLoop.simps [of v i m] Let_def split: if_splits)
    from "1.IH" [OF im refl refl False bs', of "c + 1"] encodeLoop_length [OF bs'] False
    show ?thesis
      by (simp add: sizeLoop.simps [of v c] drop7_eq_0_iff word_le_nat_alt len)
  qed
qed

section \<open>Decoding what was encoded\<close>

text \<open>Bit facts of one step: the group, its continuation bit, and putting a group back.\<close>

lemma bit_0x80: "bit (0x80 :: u8) n \<longleftrightarrow> n = 7"
proof -
  have "(0x80 :: u8) = 2 ^ 7" by simp
  then have "bit (0x80 :: u8) n \<longleftrightarrow> bit (2 ^ 7 :: u8) n" by (simp only:)
  also have "\<dots> \<longleftrightarrow> n = 7" by (simp only: bit_exp_iff possible_bit_word) auto
  finally show ?thesis .
qed

lemma mask7: "(0x7F :: u64) = mask 7" "(0x7F :: u8) = mask 7"
  by (simp_all add: mask_eq_exp_minus_1)

lemma bit_0x7F: "bit (0x7F :: u64) n \<longleftrightarrow> n < 7" "bit (0x7F :: u8) n \<longleftrightarrow> n < 7"
  unfolding mask7 by (auto simp only: bit_mask_iff possible_bit_word) simp_all

lemmas group_bits = bit_and_iff bit_or_iff bit_unsigned_iff bit_0x7F bit_0x80 bit_0_eq bot_apply bot_bool_def
  possible_bit_word

lemma group_byte:
  fixes v :: u64
  shows "(ucast (v AND 0x7F) :: u8) AND 0x80 = 0"
    and "((ucast (v AND 0x7F) :: u8) OR 0x80) AND 0x80 \<noteq> 0"
    and "ucast ((ucast (v AND 0x7F) :: u8) AND 0x7F) = v AND 0x7F"
    and "ucast (((ucast (v AND 0x7F) :: u8) OR 0x80) AND 0x7F) = v AND 0x7F"
proof -
  show "(ucast (v AND 0x7F) :: u8) AND 0x80 = 0"
    by (rule bit_eqI) (auto simp only: group_bits)
  have "bit (((ucast (v AND 0x7F) :: u8) OR 0x80) AND 0x80) 7"
    by (simp only: group_bits) simp
  then show "((ucast (v AND 0x7F) :: u8) OR 0x80) AND 0x80 \<noteq> 0"
    by (metis bit_0_eq bot_apply bot_bool_def)
  show "ucast ((ucast (v AND 0x7F) :: u8) AND 0x7F) = v AND 0x7F"
    by (rule bit_eqI, simp only: group_bits, auto)
  show "ucast (((ucast (v AND 0x7F) :: u8) OR 0x80) AND 0x7F) = v AND 0x7F"
    by (rule bit_eqI, simp only: group_bits, auto)
qed

lemma regroup:
  fixes acc v :: u64
  shows "(acc OR push_bit s (v AND 0x7F)) OR push_bit (s + 7) (drop_bit 7 v) = acc OR push_bit s v"
  unfolding mask7
proof (rule bit_eqI)
  fix n
  have "7 + (n - (s + 7)) = n - s" if "\<not> n - s < 7"
    using that by simp
  then show "bit ((acc OR push_bit s (v AND mask 7)) OR push_bit (s + 7) (drop_bit 7 v)) n \<longleftrightarrow>
      bit (acc OR push_bit s v) n"
    by (cases "n - s < 7") (auto simp: bit_simps)
qed

lemma last_group: "drop_bit 7 (v :: u64) = 0 \<Longrightarrow> v AND 0x7F = v"
  using regroup [of 0 0 v] by simp

lemma decode_encodeLoop:
  assumes "encodeLoop v i m = Some bs" "m \<le> 10"
    and "drop i inp = bs @ rest" "i \<le> length inp"
  shows "decodeLoop inp acc (7 * i) i m = Inr (acc OR push_bit (7 * i) v, i + length bs)"
  using assms
proof (induction v i m arbitrary: bs acc rule: encodeLoop.induct)
  case (1 v i m)
  from "1.prems"(1) have im: "i < m"
    by (auto simp: encodeLoop.simps [of v i m] split: if_splits)
  show ?case
  proof (cases "drop_bit 7 v = 0")
    case True
    with "1.prems"(1) im have bs: "bs = [ucast (v AND 0x7F)]"
      by (simp add: encodeLoop.simps [of v i m])
    with "1.prems"(3) have i: "i < length inp" "inp ! i = ucast (v AND 0x7F)"
      by (metis append_Cons drop_eq_Nil linorder_not_less list.distinct(1),
          metis append_Cons append_Nil hd_drop_conv_nth drop_eq_Nil linorder_not_less list.distinct(1) list.sel(1))
    with im have "decodeLoop inp acc (7 * i) i m =
        Inr (acc OR push_bit (7 * i) (v AND 0x7F), i + length bs)"
      by (simp add: decodeLoop.simps [of inp acc "7 * i" i m] group_byte bs)
    then show ?thesis by (simp only: last_group [OF True])
  next
    case False
    with "1.prems"(1) im obtain bs' where
      bs': "encodeLoop (drop_bit 7 v) (Suc i) m = Some bs'"
      and bs: "bs = (ucast (v AND 0x7F) OR 0x80) # bs'"
      by (auto simp: encodeLoop.simps [of v i m] Let_def)
    from "1.prems"(3) bs have d: "drop i inp = (ucast (v AND 0x7F) OR 0x80) # bs' @ rest"
      by simp
    then have i: "i < length inp" "inp ! i = ucast (v AND 0x7F) OR 0x80"
      by (metis drop_eq_Nil linorder_not_less list.distinct(1),
          metis d hd_drop_conv_nth drop_eq_Nil linorder_not_less list.distinct(1) list.sel(1))
    from d have d': "drop (Suc i) inp = bs' @ rest"
      by (metis drop_Suc list.sel(3) tl_drop)
    from encodeLoop_length [OF bs'] "1.prems"(2) have small: "i < 9"
      by (cases bs') auto
    have IH: "decodeLoop inp (acc OR push_bit (7 * i) (v AND 0x7F)) (7 * Suc i) (Suc i) m =
        Inr ((acc OR push_bit (7 * i) (v AND 0x7F)) OR push_bit (7 * Suc i) (drop_bit 7 v),
             Suc i + length bs')"
      using "1.IH" [of _ _ bs'] im False bs' "1.prems"(2) d' i(1) by simp
    have "decodeLoop inp acc (7 * i) i m =
        decodeLoop inp (acc OR push_bit (7 * i) (v AND 0x7F)) (7 * i + 7) (Suc i) m"
      using im i small group_byte(2,4) [of v]
      by (subst decodeLoop.simps) (simp only: Let_def if_False if_True not_le simp_thms, simp)
    then show ?thesis
      using IH regroup [of acc "7 * i" v] by (simp only: mult_Suc_right bs add.commute) simp
  qed
qed

lemma decode_truncated:
  assumes "encodeLoop v i m = Some bs" "m \<le> 10"
    and "drop i inp = take k bs" "k < length bs" "i \<le> length inp"
  shows "decodeLoop inp acc (7 * i) i m = Inl (corruption ''VarInt: unexpected end of input'')"
  using assms
proof (induction v i m arbitrary: bs k acc rule: encodeLoop.induct)
  case (1 v i m)
  from "1.prems"(1) have im: "i < m"
    by (auto simp: encodeLoop.simps [of v i m] split: if_splits)
  show ?case
  proof (cases k)
    case 0
    with "1.prems" have "length inp \<le> i" by simp
    with im show ?thesis by (simp add: decodeLoop.simps [of inp acc "7 * i" i m])
  next
    case (Suc k')
    have "drop_bit 7 v \<noteq> 0"
    proof
      assume "drop_bit 7 v = 0"
      with "1.prems"(1) im have "length bs = 1"
        by (auto simp: encodeLoop.simps [of v i m])
      with "1.prems"(4) Suc show False by simp
    qed
    with "1.prems"(1) im obtain bs' where
      bs': "encodeLoop (drop_bit 7 v) (Suc i) m = Some bs'"
      and bs: "bs = (ucast (v AND 0x7F) OR 0x80) # bs'"
      by (auto simp: encodeLoop.simps [of v i m] Let_def)
    from "1.prems"(3) bs Suc have d: "drop i inp = (ucast (v AND 0x7F) OR 0x80) # take k' bs'"
      by simp
    then have i: "i < length inp" "inp ! i = ucast (v AND 0x7F) OR 0x80"
      by (metis drop_eq_Nil linorder_not_less list.distinct(1),
          metis d hd_drop_conv_nth drop_eq_Nil linorder_not_less list.distinct(1) list.sel(1))
    from d have d': "drop (Suc i) inp = take k' bs'"
      by (metis drop_Suc list.sel(3) tl_drop)
    from encodeLoop_length [OF bs'] "1.prems"(2) have small: "i < 9"
      by (cases bs') auto
    have "decodeLoop inp (acc OR push_bit (7 * i) (v AND 0x7F)) (7 * Suc i) (Suc i) m =
        Inl (corruption ''VarInt: unexpected end of input'')"
      using "1.IH" [of _ _ bs' k'] im \<open>drop_bit 7 v \<noteq> 0\<close> bs' "1.prems"(2,4) d' i(1) Suc bs
      by simp
    moreover have "decodeLoop inp acc (7 * i) i m =
        decodeLoop inp (acc OR push_bit (7 * i) (v AND 0x7F)) (7 * i + 7) (Suc i) m"
      using im i small group_byte(2,4) [of v]
      by (subst decodeLoop.simps) (simp only: Let_def if_False if_True not_le simp_thms, simp)
    ultimately show ?thesis by (simp only: mult_Suc_right add.commute)
  qed
qed

lemma decodeLoop_consumed:
  "decodeLoop inp acc s i m = Inr (v, c) \<Longrightarrow> i < c \<and> c \<le> length inp"
proof (induction inp acc s i m rule: decodeLoop.induct)
  case (1 inp acc s i m)
  from "1.prems" show ?case
    by (subst (asm) decodeLoop.simps)
       (use "1.IH" in \<open>fastforce simp: Let_def split: if_splits\<close>)
qed

lemma decode_consumed:
  "decodeU32 inp = Inr (a, c) \<Longrightarrow> c \<le> length inp"
  "decodeU64 inp = Inr (b, c) \<Longrightarrow> c \<le> length inp"
  "decodeS32 inp = Inr (d, c) \<Longrightarrow> c \<le> length inp"
  "decodeS64 inp = Inr (e, c) \<Longrightarrow> c \<le> length inp"
  by (auto simp: decodeS32_def decodeU32_def decodeS64_def decodeU64_def decodeImpl_def
      split: sum.splits if_splits dest: decodeLoop_consumed)

lemma encode_64_defined: "\<exists>bs. encodeLoop v 0 10 = Some bs"
proof -
  have "unat v < 18446744073709551616" by simp
  also have "\<dots> \<le> 128 ^ (10 - 0)" by simp
  finally show ?thesis by (rule encodeLoop_defined) simp
qed

lemma unat_ucast_u32 [simp]: "unat (ucast (v :: u32) :: u64) = unat v"
proof -
  have "unat v < 2 ^ 64"
    by (rule less_le_trans [OF unsigned_less]) simp
  then have "take_bit 64 (unat v) = unat v"
    by (rule take_bit_nat_eq_self)
  then show ?thesis by (simp add: unsigned_ucast_eq)
qed

lemma encode_32_defined: "\<exists>bs. encodeLoop (ucast (v :: u32)) 0 5 = Some bs"
proof -
  have "unat (ucast v :: u64) < 4294967296" by simp
  also have "\<dots> \<le> 128 ^ (5 - 0)" by simp
  finally show ?thesis by (rule encodeLoop_defined) simp
qed

lemma ucast_u32_u64:
  "\<not> (0xFFFFFFFF :: u64) < ucast (v :: u32)" "ucast (ucast v :: u64) = v"
proof -
  show "\<not> (0xFFFFFFFF :: u64) < ucast v"
    by (simp add: word_less_nat_alt linorder_not_less)
  have "unat (ucast (ucast v :: u64) :: u32) = unat v"
    by (simp add: unsigned_ucast_eq [of "ucast v :: u64"] take_bit_nat_eq_self)
  then show "ucast (ucast v :: u64) = v" by (simp add: word_unat_eq_iff)
qed

lemma decodeU32_encodeLoop:
  "encodeLoop (ucast (v :: u32)) 0 5 = Some bs \<Longrightarrow> decodeU32 (bs @ rest) = Inr (v, length bs)"
  using decode_encodeLoop [of "ucast v" 0 5 bs "bs @ rest" rest 0]
  by (simp add: decodeU32_def decodeImpl_def kMaxVarInt32Bytes_def ucast_u32_u64)

text \<open>
  C33. Every unsigned 64-bit value is encoded in at most ten bytes, the number of them is what
  encodedSizeU64 announces, and decodeU64 applied to these bytes, whatever follows them,
  returns the value and consumes exactly them.
\<close>

theorem varint_u64_round_trip:
  "\<exists>bs. encodeU64 v kMaxVarInt64Bytes = Inr bs \<and> length bs = encodedSizeU64 v \<and>
     length bs \<le> kMaxVarInt64Bytes \<and> decodeU64 (bs @ rest) = Inr (v, length bs)"
proof -
  obtain bs where bs: "encodeLoop v 0 10 = Some bs"
    using encode_64_defined by blast
  from decode_encodeLoop [OF bs, of "bs @ rest" rest 0]
  have "decodeLoop (bs @ rest) 0 0 0 10 = Inr (v, length bs)" by simp
  with bs encodeLoop_length [OF bs] sizeLoop_encodeLoop [OF bs, of 1] show ?thesis
    by (simp add: encodeU64_def encodeImpl_def decodeU64_def decodeImpl_def kMaxVarInt64Bytes_def
        encodedSizeU64_def encodedSizeImpl_def)
qed

text \<open>
  The same for unsigned 32-bit values and five bytes: the range check of decodeU32 never
  rejects what encodeU32 produced.
\<close>

theorem varint_u32_round_trip:
  "\<exists>bs. encodeU32 v kMaxVarInt32Bytes = Inr bs \<and> length bs = encodedSizeU32 v \<and>
     length bs \<le> kMaxVarInt32Bytes \<and> decodeU32 (bs @ rest) = Inr (v, length bs)"
proof -
  obtain bs where bs: "encodeLoop (ucast v) 0 5 = Some bs"
    using encode_32_defined by blast
  from decode_encodeLoop [OF bs, of "bs @ rest" rest 0]
  have "decodeLoop (bs @ rest) 0 0 0 5 = Inr (ucast v, length bs)" by simp
  with bs encodeLoop_length [OF bs] sizeLoop_encodeLoop [OF bs, of 1] ucast_u32_u64 [of v]
  show ?thesis
    by (simp add: encodeU32_def encodeImpl_def decodeU32_def decodeImpl_def kMaxVarInt32Bytes_def
        encodedSizeU32_def encodedSizeImpl_def)
qed

text \<open>
  The encoding is prefix-free: decodeU64 answers a strict prefix of an encoding with the
  corruption status for an unexpected end of input, never with a value.
\<close>

theorem varint_truncation_detected:
  assumes "encodeU64 v outSize = Inr bs" "k < length bs"
  shows "decodeU64 (take k bs) = Inl (corruption ''VarInt: unexpected end of input'')"
proof -
  from assms(1) have "encodeLoop v 0 10 = Some bs"
    by (auto simp: encodeU64_def encodeImpl_def kMaxVarInt64Bytes_def split: option.splits if_splits)
  from decode_truncated [OF this, of "take k bs" k 0] assms(2) show ?thesis
    by (simp add: decodeU64_def decodeImpl_def kMaxVarInt64Bytes_def)
qed

section \<open>Signed values\<close>

lemma bit_zigzagEncode32:
  "bit (zigzagEncode32 v) n \<longleftrightarrow> n < 32 \<and> (if n = 0 then bit v 31 else bit v (n - 1))"
proof -
  have "\<not> bit v (31 + n)" if "n \<noteq> 0"
    using that bit_imp_le_length [of v "31 + n"] by auto
  then show ?thesis
    unfolding zigzagEncode32_def
    by (cases n; simp only: bit_xor_iff bit_push_bit_iff bit_drop_bit_eq comp_def possible_bit_word;
        simp)
qed

lemma zigzag32_eq:
  "zigzagDecode32 (zigzagEncode32 v) = (if sint v < 0 then NOT (take_bit 31 v) else v)"
proof -
  have s: "sint v < 0 \<longleftrightarrow> bit v 31"
    using bit_last_iff [of v] by simp
  have z: "zigzagEncode32 v AND 1 = (if bit v 31 then 1 else 0)"
    by (rule bit_eqI) (auto simp: bit_zigzagEncode32 bit_and_iff bit_1_iff)
  have d: "bit (drop_bit 1 (zigzagEncode32 v)) n \<longleftrightarrow> n < 31 \<and> bit v n" for n
    by (auto simp only: bit_drop_bit_eq comp_def bit_zigzagEncode32) auto
  show ?thesis
    unfolding zigzagDecode32_def z s
    by (rule bit_eqI)
       (auto simp only: bit_xor_iff d bit_not_iff bit_take_bit_iff bit_minus_1_iff possible_bit_word
          if_True if_False minus_zero bit_0_eq bot_apply bot_bool_def split: if_split,
        auto simp: less_Suc_eq numeral_eq_Suc)
qed

text \<open>
  The signed 32-bit round trip holds exactly for the non-negative values: the encoder
  shifts the value as unsigned, so the sign is not spread over the word and every negative
  value decodes to another one.
\<close>

theorem zigzag32_round_trip_iff:
  "zigzagDecode32 (zigzagEncode32 v) = v \<longleftrightarrow> 0 \<le> sint v"
proof (cases "sint v < 0")
  case True
  have "bit (NOT (take_bit 31 v)) 0 \<noteq> bit v 0"
    by (simp add: bit_simps)
  then have "NOT (take_bit 31 v) \<noteq> v" by metis
  with True show ?thesis by (simp add: zigzag32_eq)
next
  case False
  then show ?thesis by (simp add: zigzag32_eq)
qed

end
