(* ===== verification/Serialization.thy ===== *)
theory Serialization
  imports VarInt
begin

text \<open>
  Byte order (src/include/quartz/util/Endian.h), the growable \<^verbatim>\<open>Buffer\<close>, the non-owning
  \<^verbatim>\<open>BufferView\<close>, \<^verbatim>\<open>BinaryReader\<close> and \<^verbatim>\<open>BinaryWriter\<close>, and the string trait and stream
  header of \<^verbatim>\<open>Serializer\<close> (src/src/serialization/).

  A \<^verbatim>\<open>std::vector<std::uint8_t>\<close> is its live elements and its capacity. Three library facts
  are used: \<^verbatim>\<open>reserve\<close> only changes the capacity; \<^verbatim>\<open>resize\<close> to a larger size appends
  value-initialised elements, that is zero bytes; and bytes stored past the last live element,
  in reserved memory, are not elements of the vector.
\<close>

section \<open>Byte order\<close>

datatype order = Little | Big

text \<open>
  The host's order is an argument: \<open>native host w\<close> is the image of a word in the host's
  memory, \<open>unnative\<close> reads one.
\<close>

definition native :: "order \<Rightarrow> 'a::len word \<Rightarrow> u8 list" where
  "native host w = (if host = Little then mem w else rev (mem w))"

definition unnative :: "order \<Rightarrow> u8 list \<Rightarrow> 'a::len word" where
  "unnative host bs = unmem (if host = Little then bs else rev bs)"

definition swap16 :: "u16 \<Rightarrow> u16" where
  "swap16 v = push_bit 8 v OR drop_bit 8 v"

definition swap32 :: "u32 \<Rightarrow> u32" where
  "swap32 v = (drop_bit 24 v AND 0x000000FF) OR (drop_bit 8 v AND 0x0000FF00) OR
     (push_bit 8 v AND 0x00FF0000) OR (push_bit 24 v AND 0xFF000000)"

definition swap64 :: "u64 \<Rightarrow> u64" where
  "swap64 v =
     (let lo = (ucast (v AND 0xFFFFFFFF) :: u32); hi = (ucast (drop_bit 32 v) :: u32)
      in push_bit 32 (ucast (swap32 lo)) OR ucast (swap32 hi))"

definition readLE16 :: "order \<Rightarrow> u8 list \<Rightarrow> u16" where
  "readLE16 host p = (let value = unnative host p in if host = Big then swap16 value else value)"

definition readBE16 :: "order \<Rightarrow> u8 list \<Rightarrow> u16" where
  "readBE16 host p = (let value = unnative host p in if host = Little then swap16 value else value)"

definition writeLE16 :: "order \<Rightarrow> u16 \<Rightarrow> u8 list" where
  "writeLE16 host value = native host (if host = Big then swap16 value else value)"

definition writeBE16 :: "order \<Rightarrow> u16 \<Rightarrow> u8 list" where
  "writeBE16 host value = native host (if host = Little then swap16 value else value)"

definition readLE32 :: "order \<Rightarrow> u8 list \<Rightarrow> u32" where
  "readLE32 host p = (let value = unnative host p in if host = Big then swap32 value else value)"

definition readBE32 :: "order \<Rightarrow> u8 list \<Rightarrow> u32" where
  "readBE32 host p = (let value = unnative host p in if host = Little then swap32 value else value)"

definition writeLE32 :: "order \<Rightarrow> u32 \<Rightarrow> u8 list" where
  "writeLE32 host value = native host (if host = Big then swap32 value else value)"

definition writeBE32 :: "order \<Rightarrow> u32 \<Rightarrow> u8 list" where
  "writeBE32 host value = native host (if host = Little then swap32 value else value)"

definition readLE64 :: "order \<Rightarrow> u8 list \<Rightarrow> u64" where
  "readLE64 host p = (let value = unnative host p in if host = Big then swap64 value else value)"

definition readBE64 :: "order \<Rightarrow> u8 list \<Rightarrow> u64" where
  "readBE64 host p = (let value = unnative host p in if host = Little then swap64 value else value)"

definition writeLE64 :: "order \<Rightarrow> u64 \<Rightarrow> u8 list" where
  "writeLE64 host value = native host (if host = Big then swap64 value else value)"

definition writeBE64 :: "order \<Rightarrow> u64 \<Rightarrow> u8 list" where
  "writeBE64 host value = native host (if host = Little then swap64 value else value)"

section \<open>Buffer\<close>

record buffer =
  bytes :: "u8 list"
  cap :: nat

definition kMinCapacity :: nat where "kMinCapacity = 64"

definition emptyBuffer :: buffer where
  "emptyBuffer = \<lparr>bytes = [], cap = 0\<rparr>"

abbreviation bufferWithCapacity :: "nat \<Rightarrow> buffer" where
  "bufferWithCapacity initialCapacity \<equiv> \<lparr>bytes = [], cap = max initialCapacity kMinCapacity\<rparr>"

definition buffer_reserve :: "nat \<Rightarrow> buffer \<Rightarrow> buffer" where
  "buffer_reserve newCapacity b = (if newCapacity > cap b then b\<lparr>cap := newCapacity\<rparr> else b)"

definition buffer_resize :: "nat \<Rightarrow> buffer \<Rightarrow> buffer" where
  "buffer_resize newSize b =
     b\<lparr>bytes := take newSize (bytes b) @ replicate (newSize - length (bytes b)) 0,
       cap := (if newSize > cap b then max newSize (2 * length (bytes b)) else cap b)\<rparr>"

definition buffer_clear :: "buffer \<Rightarrow> buffer" where
  "buffer_clear b = b\<lparr>bytes := []\<rparr>"

text \<open>
  The doubling loop of \<^verbatim>\<open>Buffer::grow\<close> and \<^verbatim>\<open>BinaryWriter::ensureCapacity\<close>. It starts at
  \<open>kMinCapacity\<close> or more; the guard against 0 makes the function total.
\<close>

function growLoop :: "nat \<Rightarrow> nat \<Rightarrow> nat" where
  "growLoop newCap needed =
     (if 0 < newCap \<and> newCap < needed then growLoop (newCap * 2) needed else newCap)"
  by pat_completeness auto
termination
  by (relation "measure (\<lambda>(newCap, needed). needed - newCap)") auto

declare growLoop.simps [simp del]

definition buffer_grow :: "nat \<Rightarrow> buffer \<Rightarrow> buffer" where
  "buffer_grow minCapacity b =
     buffer_reserve (growLoop (max (cap b * 2) kMinCapacity) minCapacity) b"

text \<open>
  \<open>overlay off src dst\<close> is what \<^verbatim>\<open>memcpy(data + off, src, n)\<close> leaves in the live elements
  \<open>dst\<close>; what falls past them is not an element.
\<close>

definition overlay :: "nat \<Rightarrow> u8 list \<Rightarrow> u8 list \<Rightarrow> u8 list" where
  "overlay off src dst = take (length dst) (take off dst @ src @ drop (off + length src) dst)"

definition buffer_append :: "u8 list \<Rightarrow> (buffer, unit) op" where
  "buffer_append src b =
     (if length src = 0 then (Inr (), b)
      else let needed = length (bytes b) + length src;
               b1 = (if needed > cap b then buffer_grow needed b else b);
               oldSize = length (bytes b1);
               b2 = buffer_resize (oldSize + length src) b1
           in (Inr (), b2\<lparr>bytes := overlay oldSize src (bytes b2)\<rparr>))"

definition buffer_at :: "nat \<Rightarrow> buffer \<Rightarrow> u8 option" where
  "buffer_at index b = (if index \<ge> length (bytes b) then None else Some (bytes b ! index))"

section \<open>BufferView\<close>

type_synonym view = "u8 list"

definition view_at :: "nat \<Rightarrow> view \<Rightarrow> u8 option" where
  "view_at index v = (if index \<ge> length v then None else Some (v ! index))"

definition subview :: "nat \<Rightarrow> nat \<Rightarrow> view \<Rightarrow> view" where
  "subview offset count v =
     (if offset > length v then [] else take (min count (length v - offset)) (drop offset v))"

definition slice :: "nat \<Rightarrow> view \<Rightarrow> view" where
  "slice offset v = (if offset > length v then [] else drop offset v)"

definition remove_prefix :: "nat \<Rightarrow> view \<Rightarrow> view" where
  "remove_prefix n v = drop (min n (length v)) v"

definition remove_suffix :: "nat \<Rightarrow> view \<Rightarrow> view" where
  "remove_suffix n v = take (length v - min n (length v)) v"

section \<open>BinaryReader\<close>

record reader =
  rview :: view
  roffset :: nat
  rorder :: order

definition mkReader :: "view \<Rightarrow> order \<Rightarrow> reader" where
  "mkReader v ord = \<lparr>rview = v, roffset = 0, rorder = ord\<rparr>"

abbreviation remaining :: "reader \<Rightarrow> nat" where
  "remaining r \<equiv> length (rview r) - roffset r"

abbreviation hasMore :: "reader \<Rightarrow> bool" where
  "hasMore r \<equiv> roffset r < length (rview r)"

definition reader_seek :: "nat \<Rightarrow> (reader, unit) op" where
  "reader_seek position r =
     (if position > length (rview r)
      then (Inl (invalidArgument ''BinaryReader::seek: position out of range''), r)
      else (Inr (), r\<lparr>roffset := position\<rparr>))"

definition reader_skip :: "nat \<Rightarrow> (reader, unit) op" where
  "reader_skip count r =
     (if add_sz (roffset r) count > length (rview r)
      then (Inl (corruption ''BinaryReader::skip: unexpected end of input''), r)
      else (Inr (), r\<lparr>roffset := add_sz (roffset r) count\<rparr>))"

definition reader_align :: "nat \<Rightarrow> (reader, unit) op" where
  "reader_align alignment r =
     (if alignment = 0 then (Inr (), r)
      else let misalignment = roffset r mod alignment
           in if misalignment \<noteq> 0 then reader_skip (alignment - misalignment) r else (Inr (), r))"

definition reader_ensure :: "nat \<Rightarrow> reader \<Rightarrow> status + unit" where
  "reader_ensure count r =
     (if add_sz (roffset r) count > length (rview r)
      then Inl (corruption ''BinaryReader: unexpected end of input'') else Inr ())"

text \<open>\<^verbatim>\<open>readBytes(void*, n)\<close>; the bytes copied to the destination are the result.\<close>

definition readBytes :: "nat \<Rightarrow> (reader, u8 list) op" where
  "readBytes count r =
     (if count = 0 then (Inr [], r)
      else if add_sz (roffset r) count > length (rview r)
      then (Inl (corruption ''BinaryReader: unexpected end of input''), r)
      else (Inr (take count (drop (roffset r) (rview r))),
            r\<lparr>roffset := add_sz (roffset r) count\<rparr>))"

text \<open>\<^verbatim>\<open>readBytes(Buffer&, n)\<close> appends to a buffer, the second component of the state.\<close>

definition readBytesInto :: "nat \<Rightarrow> (reader \<times> buffer, unit) op" where
  "readBytesInto count s =
     (case s of (r, dest) \<Rightarrow>
        if add_sz (roffset r) count > length (rview r)
        then (Inl (corruption ''BinaryReader: unexpected end of input''), (r, dest))
        else (case buffer_append (take count (drop (roffset r) (rview r))) dest of
                (Inl st, dest') \<Rightarrow> (Inl st, (r, dest'))
              | (Inr _, dest') \<Rightarrow> (Inr (), (r\<lparr>roffset := add_sz (roffset r) count\<rparr>, dest'))))"

text \<open>
  \<^verbatim>\<open>read<T>\<close> copies \<^verbatim>\<open>sizeof(T)\<close> bytes into the value, in the order of the host, which is
  little-endian from here on. \<^verbatim>\<open>readLE<T>\<close> and \<^verbatim>\<open>readBE<T>\<close> copy them to the start of a
  zeroed 64-bit word, convert that word, and cast it down.
\<close>

definition read_word :: "(reader, 'a::len word) op" where
  "read_word = bindS (readBytes (LENGTH('a) div 8)) (\<lambda>bs. ret (unmem bs))"

definition readLE :: "(reader, 'a::len word) op" where
  "readLE = bindS (readBytes (LENGTH('a) div 8))
     (\<lambda>bs. ret (ucast (readLE64 Little (overlay 0 bs (replicate 8 0)))))"

definition readBE :: "(reader, 'a::len word) op" where
  "readBE = bindS (readBytes (LENGTH('a) div 8))
     (\<lambda>bs. ret (ucast (readBE64 Little (overlay 0 bs (replicate 8 0)))))"

definition readVar :: "(u8 list \<Rightarrow> status + 'a \<times> nat) \<Rightarrow> (reader, 'a) op" where
  "readVar decode r =
     (case decode (drop (roffset r) (rview r)) of
        Inl st \<Rightarrow> (Inl st, r)
      | Inr (value, consumed) \<Rightarrow> (Inr value, r\<lparr>roffset := roffset r + consumed\<rparr>))"

definition readVarU32 :: "(reader, u32) op" where "readVarU32 = readVar decodeU32"
definition readVarU64 :: "(reader, u64) op" where "readVarU64 = readVar decodeU64"
definition readVarS32 :: "(reader, i32) op" where "readVarS32 = readVar decodeS32"
definition readVarS64 :: "(reader, i64) op" where "readVarS64 = readVar decodeS64"

abbreviation remainingView :: "reader \<Rightarrow> view" where
  "remainingView r \<equiv> subview (roffset r) (remaining r) (rview r)"

definition subReader :: "nat \<Rightarrow> reader \<Rightarrow> reader" where
  "subReader count r = mkReader (subview (roffset r) count (rview r)) (rorder r)"

section \<open>BinaryWriter\<close>

record writer =
  wbuf :: buffer
  woffset :: nat
  worder :: order

definition mkWriter :: "buffer \<Rightarrow> order \<Rightarrow> writer" where
  "mkWriter b ord = \<lparr>wbuf = b, woffset = length (bytes b), worder = ord\<rparr>"

abbreviation remainingCapacity :: "writer \<Rightarrow> nat" where
  "remainingCapacity w \<equiv> (if cap (wbuf w) < woffset w then 0 else cap (wbuf w) - woffset w)"

definition writer_seek :: "nat \<Rightarrow> (writer, unit) op" where
  "writer_seek position w =
     (if position > length (bytes (wbuf w))
      then (Inl (invalidArgument ''BinaryWriter::seek: position out of range''), w)
      else (Inr (), w\<lparr>woffset := position\<rparr>))"

definition ensureCapacity :: "nat \<Rightarrow> (writer, unit) op" where
  "ensureCapacity needed w =
     (if needed \<le> cap (wbuf w) then (Inr (), w)
      else (Inr (), w\<lparr>wbuf := buffer_reserve
              (growLoop (max (cap (wbuf w) * 2) kMinCapacity) needed) (wbuf w)\<rparr>))"

text \<open>The step both \<^verbatim>\<open>skip\<close> and \<^verbatim>\<open>writeBytes\<close> end with: extend the vector to the offset.\<close>

definition extendToOffset :: "writer \<Rightarrow> writer" where
  "extendToOffset w =
     (if woffset w > length (bytes (wbuf w))
      then w\<lparr>wbuf := buffer_resize (woffset w) (wbuf w)\<rparr> else w)"

definition writer_skip :: "nat \<Rightarrow> (writer, unit) op" where
  "writer_skip count =
     (\<lambda>w. thenS (ensureCapacity (woffset w + count))
        (\<lambda>w. (Inr (), extendToOffset (w\<lparr>woffset := woffset w + count\<rparr>))) w)"

definition writer_align :: "nat \<Rightarrow> (writer, unit) op" where
  "writer_align alignment w =
     (if alignment = 0 then (Inr (), w)
      else let misalignment = woffset w mod alignment
           in if misalignment \<noteq> 0 then writer_skip (alignment - misalignment) w else (Inr (), w))"

definition writeBytes :: "u8 list \<Rightarrow> (writer, unit) op" where
  "writeBytes src w =
     (if length src = 0 then (Inr (), w)
      else thenS (ensureCapacity (woffset w + length src))
        (\<lambda>w. let b = wbuf w;
                 w1 = w\<lparr>wbuf := b\<lparr>bytes := overlay (woffset w) src (bytes b)\<rparr>,
                        woffset := woffset w + length src\<rparr>
             in (Inr (), extendToOffset w1)) w)"

definition write_word :: "'a::len word \<Rightarrow> (writer, unit) op" where
  "write_word value = writeBytes (mem value)"

definition writeLE :: "'a::len word \<Rightarrow> (writer, unit) op" where
  "writeLE value =
     (let raw = (unmem (overlay 0 (mem value) (replicate 8 0)) :: u64)
      in writeBytes (take (LENGTH('a) div 8) (writeLE64 Little raw)))"

definition writeBE :: "'a::len word \<Rightarrow> (writer, unit) op" where
  "writeBE value =
     (let raw = (unmem (overlay 0 (mem value) (replicate 8 0)) :: u64)
      in writeBytes (take (LENGTH('a) div 8) (writeBE64 Little raw)))"

definition writeVar :: "(status + u8 list) \<Rightarrow> (writer, unit) op" where
  "writeVar encoded = (case encoded of Inl st \<Rightarrow> fail st | Inr buf \<Rightarrow> writeBytes buf)"

definition writeVarU32 :: "u32 \<Rightarrow> (writer, unit) op" where
  "writeVarU32 value = writeVar (encodeU32 value kMaxVarInt32Bytes)"

definition writeVarU64 :: "u64 \<Rightarrow> (writer, unit) op" where
  "writeVarU64 value = writeVar (encodeU64 value kMaxVarInt64Bytes)"

definition writeVarS32 :: "i32 \<Rightarrow> (writer, unit) op" where
  "writeVarS32 value = writeVar (encodeS32 value kMaxVarInt32Bytes)"

definition writeVarS64 :: "i64 \<Rightarrow> (writer, unit) op" where
  "writeVarS64 value = writeVar (encodeS64 value kMaxVarInt64Bytes)"

definition overwriteAt :: "nat \<Rightarrow> u8 list \<Rightarrow> (writer, unit) op" where
  "overwriteAt position src w =
     (if add_sz position (length src) > length (bytes (wbuf w))
      then (Inl (invalidArgument ''BinaryWriter::overwriteAt: range out of bounds''), w)
      else (Inr (), w\<lparr>wbuf := (wbuf w)\<lparr>bytes := overlay position src (bytes (wbuf w))\<rparr>\<rparr>))"

section \<open>Serializer\<close>

record ser_context =
  ctx_version :: u32
  ctx_byteOrder :: order
  ctx_strict :: bool

definition kDefaultVersion :: u32 where "kDefaultVersion = 1"
definition kLatestVersion :: u32 where "kLatestVersion = 1"
abbreviation kFormatMagic :: u32 where "kFormatMagic \<equiv> 0x51444253"

definition isVersionSupported :: "u32 \<Rightarrow> bool" where
  "isVersionSupported v \<longleftrightarrow> v \<ge> kDefaultVersion \<and> v \<le> kLatestVersion"

abbreviation allowsField :: "u32 \<Rightarrow> ser_context \<Rightarrow> bool" where
  "allowsField fieldVersion ctx \<equiv> fieldVersion \<le> ctx_version ctx"

record header =
  h_magic :: u32
  h_version :: u32
  h_dataSize :: u64

definition header_image :: "header \<Rightarrow> u8 list" where
  "header_image h = mem (h_magic h) @ mem (h_version h) @ mem (h_dataSize h)"

definition isValidHeader :: "header \<Rightarrow> bool" where
  "isValidHeader h \<longleftrightarrow> h_magic h = kFormatMagic"

definition writeHeader :: "ser_context \<Rightarrow> (writer, unit) op" where
  "writeHeader ctx =
     writeBytes (header_image \<lparr>h_magic = kFormatMagic, h_version = ctx_version ctx, h_dataSize = 0\<rparr>)"

definition readHeader :: "(reader \<times> ser_context, unit) op" where
  "readHeader s =
     (case s of (r, ctx) \<Rightarrow>
        (case readBytes 16 r of
           (Inl _, r') \<Rightarrow> (Inl (corruption ''Serializer: failed to read header''), (r', ctx))
         | (Inr bs, r') \<Rightarrow>
             let h = \<lparr>h_magic = unmem (take 4 bs), h_version = unmem (take 4 (drop 4 bs)),
                      h_dataSize = unmem (drop 8 bs)\<rparr>
             in if \<not> isValidHeader h
                then (Inl (corruption ''Serializer: invalid header magic''), (r', ctx))
                else if \<not> isVersionSupported (h_version h)
                then (Inl (invalidArgument (''Serializer: unsupported version '' @
                        to_string (unat (h_version h)))), (r', ctx))
                else (Inr (), (r', ctx\<lparr>ctx_version := h_version h\<rparr>))))"

text \<open>\<^verbatim>\<open>SerializationTraits<std::string>\<close>; a string is its bytes.\<close>

definition serializeString :: "u8 list \<Rightarrow> (writer, unit) op" where
  "serializeString value =
     thenS (writeVarU32 (of_nat (length value))) (writeBytes value)"

definition deserializeString :: "(reader, u8 list) op" where
  "deserializeString = bindS readVarU32 (\<lambda>len. readBytes (unat len))"

definition serializeWithHeader :: "ser_context \<Rightarrow> (writer, unit) op \<Rightarrow> (writer, unit) op" where
  "serializeWithHeader ctx ser = thenS (writeHeader ctx) ser"

definition deserializeWithHeader :: "(reader, 'a) op \<Rightarrow> (reader \<times> ser_context, 'a) op" where
  "deserializeWithHeader deser =
     thenS readHeader
       (\<lambda>s. case s of (r, ctx) \<Rightarrow> (case deser r of (res, r') \<Rightarrow> (res, (r', ctx))))"

section \<open>Growth\<close>

lemma growLoop_ge: "0 < c \<Longrightarrow> needed \<le> growLoop c needed \<and> c \<le> growLoop c needed"
proof (induction c needed rule: growLoop.induct)
  case (1 c needed)
  then show ?case by (subst growLoop.simps, subst growLoop.simps) fastforce
qed

lemma growLoop_lt: "0 < c \<Longrightarrow> growLoop c needed < max (c + 1) (2 * needed)"
proof (induction c needed rule: growLoop.induct)
  case (1 c needed)
  then show ?case
    by (cases "c < needed") (auto simp: growLoop.simps [of c needed])
qed

lemma growLoop_start:
  "n \<le> growLoop (max (k * 2) kMinCapacity) n" "k \<le> growLoop (max (k * 2) kMinCapacity) n"
proof -
  have pos: "0 < max (k * 2) kMinCapacity"
    by (simp add: kMinCapacity_def less_max_iff_disj)
  from growLoop_ge [OF pos, of n] show "n \<le> growLoop (max (k * 2) kMinCapacity) n" ..
  from growLoop_ge [OF pos, of n] have "max (k * 2) kMinCapacity \<le> growLoop (max (k * 2) kMinCapacity) n" ..
  then show "k \<le> growLoop (max (k * 2) kMinCapacity) n" by simp
qed

lemma bytes_buffer_reserve [simp]: "bytes (buffer_reserve n b) = bytes b"
  by (simp add: buffer_reserve_def)

lemma bytes_buffer_grow [simp]: "bytes (buffer_grow n b) = bytes b"
  by (simp add: buffer_grow_def)

lemma cap_buffer_grow: "n \<le> cap (buffer_grow n b)"
  using growLoop_start [of n "cap b"] by (auto simp: buffer_grow_def buffer_reserve_def)

lemma length_overlay [simp]: "off \<le> length dst \<Longrightarrow> length (overlay off src dst) = length dst"
  by (simp add: overlay_def)

lemma overlay_end: "overlay (length xs) src (xs @ replicate (length src) 0) = xs @ src"
  by (simp add: overlay_def)

lemma overlay_inside:
  "off + length src \<le> length dst \<Longrightarrow>
     overlay off src dst = take off dst @ src @ drop (off + length src) dst"
  by (simp add: overlay_def)

lemma buffer_append_bytes:
  "\<exists>b'. buffer_append src b = (Inr (), b') \<and> bytes b' = bytes b @ src"
  by (auto simp: buffer_append_def Let_def buffer_resize_def overlay_end)

section \<open>The writer\<close>

lemma ensureCapacity_bytes:
  "\<exists>w'. ensureCapacity n w = (Inr (), w') \<and> bytes (wbuf w') = bytes (wbuf w) \<and>
     woffset w' = woffset w \<and> n \<le> cap (wbuf w') \<and> cap (wbuf w) \<le> cap (wbuf w') \<and>
     worder w' = worder w"
  using growLoop_start [of n "cap (wbuf w)"]
  by (auto simp: ensureCapacity_def buffer_reserve_def)

text \<open>
  What one write leaves in the buffer, in every case: the part of the source that fits in the
  live elements is stored, and the elements appended to reach the new offset are zero.
\<close>

lemma writeBytes_effect:
  assumes "woffset w \<le> length (bytes (wbuf w))"
  shows "\<exists>w'. writeBytes src w = (Inr (), w') \<and> woffset w' = woffset w + length src \<and>
    worder w' = worder w \<and>
    bytes (wbuf w') = overlay (woffset w) src (bytes (wbuf w)) @
      replicate (woffset w + length src - length (bytes (wbuf w))) 0"
proof (cases "src = []")
  case True
  with assms show ?thesis by (auto simp: writeBytes_def overlay_def)
next
  case False
  obtain w' where w': "ensureCapacity (woffset w + length src) w = (Inr (), w')"
    "bytes (wbuf w') = bytes (wbuf w)" "woffset w' = woffset w" "worder w' = worder w"
    using ensureCapacity_bytes by blast
  with False assms show ?thesis
    by (auto simp: writeBytes_def Let_def extendToOffset_def buffer_resize_def)
qed

lemma writeBytes_ok: "\<exists>w'. writeBytes src w = (Inr (), w')"
  using ensureCapacity_bytes [of "woffset w + length src" w]
  by (auto simp: writeBytes_def Let_def)

text \<open>The writer's offset stays inside the buffer.\<close>

definition writer_wf :: "writer \<Rightarrow> bool" where
  "writer_wf w \<longleftrightarrow> woffset w \<le> length (bytes (wbuf w))"

lemma writer_wf_mkWriter [simp]: "writer_wf (mkWriter b ord)"
  by (simp add: writer_wf_def mkWriter_def)

lemma writer_wf_writeBytes:
  assumes "writer_wf w" "writeBytes src w = (res, w')"
  shows "writer_wf w'"
  using writeBytes_effect [of w src] assms by (auto simp: writer_wf_def)

text \<open>A writer at the end of its buffer: what every serialiser of the program starts from.\<close>

definition at_end :: "writer \<Rightarrow> bool" where
  "at_end w \<longleftrightarrow> woffset w = length (bytes (wbuf w))"

lemma at_end_mkWriter [simp]: "at_end (mkWriter b ord)"
  by (simp add: at_end_def mkWriter_def)

lemma writeBytes_at_end:
  assumes "at_end w"
  shows "\<exists>w'. writeBytes src w = (Inr (), w') \<and> at_end w' \<and>
    bytes (wbuf w') = bytes (wbuf w) @ replicate (length src) 0"
  using writeBytes_effect [of w src] assms
  by (auto simp: at_end_def overlay_def)

section \<open>The reader\<close>

definition reader_wf :: "reader \<Rightarrow> bool" where
  "reader_wf r \<longleftrightarrow> roffset r \<le> length (rview r) \<and> length (rview r) < 2 ^ 64"

definition ahead :: "reader \<Rightarrow> u8 list" where
  "ahead r = drop (roffset r) (rview r)"

definition advance :: "nat \<Rightarrow> reader \<Rightarrow> reader" where
  "advance n r = r\<lparr>roffset := roffset r + n\<rparr>"

lemma reader_wf_mkReader [simp]: "length v < 2 ^ 64 \<Longrightarrow> reader_wf (mkReader v ord)"
  by (simp add: reader_wf_def mkReader_def)

lemma ahead_mkReader [simp]: "ahead (mkReader v ord) = v"
  by (simp add: ahead_def mkReader_def)

lemma ahead_advance [simp]: "ahead (advance n r) = drop n (ahead r)"
  by (simp add: ahead_def advance_def add.commute)

lemma advance_advance [simp]: "advance m (advance n r) = advance (n + m) r"
  by (simp add: advance_def add.assoc)

lemma advance_0 [simp]: "advance 0 r = r"
  by (simp add: advance_def)

lemma rview_advance [simp]: "rview (advance n r) = rview r"
  by (simp add: advance_def)

lemma reader_wf_advance: "reader_wf r \<Longrightarrow> n \<le> length (ahead r) \<Longrightarrow> reader_wf (advance n r)"
  by (auto simp: reader_wf_def ahead_def advance_def)

lemma add_sz_inside: "reader_wf r \<Longrightarrow> n \<le> length (ahead r) \<Longrightarrow> add_sz (roffset r) n = roffset r + n"
  by (auto simp: add_sz_def reader_wf_def ahead_def intro!: mod_less)

lemma readBytes_ahead:
  assumes "reader_wf r" "ahead r = a @ rest" "n = length a"
  shows "readBytes n r = (Inr a, advance n r)"
proof -
  have n: "n \<le> length (ahead r)" using assms by simp
  then have "roffset r + n \<le> length (rview r)" using assms(1) by (auto simp: ahead_def reader_wf_def)
  moreover have "take n (drop (roffset r) (rview r)) = a" using assms(2,3) by (simp add: ahead_def)
  ultimately show ?thesis using add_sz_inside [OF assms(1) n]
    by (auto simp: readBytes_def advance_def)
qed

lemma readBytes_short:
  assumes "reader_wf r" "length (ahead r) < n" "roffset r + n < 2 ^ 64"
  shows "readBytes n r = (Inl (corruption ''BinaryReader: unexpected end of input''), r)"
  using assms by (auto simp: readBytes_def ahead_def reader_wf_def add_sz_def)

text \<open>
  The contract between a byte image and the operation that reads it: from a reader that stands
  before the image, the operation returns the value and stops right behind it. Every
  deserialiser of the program meets it for the image it expects; reading a counted sequence is
  proved once here.
\<close>

locale codec =
  fixes image :: "'a \<Rightarrow> u8 list"
    and rd :: "(reader, 'a) op"
    and valid :: "'a \<Rightarrow> bool"
  assumes rd_image:
    "reader_wf r \<Longrightarrow> valid x \<Longrightarrow> ahead r = image x @ rest \<Longrightarrow>
       rd r = (Inr x, advance (length (image x)) r)"
begin

lemma rd_image_step:
  assumes "reader_wf r" "valid x" "ahead r = image x @ rest"
  shows "rd r = (Inr x, advance (length (image x)) r)"
    and "reader_wf (advance (length (image x)) r)"
    and "ahead (advance (length (image x)) r) = rest"
  using assms by (auto simp: rd_image intro: reader_wf_advance)

lemma image_injective:
  assumes "valid x" "valid y" "image x = image y" "length (image x) < 2 ^ 64"
  shows "x = y"
proof -
  have "reader_wf (mkReader (image x) Little)" using assms(4) by simp
  from rd_image [OF this assms(1), of "[]"] rd_image [OF this assms(2), of "[]"] assms(3)
  show ?thesis by simp
qed

end

fun readMany :: "(reader, 'a) op \<Rightarrow> nat \<Rightarrow> (reader, 'a list) op" where
  "readMany rd 0 = ret []"
| "readMany rd (Suc n) = bindS rd (\<lambda>x. bindS (readMany rd n) (\<lambda>xs. ret (x # xs)))"

context codec
begin

lemma readMany_image:
  assumes "reader_wf r" "\<forall>x \<in> set xs. valid x" "ahead r = concat (map image xs) @ rest"
  shows "readMany rd (length xs) r = (Inr xs, advance (length (concat (map image xs))) r)"
  using assms
proof (induction xs arbitrary: r)
  case Nil
  then show ?case by simp
next
  case (Cons x xs)
  from Cons.prems have a: "ahead r = image x @ (concat (map image xs) @ rest)" by simp
  note step = rd_image_step [OF Cons.prems(1) _ a]
  from Cons.prems(2) have v: "valid x" by simp
  have "readMany rd (length xs) (advance (length (image x)) r) =
      (Inr xs, advance (length (concat (map image xs))) (advance (length (image x)) r))"
    using Cons.IH [OF step(2) _ step(3)] Cons.prems(2) by simp
  with step(1) [OF v] show ?case by simp
qed

end

lemma read_word_image:
  assumes "reader_wf r" "ahead r = mem (x :: 'a::len word) @ rest" "8 dvd LENGTH('a)"
  shows "read_word r = (Inr x, advance (length (mem x)) r)"
  using readBytes_ahead [OF assms(1,2)] assms(3)
  by (simp add: read_word_def unmem_mem)

interpretation u8c: codec mem "read_word :: (reader, u8) op" "\<lambda>_. True"
  by unfold_locales (rule read_word_image, simp_all)

interpretation u16c: codec mem "read_word :: (reader, u16) op" "\<lambda>_. True"
  by unfold_locales (rule read_word_image, simp_all)

interpretation u32c: codec mem "read_word :: (reader, u32) op" "\<lambda>_. True"
  by unfold_locales (rule read_word_image, simp_all)

interpretation u64c: codec mem "read_word :: (reader, u64) op" "\<lambda>_. True"
  by unfold_locales (rule read_word_image, simp_all)

lemma read_word_bytes:
  assumes "reader_wf r" "LENGTH('a::len) div 8 \<le> length (ahead r)"
  shows "(read_word :: (reader, 'a word) op) r =
    (Inr (unmem (take (LENGTH('a) div 8) (ahead r))), advance (LENGTH('a) div 8) r)"
  using readBytes_ahead [OF assms(1), of "take (LENGTH('a) div 8) (ahead r)"
      "drop (LENGTH('a) div 8) (ahead r)"] assms(2)
  by (simp add: read_word_def)

section \<open>Runs of reader operations\<close>

text \<open>One call of a public member that moves the reader.\<close>

inductive reader_step :: "reader \<Rightarrow> reader \<Rightarrow> bool" where
  seek: "reader_seek p r = (res, r') \<Longrightarrow> reader_step r r'"
| skip: "reader_skip n r = (res, r') \<Longrightarrow> reader_step r r'"
| align: "reader_align a r = (res, r') \<Longrightarrow> reader_step r r'"
| bytes: "roffset r + n < 2 ^ 64 \<Longrightarrow> readBytes n r = (res', r') \<Longrightarrow> reader_step r r'"
| varU32: "readVarU32 r = (r1, r') \<Longrightarrow> reader_step r r'"
| varU64: "readVarU64 r = (r2, r') \<Longrightarrow> reader_step r r'"
| varS32: "readVarS32 r = (r3, r') \<Longrightarrow> reader_step r r'"
| varS64: "readVarS64 r = (r4, r') \<Longrightarrow> reader_step r r'"

lemma reader_wf_skip: "reader_wf r \<Longrightarrow> reader_skip n r = (res, r') \<Longrightarrow> reader_wf r' \<and> rview r' = rview r"
  by (auto simp: reader_skip_def reader_wf_def split: if_splits)

lemma reader_wf_readVar:
  assumes "\<And>inp v c. decode inp = Inr (v, c) \<Longrightarrow> c \<le> length inp"
    and "reader_wf r" "readVar decode r = (res, r')"
  shows "reader_wf r' \<and> rview r' = rview r"
proof (cases "decode (drop (roffset r) (rview r))")
  case (Inl st)
  with assms(2,3) show ?thesis by (simp add: readVar_def)
next
  case (Inr p)
  then obtain v c where "decode (drop (roffset r) (rview r)) = Inr (v, c)" by (cases p) auto
  with assms(1) [OF this] assms(2,3) show ?thesis
    by (auto simp: readVar_def reader_wf_def)
qed

lemma reader_step_wf: "reader_step r r' \<Longrightarrow> reader_wf r \<Longrightarrow> reader_wf r' \<and> rview r' = rview r"
proof (induction rule: reader_step.induct)
  case (seek p r res r')
  then show ?case by (auto simp: reader_seek_def reader_wf_def split: if_splits)
next
  case (skip n r res r')
  then show ?case by (blast dest: reader_wf_skip)
next
  case (align a r res r')
  then show ?case
    by (auto simp: reader_align_def Let_def dest: reader_wf_skip split: if_splits)
next
  case (bytes r n res r')
  then show ?case by (auto simp: readBytes_def reader_wf_def split: if_splits)
next
  case (varU32 r r1 r')
  show ?case
    by (rule reader_wf_readVar [OF decode_consumed(1) varU32(2) varU32(1) [unfolded readVarU32_def]])
next
  case (varU64 r r2 r')
  show ?case
    by (rule reader_wf_readVar [OF decode_consumed(2) varU64(2) varU64(1) [unfolded readVarU64_def]])
next
  case (varS32 r r3 r')
  show ?case
    by (rule reader_wf_readVar [OF decode_consumed(3) varS32(2) varS32(1) [unfolded readVarS32_def]])
next
  case (varS64 r r4 r')
  show ?case
    by (rule reader_wf_readVar [OF decode_consumed(4) varS64(2) varS64(1) [unfolded readVarS64_def]])
qed

section \<open>Byte swapping\<close>

lemma nth_le_bytes: "i < k \<Longrightarrow> le_bytes k n ! i = of_nat (n div 256 ^ i)"
  by (induction k arbitrary: n i) (auto simp: nth_Cons div_mult2_eq split: nat.splits)

lemma mem_nth:
  "i < LENGTH('a) div 8 \<Longrightarrow> mem (v :: 'a::len word) ! i = ucast (drop_bit (8 * i) v)"
proof -
  assume i: "i < LENGTH('a) div 8"
  have "unat (drop_bit (8 * i) v) = unat v div 2 ^ (8 * i)"
    by (simp only: unat_drop_bit_eq) (simp only: drop_bit_eq_div)
  then have "(of_nat (unat v div 256 ^ i) :: u8) = of_nat (unat (drop_bit (8 * i) v))"
    by (simp only: pow256)
  with i show ?thesis by (simp add: mem_def nth_le_bytes)
qed

lemma bit_nth_mem:
  "i < LENGTH('a) div 8 \<Longrightarrow>
     bit (mem (v :: 'a::len word) ! i) k \<longleftrightarrow> k < 8 \<and> bit v (8 * i + k)"
  by (auto simp: mem_nth bit_unsigned_iff bit_drop_bit_eq)

lemma mem_rev:
  fixes a b :: "'a::len word"
  assumes "\<And>i k. i < LENGTH('a) div 8 \<Longrightarrow> k < 8 \<Longrightarrow>
    bit a (8 * i + k) \<longleftrightarrow> bit b (8 * (LENGTH('a) div 8 - 1 - i) + k)"
  shows "mem a = rev (mem b)"
proof (rule nth_equalityI)
  fix i assume "i < length (mem a)"
  then have i: "i < LENGTH('a) div 8" "LENGTH('a) div 8 - 1 - i < LENGTH('a) div 8" by auto
  have "bit (mem a ! i) k \<longleftrightarrow> bit (mem b ! (LENGTH('a) div 8 - 1 - i)) k" for k
    using assms [OF i(1), of k] by (auto simp only: bit_nth_mem [OF i(1)] bit_nth_mem [OF i(2)])
  then have "mem a ! i = mem b ! (LENGTH('a) div 8 - 1 - i)" by (rule bit_word_eqI)
  with i(1) show "mem a ! i = rev (mem b) ! i" by (simp add: rev_nth)
qed simp

lemma byte_masks:
  "bit (0x000000FF :: u32) n \<longleftrightarrow> n < 8"
  "bit (0x0000FF00 :: u32) n \<longleftrightarrow> 8 \<le> n \<and> n < 16"
  "bit (0x00FF0000 :: u32) n \<longleftrightarrow> 16 \<le> n \<and> n < 24"
  "bit (0xFF000000 :: u32) n \<longleftrightarrow> 24 \<le> n \<and> n < 32"
proof -
  have m: "(0x000000FF :: u32) = mask 8" "(0x0000FF00 :: u32) = push_bit 8 (mask 8)"
    "(0x00FF0000 :: u32) = push_bit 16 (mask 8)" "(0xFF000000 :: u32) = push_bit 24 (mask 8)"
    by (simp_all add: mask_eq_exp_minus_1 push_bit_eq_mult)
  show "bit (0x000000FF :: u32) n \<longleftrightarrow> n < 8"
    "bit (0x0000FF00 :: u32) n \<longleftrightarrow> 8 \<le> n \<and> n < 16"
    "bit (0x00FF0000 :: u32) n \<longleftrightarrow> 16 \<le> n \<and> n < 24"
    "bit (0xFF000000 :: u32) n \<longleftrightarrow> 24 \<le> n \<and> n < 32"
    unfolding m by (auto simp only: bit_mask_iff bit_push_bit_iff possible_bit_word) simp_all
qed

lemma bit_swap32:
  "bit (swap32 v) n \<longleftrightarrow>
     (if n < 8 then bit v (n + 24) else if n < 16 then bit v (n + 8)
      else if n < 24 then bit v (n - 8) else n < 32 \<and> bit v (n - 24))"
  unfolding swap32_def
  by (simp only: bit_or_iff bit_and_iff bit_drop_bit_eq comp_def bit_push_bit_iff byte_masks
      possible_bit_word) (auto simp: add.commute)

lemma bit_swap64:
  "bit (swap64 v) n \<longleftrightarrow>
     (if n < 32 then bit (swap32 (ucast (drop_bit 32 v))) n
      else n < 64 \<and> bit (swap32 (ucast (v AND 0xFFFFFFFF))) (n - 32))"
proof -
  have *: "\<not> bit (w :: u32) n" if "32 \<le> n" for w
    using that bit_imp_le_length [of w n] by auto
  show ?thesis
    unfolding swap64_def Let_def
    by (simp only: bit_or_iff bit_push_bit_iff possible_bit_word bit_unsigned_iff) (use * in auto)
qed

lemma bit_low_half: "bit ((v :: u64) AND 0xFFFFFFFF) n \<longleftrightarrow> n < 32 \<and> bit v n"
proof -
  have "(0xFFFFFFFF :: u64) = mask 32" by (simp add: mask_eq_exp_minus_1)
  then show ?thesis
    by (simp only: bit_and_iff bit_mask_iff possible_bit_word) auto
qed

lemma mem_swap32: "mem (swap32 v) = rev (mem v)"
proof (rule mem_rev)
  fix i k :: nat
  assume "i < LENGTH(32) div 8" and k: "k < 8"
  then consider "i = 0" | "i = 1" | "i = 2" | "i = 3" by fastforce
  then show "bit (swap32 v) (8 * i + k) \<longleftrightarrow> bit v (8 * (LENGTH(32) div 8 - 1 - i) + k)"
    by cases (use k in \<open>auto simp: bit_swap32 add.commute\<close>)
qed

lemma mem_swap64: "mem (swap64 v) = rev (mem v)"
proof (rule mem_rev)
  fix i k :: nat
  assume "i < LENGTH(64) div 8" and k: "k < 8"
  then consider "i = 0" | "i = 1" | "i = 2" | "i = 3" | "i = 4" | "i = 5" | "i = 6" | "i = 7"
    by fastforce
  then show "bit (swap64 v) (8 * i + k) \<longleftrightarrow> bit v (8 * (LENGTH(64) div 8 - 1 - i) + k)"
    by cases (use k in \<open>auto simp: bit_swap64 bit_swap32 bit_low_half bit_unsigned_iff
      bit_drop_bit_eq add.commute\<close>)
qed

lemma swap_unmem:
  "length p = 4 \<Longrightarrow> swap32 (unmem p) = unmem (rev p)"
  "length p = 8 \<Longrightarrow> swap64 (unmem p) = unmem (rev p)"
  using mem_swap32 [of "unmem p"] mem_swap64 [of "unmem p"]
    unmem_mem_simps(3) [of "swap32 (unmem p)"] unmem_mem_simps(4) [of "swap64 (unmem p)"]
  by (simp_all add: mem_unmem del: unmem_mem_simps)

text \<open>
  The file format does not depend on the host: writing in little-endian (big-endian) order
  gives the least (most) significant byte first on a host of either order, and reading what a
  host of one order wrote on a host of the other order gives the value back.
\<close>

theorem endian_host_independent:
  "writeLE32 host v = mem v \<and> writeBE32 host v = rev (mem v) \<and>
   writeLE64 host w = mem w \<and> writeBE64 host w = rev (mem w) \<and>
   readLE32 host' (writeLE32 host v) = v \<and> readBE32 host' (writeBE32 host v) = v \<and>
   readLE64 host' (writeLE64 host w) = w \<and> readBE64 host' (writeBE64 host w) = w"
  by (cases host; cases host';
      simp add: writeLE32_def writeBE32_def writeLE64_def writeBE64_def readLE32_def readBE32_def
        readLE64_def readBE64_def native_def unnative_def mem_swap32 mem_swap64 Let_def swap_unmem)

section \<open>Reading back\<close>



text \<open>
  C35. Every append of a writer stores zeros: \<^verbatim>\<open>writeBytes\<close> copies the bytes behind the last
  element of the buffer and then resizes the vector, which initialises the new elements. The
  buffer has the right size and none of the bytes.
\<close>

theorem append_stores_zeros:
  "\<exists>w. writeBytes src (mkWriter b ord) = (Inr (), w) \<and>
     bytes (wbuf w) = bytes b @ replicate (length src) 0 \<and> woffset w = length (bytes b) + length src"
  using writeBytes_effect [of "mkWriter b ord" src]
  by (auto simp: mkWriter_def overlay_def)

text \<open>
  A write inside the buffer is read back: after \<^verbatim>\<open>overwriteAt\<close> at a position where the
  bytes fit, a reader that seeks there reads exactly those bytes, and every byte outside the
  range is unchanged.
\<close>

theorem overwrite_read_back:
  assumes "position + length src \<le> length (bytes (wbuf w))" "length (bytes (wbuf w)) < 2 ^ 64"
  shows "\<exists>w'. overwriteAt position src w = (Inr (), w') \<and>
    fst (thenS (reader_seek position) (readBytes (length src)) (mkReader (bytes (wbuf w')) ord)) = Inr src \<and>
    take position (bytes (wbuf w')) = take position (bytes (wbuf w)) \<and>
    drop (position + length src) (bytes (wbuf w')) = drop (position + length src) (bytes (wbuf w))"
proof -
  let ?bs = "overlay position src (bytes (wbuf w))"
  have sz: "add_sz position (length src) = position + length src"
    using assms by (auto simp: add_sz_def intro!: mod_less)
  have bs: "?bs = take position (bytes (wbuf w)) @ src @ drop (position + length src) (bytes (wbuf w))"
    by (rule overlay_inside [OF assms(1)])
  have len: "length ?bs = length (bytes (wbuf w))" using assms(1) by simp
  define r where "r = (mkReader ?bs ord)\<lparr>roffset := position\<rparr>"
  have r: "reader_wf r" "ahead r = src @ drop (position + length src) (bytes (wbuf w))"
    using assms len bs by (auto simp: r_def reader_wf_def mkReader_def ahead_def)
  have "reader_seek position (mkReader ?bs ord) = (Inr (), r)"
    using assms len by (auto simp: reader_seek_def r_def mkReader_def)
  moreover have "readBytes (length src) r = (Inr src, advance (length src) r)"
    by (rule readBytes_ahead [OF r]) simp
  ultimately show ?thesis
    using assms(1) sz bs by (auto simp: overwriteAt_def)
qed

lemma le_nat_append: "le_nat (xs @ ys) = le_nat xs + 256 ^ length xs * le_nat ys"
  by (induction xs) (auto simp: algebra_simps)

lemma swap64_low: "unat v < 2 ^ 32 \<Longrightarrow> (ucast (swap64 v) :: u32) = 0"
proof -
  assume "unat v < 2 ^ 32"
  then have "unat (drop_bit 32 v) = 0" by (simp only: unat_drop_bit_eq) (simp add: drop_bit_eq_div)
  then have z: "(ucast (drop_bit 32 v) :: u32) = 0" by (simp add: unsigned_eq_0_iff)
  show ?thesis
  proof (rule bit_word_eqI)
    fix n assume "n < LENGTH(32)"
    then show "bit (ucast (swap64 v) :: u32) n = bit (0 :: u32) n"
      by (simp add: bit_unsigned_iff bit_swap64 bit_swap32 z)
  qed
qed

text \<open>
  Reading a 32-bit value in big-endian order on a little-endian host gives 0 whatever the
  bytes are: the four bytes are put in the low half of a 64-bit word, whose swapped value has
  them in its high half, which the cast drops.
\<close>

theorem readBE32_is_zero:
  assumes "reader_wf r" "4 \<le> length (ahead r)"
  shows "(readBE :: (reader, u32) op) r = (Inr 0, advance 4 r)"
proof -
  let ?bs = "take 4 (ahead r)"
  have bs: "readBytes 4 r = (Inr ?bs, advance 4 r)"
    by (rule readBytes_ahead [OF assms(1), of _ "drop 4 (ahead r)"]) (use assms(2) in simp_all)
  have "overlay 0 ?bs (replicate 8 0) = ?bs @ replicate 4 0"
    using assms(2) by (simp add: overlay_def)
  moreover have "le_nat ?bs < 2 ^ 32"
    using le_nat_bound [of ?bs] assms(2) by simp
  ultimately have "unat (unmem (overlay 0 ?bs (replicate 8 0)) :: u64) < 2 ^ 32"
    by (simp add: unmem_def le_nat_append unat_of_nat)
  from swap64_low [OF this] bs show ?thesis
    by (simp add: readBE_def readBE64_def unnative_def Let_def)
qed

section \<open>Strings and headers\<close>

lemma readVarU32_image:
  assumes "reader_wf r" "encodeLoop (ucast (v :: u32)) 0 5 = Some bs" "ahead r = bs @ rest"
  shows "readVarU32 r = (Inr v, advance (length bs) r)"
  using decodeU32_encodeLoop [OF assms(2), of rest] assms(3)
  by (simp add: readVarU32_def readVar_def ahead_def [symmetric] advance_def)

definition string_image :: "u8 list \<Rightarrow> u8 list" where
  "string_image s =
     (case encodeLoop (ucast (of_nat (length s) :: u32)) 0 5 of None \<Rightarrow> [] | Some bs \<Rightarrow> bs) @ s"

interpretation stringc: codec string_image deserializeString "\<lambda>s. length s < 2 ^ 32"
proof unfold_locales
  fix r x and rest :: "u8 list"
  assume r: "reader_wf r" and x: "length x < 2 ^ 32" and a: "ahead r = string_image x @ rest"
  obtain bs where bs: "encodeLoop (ucast (of_nat (length x) :: u32)) 0 5 = Some bs"
    using encode_32_defined by blast
  from a bs have a': "ahead r = bs @ (x @ rest)" by (simp add: string_image_def)
  have n: "unat (of_nat (length x) :: u32) = length x" using x by (simp add: unat_of_nat)
  have r': "reader_wf (advance (length bs) r)" "ahead (advance (length bs) r) = x @ rest"
    using r a' by (auto intro: reader_wf_advance)
  from readBytes_ahead [OF r'] have "readBytes (length x) (advance (length bs) r) =
      (Inr x, advance (length x) (advance (length bs) r))" by simp
  with readVarU32_image [OF r bs a'] n bs
  show "deserializeString r = (Inr x, advance (length (string_image x)) r)"
    by (simp add: deserializeString_def string_image_def)
qed

text \<open>
  A sequence of strings is read back: from the length of each string as a variable-length
  integer followed by its bytes, one after the other, the string reader called that many times
  returns the strings and stops at the first byte after them.
\<close>

theorem strings_read_back:
  assumes "\<forall>s \<in> set ss. length s < 2 ^ 32" "length (concat (map string_image ss) @ rest) < 2 ^ 64"
  shows "\<exists>r. readMany deserializeString (length ss)
      (mkReader (concat (map string_image ss) @ rest) ord) = (Inr ss, r) \<and> ahead r = rest"
  using stringc.readMany_image [of "mkReader (concat (map string_image ss) @ rest) ord" ss rest] assms
  by simp

lemma length_header_image [simp]: "length (header_image h) = 16"
  by (simp add: header_image_def)

lemma header_fields:
  "unmem (take 4 (header_image h)) = h_magic h" "unmem (take 4 (drop 4 (header_image h))) = h_version h"
  "unmem (drop 8 (header_image h)) = h_dataSize h"
  by (simp_all add: header_image_def)

text \<open>
  The stream header is checked on every branch: for the sixteen bytes of any header, the
  reader accepts exactly the format magic with a supported version, then carries that version in
  the context; a wrong magic and an unsupported version are the two errors, and the context is
  unchanged by them.
\<close>

theorem readHeader_checks:
  assumes "length rest < 2 ^ 63"
  shows "readHeader (mkReader (header_image h @ rest) ord, ctx) =
    (if h_magic h \<noteq> kFormatMagic
     then (Inl (corruption ''Serializer: invalid header magic''),
           (advance 16 (mkReader (header_image h @ rest) ord), ctx))
     else if h_version h \<noteq> 1
     then (Inl (invalidArgument (''Serializer: unsupported version '' @ to_string (unat (h_version h)))),
           (advance 16 (mkReader (header_image h @ rest) ord), ctx))
     else (Inr (), (advance 16 (mkReader (header_image h @ rest) ord), ctx\<lparr>ctx_version := 1\<rparr>)))"
proof -
  have v: "isVersionSupported n \<longleftrightarrow> n = 1" for n
    by (auto simp: isVersionSupported_def kDefaultVersion_def kLatestVersion_def)
  have "readBytes 16 (mkReader (header_image h @ rest) ord) =
      (Inr (header_image h), advance 16 (mkReader (header_image h @ rest) ord))"
    by (rule readBytes_ahead) (use assms in simp_all)
  then show ?thesis
    by (simp add: readHeader_def header_fields isValidHeader_def v Let_def)
qed

end
