(* ===== verification/Storage.thy ===== *)
theory Storage
  imports Serialization
begin

unbundle bit_operations_syntax

text \<open>
  The storage layer below the file: the constants of Config.h and StorageConstants.h, the page
  header and the in-memory page (PageHeader.h, Page.h, Page.cpp), and the page allocator
  (PageAllocator.h, PageAllocator.cpp) with its invariant, its refinement of a set of owned
  pages and the contract of a source of page identifiers.
\<close>

section \<open>Constants\<close>

type_synonym PageId = u32

definition kMagicNumber :: u32 where "kMagicNumber = 0x51444231"
definition kFileFormatVersion :: u32 where "kFileFormatVersion = 1"
definition kMaxPageCount :: u32 where "kMaxPageCount = 1024 * 1024"
definition kReservedPages :: u32 where "kReservedPages = 8"
definition kInvalidPageId :: PageId where "kInvalidPageId = 0xFFFFFFFF"
definition kMaxPageId :: PageId where "kMaxPageId = kMaxPageCount - 1"
definition kPageSize :: nat where "kPageSize = 4096"
definition kPageHeaderSize :: nat where "kPageHeaderSize = 64"
definition kPagePayloadSize :: nat where "kPagePayloadSize = kPageSize - kPageHeaderSize"

lemma kMaxPageCount_eq: "kMaxPageCount = 0x100000"
  by (simp add: kMaxPageCount_def)

lemma kMaxPageId_eq: "kMaxPageId = 0xFFFFF"
  by (simp add: kMaxPageId_def kMaxPageCount_eq)

lemmas id_consts = kReservedPages_def kInvalidPageId_def kMaxPageId_eq kMaxPageCount_eq
lemmas size_consts = kPagePayloadSize_def kPageSize_def kPageHeaderSize_def

section \<open>Pages\<close>

text \<open>
  The enumerations have a fixed underlying type and are read from disk by copying memory, so a
  page type is any byte; the enumerators are its named values.
\<close>

type_synonym PageType = u8

abbreviation PageType_Invalid :: PageType where "PageType_Invalid \<equiv> 0"
abbreviation PageType_Header :: PageType where "PageType_Header \<equiv> 1"
abbreviation PageType_Metadata :: PageType where "PageType_Metadata \<equiv> 2"
abbreviation PageType_FreeList :: PageType where "PageType_FreeList \<equiv> 3"
abbreviation PageType_Data :: PageType where "PageType_Data \<equiv> 4"
abbreviation PageType_Overflow :: PageType where "PageType_Overflow \<equiv> 5"
abbreviation PageType_Index :: PageType where "PageType_Index \<equiv> 6"
abbreviation PageType_Journal :: PageType where "PageType_Journal \<equiv> 7"
abbreviation PageType_Reserved :: PageType where "PageType_Reserved \<equiv> 8"

abbreviation hasFlag :: "u16 \<Rightarrow> u16 \<Rightarrow> bool" where
  "hasFlag value flag \<equiv> value AND flag \<noteq> 0"

record page_header =
  ph_magic :: u32
  ph_version :: u32
  ph_pageId :: PageId
  ph_pageType :: PageType
  ph_flags :: u8
  ph_payloadSize :: u16
  ph_reserved1 :: u16
  ph_timestamp :: u32
  ph_checksum :: u32
  ph_generation :: u64
  ph_reserved2 :: "u32 list"
  ph_reservedPad :: u16

definition PageHeader_make :: "PageId \<Rightarrow> PageType \<Rightarrow> page_header" where
  "PageHeader_make pid type =
     \<lparr>ph_magic = kMagicNumber, ph_version = kFileFormatVersion, ph_pageId = pid,
      ph_pageType = type, ph_flags = 0, ph_payloadSize = of_nat kPagePayloadSize,
      ph_reserved1 = 0, ph_timestamp = 0, ph_checksum = 0, ph_generation = 0,
      ph_reserved2 = replicate 7 0, ph_reservedPad = 0\<rparr>"

definition PageHeader_isValid :: "page_header \<Rightarrow> bool" where
  "PageHeader_isValid h \<longleftrightarrow> ph_magic h = kMagicNumber \<and> ph_pageType h \<noteq> PageType_Invalid"

text \<open>The packed image of the structure, and the structure a 64-byte image stands for.\<close>

definition page_header_image :: "page_header \<Rightarrow> u8 list" where
  "page_header_image h =
     mem (ph_magic h) @ mem (ph_version h) @ mem (ph_pageId h) @ mem (ph_pageType h) @
     mem (ph_flags h) @ mem (ph_payloadSize h) @ mem (ph_reserved1 h) @ mem (ph_timestamp h) @
     mem (ph_checksum h) @ mem (ph_generation h) @ concat (map mem (ph_reserved2 h)) @
     mem (ph_reservedPad h)"

definition page_header_of :: "u8 list \<Rightarrow> page_header" where
  "page_header_of bs =
     \<lparr>ph_magic = unmem (take 4 bs), ph_version = unmem (take 4 (drop 4 bs)),
      ph_pageId = unmem (take 4 (drop 8 bs)), ph_pageType = unmem (take 1 (drop 12 bs)),
      ph_flags = unmem (take 1 (drop 13 bs)), ph_payloadSize = unmem (take 2 (drop 14 bs)),
      ph_reserved1 = unmem (take 2 (drop 16 bs)), ph_timestamp = unmem (take 4 (drop 18 bs)),
      ph_checksum = unmem (take 4 (drop 22 bs)), ph_generation = unmem (take 8 (drop 26 bs)),
      ph_reserved2 = map (\<lambda>i. unmem (take 4 (drop (34 + 4 * i) bs))) [0..<7],
      ph_reservedPad = unmem (take 2 (drop 62 bs))\<rparr>"

text \<open>
  A page owns its header and the buffer \<^verbatim>\<open>data_\<close>; a page that was moved from has no buffer,
  the empty list here.
\<close>

record page =
  pg_header :: page_header
  pg_data :: "u8 list"
  pg_dirty :: bool
  pg_pinCount :: i32
  pg_ownsBuffer :: bool

definition Page_new :: "PageId \<Rightarrow> PageType \<Rightarrow> page" where
  "Page_new pid type =
     \<lparr>pg_header = PageHeader_make pid type,
      pg_data = overlay 0 (page_header_image (PageHeader_make pid type)) (replicate kPageSize 0),
      pg_dirty = False, pg_pinCount = 0, pg_ownsBuffer = True\<rparr>"

definition Page_default :: page where
  "Page_default = Page_new kInvalidPageId PageType_Invalid"

text \<open>Move construction: the new page and what is left of the other one.\<close>

definition Page_move :: "page \<Rightarrow> page \<times> page" where
  "Page_move other =
     (other, other\<lparr>pg_data := [], pg_ownsBuffer := False,
        pg_header := PageHeader_make kInvalidPageId PageType_Invalid,
        pg_dirty := False, pg_pinCount := 0\<rparr>)"

definition Page_reset :: "PageId \<Rightarrow> PageType \<Rightarrow> page \<Rightarrow> page" where
  "Page_reset pid type p =
     (let h = PageHeader_make pid type;
          d = (if pg_ownsBuffer p then replicate kPageSize 0 else pg_data p)
      in p\<lparr>pg_header := h, pg_data := overlay 0 (page_header_image h) d, pg_dirty := False,
           pg_pinCount := 0\<rparr>)"

definition Page_zeroFill :: "page \<Rightarrow> page" where
  "Page_zeroFill p = (if pg_data p \<noteq> [] then p\<lparr>pg_data := replicate kPageSize 0\<rparr> else p)"

definition Page_id :: "page \<Rightarrow> PageId" where "Page_id p = ph_pageId (pg_header p)"
definition Page_type :: "page \<Rightarrow> PageType" where "Page_type p = ph_pageType (pg_header p)"
definition Page_payload :: "page \<Rightarrow> u8 list" where
  "Page_payload p = drop kPageHeaderSize (pg_data p)"

definition Page_setPayloadSize :: "u16 \<Rightarrow> page \<Rightarrow> page" where
  "Page_setPayloadSize n p = p\<lparr>pg_header := (pg_header p)\<lparr>ph_payloadSize := n\<rparr>\<rparr>"

definition Page_setGeneration :: "u64 \<Rightarrow> page \<Rightarrow> page" where
  "Page_setGeneration gen p = p\<lparr>pg_header := (pg_header p)\<lparr>ph_generation := gen\<rparr>\<rparr>"

definition Page_setDirty :: "bool \<Rightarrow> page \<Rightarrow> page" where
  "Page_setDirty d p = p\<lparr>pg_dirty := d\<rparr>"

definition Page_pin :: "page \<Rightarrow> page" where
  "Page_pin p = p\<lparr>pg_pinCount := pg_pinCount p + 1\<rparr>"

definition Page_unpin :: "page \<Rightarrow> page" where
  "Page_unpin p = (if 0 <s pg_pinCount p then p\<lparr>pg_pinCount := pg_pinCount p - 1\<rparr> else p)"

section \<open>The page allocator\<close>

record allocator_stats =
  as_totalAllocated :: u32
  as_totalFreed :: u32
  as_peakAllocated :: u32
  as_currentAllocated :: u32
  as_freeListSize :: u32
  as_nextPageId :: u32

definition AllocatorStats :: allocator_stats where
  "AllocatorStats = \<lparr>as_totalAllocated = 0, as_totalFreed = 0, as_peakAllocated = 0,
     as_currentAllocated = 0, as_freeListSize = 0, as_nextPageId = kReservedPages\<rparr>"

text \<open>The free list is a vector used as a stack: its back is the last element.\<close>

record page_allocator =
  pa_freeList :: "PageId list"
  pa_nextPageId :: PageId
  pa_stats :: allocator_stats

definition PageAllocator_new :: page_allocator where
  "PageAllocator_new = \<lparr>pa_freeList = [], pa_nextPageId = kReservedPages, pa_stats = AllocatorStats\<rparr>"

definition count_allocated :: "nat \<Rightarrow> allocator_stats \<Rightarrow> allocator_stats" where
  "count_allocated n s =
     (let current = as_currentAllocated s + 1
      in s\<lparr>as_totalAllocated := as_totalAllocated s + 1, as_currentAllocated := current,
           as_peakAllocated := (if current > as_peakAllocated s then current else as_peakAllocated s),
           as_freeListSize := of_nat n\<rparr>)"

definition PageAllocator_allocate :: "page_allocator \<Rightarrow> PageId \<times> page_allocator" where
  "PageAllocator_allocate a =
     (if pa_freeList a \<noteq> []
      then let pid = last (pa_freeList a); fl = butlast (pa_freeList a)
           in (pid, a\<lparr>pa_freeList := fl, pa_stats := count_allocated (length fl) (pa_stats a)\<rparr>)
      else if pa_nextPageId a > kMaxPageId then (kInvalidPageId, a)
      else (pa_nextPageId a,
            a\<lparr>pa_nextPageId := pa_nextPageId a + 1,
              pa_stats := count_allocated (length (pa_freeList a)) (pa_stats a)\<rparr>))"

definition PageAllocator_free :: "PageId \<Rightarrow> page_allocator \<Rightarrow> bool \<times> page_allocator" where
  "PageAllocator_free pid a =
     (if pid = kInvalidPageId \<or> pid < kReservedPages then (False, a)
      else if pid \<ge> pa_nextPageId a then (False, a)
      else if pid \<in> set (pa_freeList a) then (False, a)
      else let fl = pa_freeList a @ [pid]; s = pa_stats a
           in (True, a\<lparr>pa_freeList := fl,
                 pa_stats := s\<lparr>as_totalFreed := as_totalFreed s + 1,
                   as_currentAllocated := as_currentAllocated s - 1,
                   as_freeListSize := of_nat (length fl)\<rparr>\<rparr>))"

definition PageAllocator_reset :: "page_allocator \<Rightarrow> page_allocator" where
  "PageAllocator_reset a =
     a\<lparr>pa_freeList := [], pa_nextPageId := kReservedPages, pa_stats := AllocatorStats\<rparr>"

definition PageAllocator_isAllocated :: "PageId \<Rightarrow> page_allocator \<Rightarrow> bool" where
  "PageAllocator_isAllocated pid a =
     (if pid = kInvalidPageId then False
      else if pid \<ge> pa_nextPageId a then False
      else if pid < kReservedPages then True
      else pid \<notin> set (pa_freeList a))"

section \<open>Sources of page identifiers\<close>

text \<open>
  What the rest of the program relies on when it asks for a page: an identifier that is handed
  out is not owned already, and releasing works exactly on the owned ones. The abstract
  specification is a ledger, the set of owned pages folded over the answers given; a run of any
  source with this contract is a run of the ledger.
\<close>

datatype page_request = Allocate | Release PageId

datatype page_answer = Granted PageId | Exhausted | Released PageId | Refused PageId

fun page_run :: "('s \<Rightarrow> PageId \<times> 's) \<Rightarrow> (PageId \<Rightarrow> 's \<Rightarrow> bool \<times> 's) \<Rightarrow>
    page_request list \<Rightarrow> 's \<Rightarrow> page_answer list \<times> 's" where
  "page_run alloc release [] s = ([], s)"
| "page_run alloc release (Allocate # rs) s =
     (case alloc s of (p, s') \<Rightarrow> case page_run alloc release rs s' of (as, s'') \<Rightarrow>
        ((if p = kInvalidPageId then Exhausted else Granted p) # as, s''))"
| "page_run alloc release (Release p # rs) s =
     (case release p s of (b, s') \<Rightarrow> case page_run alloc release rs s' of (as, s'') \<Rightarrow>
        ((if b then Released p else Refused p) # as, s''))"

fun ledger :: "PageId set \<Rightarrow> page_answer list \<Rightarrow> PageId set option" where
  "ledger A [] = Some A"
| "ledger A (Granted p # as) = (if p \<in> A then None else ledger (insert p A) as)"
| "ledger A (Exhausted # as) = ledger A as"
| "ledger A (Released p # as) = (if p \<in> A then ledger (A - {p}) as else None)"
| "ledger A (Refused p # as) = (if p \<in> A then None else ledger A as)"

locale page_source =
  fixes alloc :: "'s \<Rightarrow> PageId \<times> 's"
    and release :: "PageId \<Rightarrow> 's \<Rightarrow> bool \<times> 's"
    and owned :: "'s \<Rightarrow> PageId set"
    and inv :: "'s \<Rightarrow> bool"
  assumes alloc_fresh: "inv s \<Longrightarrow> alloc s = (p, s') \<Longrightarrow> p \<noteq> kInvalidPageId \<Longrightarrow>
      inv s' \<and> p \<notin> owned s \<and> owned s' = insert p (owned s)"
    and alloc_none: "inv s \<Longrightarrow> alloc s = (kInvalidPageId, s') \<Longrightarrow> inv s' \<and> owned s' = owned s"
    and release_exact: "inv s \<Longrightarrow> release p s = (b, s') \<Longrightarrow>
      inv s' \<and> (b \<longleftrightarrow> p \<in> owned s) \<and> owned s' = owned s - {p}"
begin

lemma run_ledger:
  assumes "inv s" "page_run alloc release rs s = (as, s')"
  shows "inv s' \<and> ledger (owned s) as = Some (owned s')"
  using assms
proof (induction rs arbitrary: s as)
  case Nil
  then show ?case by simp
next
  case (Cons r rs)
  show ?case
  proof (cases r)
    case Allocate
    obtain p t where a: "alloc s = (p, t)" by (cases "alloc s")
    obtain as' where u: "page_run alloc release rs t = (as', s')"
      and as: "as = (if p = kInvalidPageId then Exhausted else Granted p) # as'"
      using Cons.prems(2) a Allocate by (auto split: prod.splits)
    show ?thesis
    proof (cases "p = kInvalidPageId")
      case True
      with alloc_none [OF Cons.prems(1)] a have "inv t" "owned t = owned s" by blast+
      with Cons.IH [OF \<open>inv t\<close> u] as True show ?thesis by simp
    next
      case False
      note f = alloc_fresh [OF Cons.prems(1) a False]
      with Cons.IH [OF _ u] as False show ?thesis by simp
    qed
  next
    case (Release p)
    obtain b t where a: "release p s = (b, t)" by (cases "release p s")
    obtain as' where u: "page_run alloc release rs t = (as', s')"
      and as: "as = (if b then Released p else Refused p) # as'"
      using Cons.prems(2) a Release by (auto split: prod.splits)
    note rel = release_exact [OF Cons.prems(1) a]
    from Cons.IH [OF _ u] rel as show ?thesis by (cases b) simp_all
  qed
qed

lemma grants_distinct:
  assumes "inv s" "page_run alloc release (replicate n Allocate) s = (as, s')"
    "Exhausted \<notin> set as"
  shows "\<exists>ps. as = map Granted ps \<and> distinct ps \<and> set ps \<inter> owned s = {} \<and> owned s' = owned s \<union> set ps"
  using assms
proof (induction n arbitrary: s as)
  case 0
  then show ?case by auto
next
  case (Suc n)
  obtain p t where a: "alloc s = (p, t)" by (cases "alloc s")
  obtain as' where u: "page_run alloc release (replicate n Allocate) t = (as', s')"
    and as: "as = (if p = kInvalidPageId then Exhausted else Granted p) # as'"
    using Suc.prems(2) a by (auto split: prod.splits)
  with Suc.prems(3) have p: "p \<noteq> kInvalidPageId" "Exhausted \<notin> set as'" by (auto split: if_splits)
  note f = alloc_fresh [OF Suc.prems(1) a p(1)]
  from f have "inv t" by simp
  from Suc.IH [OF this u p(2)] obtain ps where ps: "as' = map Granted ps" "distinct ps"
    "set ps \<inter> owned t = {}" "owned s' = owned t \<union> set ps" by blast
  have "as = map Granted (p # ps) \<and> distinct (p # ps) \<and> set (p # ps) \<inter> owned s = {} \<and>
      owned s' = owned s \<union> set (p # ps)"
    using ps f p as by auto
  then show ?case by blast
qed

end

section \<open>The allocator is a source of page identifiers\<close>

definition allocated :: "page_allocator \<Rightarrow> PageId set" where
  "allocated a = {p. kReservedPages \<le> p \<and> p < pa_nextPageId a \<and> p \<notin> set (pa_freeList a)}"

definition allocator_wf :: "page_allocator \<Rightarrow> bool" where
  "allocator_wf a \<longleftrightarrow>
     distinct (pa_freeList a) \<and>
     (\<forall>p \<in> set (pa_freeList a). kReservedPages \<le> p \<and> p < pa_nextPageId a) \<and>
     kReservedPages \<le> pa_nextPageId a \<and> pa_nextPageId a \<le> kMaxPageCount"

lemma allocator_wf_new: "allocator_wf PageAllocator_new" "allocated PageAllocator_new = {}"
  by (auto simp: allocator_wf_def PageAllocator_new_def id_consts allocated_def)

lemma allocator_wf_reset: "allocator_wf (PageAllocator_reset a)" "allocated (PageAllocator_reset a) = {}"
  by (auto simp: allocator_wf_def PageAllocator_reset_def id_consts allocated_def)

lemma invalid_not_allocated: "allocator_wf a \<Longrightarrow> kInvalidPageId \<notin> allocated a"
  by (auto simp: allocator_wf_def allocated_def id_consts u32_nat)

lemma u32_less_Suc: "(n :: u32) \<le> 0xFFFFF \<Longrightarrow> p < n + 1 \<longleftrightarrow> p < n \<or> p = n"
proof -
  assume "n \<le> 0xFFFFF"
  then have "unat (n + 1) = unat n + 1" by (simp add: unat_u32_plus u32_nat)
  then show ?thesis by (auto simp: u32_nat)
qed

lemma allocate_reuse:
  assumes "allocator_wf a" "pa_freeList a \<noteq> []" "PageAllocator_allocate a = (p, a')"
  shows "p \<notin> allocated a" "p \<noteq> kInvalidPageId" "allocated a' = insert p (allocated a)" "allocator_wf a'"
proof -
  obtain fl where fl: "pa_freeList a = fl @ [p]"
    using assms(2,3) by (cases "pa_freeList a" rule: rev_cases) (auto simp: PageAllocator_allocate_def Let_def)
  with assms show "p \<notin> allocated a" "p \<noteq> kInvalidPageId"
    "allocated a' = insert p (allocated a)" "allocator_wf a'"
    by (auto simp: PageAllocator_allocate_def allocator_wf_def allocated_def Let_def id_consts u32_nat)
qed

lemma allocate_extend:
  assumes "allocator_wf a" "pa_freeList a = []" "pa_nextPageId a \<le> kMaxPageId"
    "PageAllocator_allocate a = (p, a')"
  shows "p \<notin> allocated a" "p \<noteq> kInvalidPageId" "allocated a' = insert p (allocated a)" "allocator_wf a'"
proof -
  have p: "p = pa_nextPageId a" "pa_nextPageId a' = pa_nextPageId a + 1" "pa_freeList a' = []"
    using assms(2-4) by (auto simp: PageAllocator_allocate_def split: if_splits)
  have n: "pa_nextPageId a \<le> 0xFFFFF" using assms(3) by (simp add: kMaxPageId_eq)
  then have u: "unat (pa_nextPageId a + 1) = unat (pa_nextPageId a) + 1" "unat (pa_nextPageId a) \<le> 0xFFFFF"
    by (simp_all add: unat_u32_plus word_le_nat_alt)
  show "p \<notin> allocated a" by (simp add: allocated_def p)
  show "p \<noteq> kInvalidPageId" using n by (auto simp: p kInvalidPageId_def)
  have "8 \<le> unat (pa_nextPageId a)"
    using assms(1) by (simp add: allocator_wf_def id_consts word_le_nat_alt)
  with u show "allocator_wf a'" by (simp add: allocator_wf_def p id_consts word_le_nat_alt)
  show "allocated a' = insert p (allocated a)"
    using assms(1,2) u32_less_Suc [OF n] p by (auto simp: allocated_def allocator_wf_def)
qed

lemma allocate_none:
  assumes "PageAllocator_allocate a = (kInvalidPageId, a')" "allocator_wf a"
  shows "a' = a \<and> pa_freeList a = [] \<and> pa_nextPageId a > kMaxPageId"
  using allocate_reuse(2) [OF assms(2) _ assms(1)] allocate_extend(2) [OF assms(2) _ _ assms(1)] assms(1)
  by (cases "pa_freeList a = []"; cases "pa_nextPageId a \<le> kMaxPageId")
     (auto simp: PageAllocator_allocate_def not_le)

lemma free_exact:
  assumes "allocator_wf a" "PageAllocator_free p a = (b, a')"
  shows "allocator_wf a' \<and> (b \<longleftrightarrow> p \<in> allocated a) \<and> allocated a' = allocated a - {p} \<and> (\<not> b \<longrightarrow> a' = a)"
  using assms invalid_not_allocated [OF assms(1)]
  by (auto simp: PageAllocator_free_def allocator_wf_def allocated_def Let_def split: if_splits)

interpretation pagealloc: page_source PageAllocator_allocate PageAllocator_free allocated allocator_wf
proof unfold_locales
  fix s p s'
  assume s: "allocator_wf s" "PageAllocator_allocate s = (p, s')" "p \<noteq> kInvalidPageId"
  then have "pa_freeList s \<noteq> [] \<or> pa_nextPageId s \<le> kMaxPageId"
    by (auto simp: PageAllocator_allocate_def split: if_splits)
  then show "allocator_wf s' \<and> p \<notin> allocated s \<and> allocated s' = insert p (allocated s)"
    using allocate_reuse [OF s(1) _ s(2)] allocate_extend [OF s(1) _ _ s(2)] by blast
qed (auto dest: allocate_none free_exact)

section \<open>Statistics and exhaustion\<close>

text \<open>The states a client can bring the allocator to through its public members.\<close>

inductive allocator_reachable :: "page_allocator \<Rightarrow> bool" where
  new: "allocator_reachable PageAllocator_new"
| allocate: "allocator_reachable a \<Longrightarrow> PageAllocator_allocate a = (p, a') \<Longrightarrow> allocator_reachable a'"
| free: "allocator_reachable a \<Longrightarrow> PageAllocator_free q a = (b, a') \<Longrightarrow> allocator_reachable a'"
| reset: "allocator_reachable a \<Longrightarrow> allocator_reachable (PageAllocator_reset a)"

definition stats_wf :: "page_allocator \<Rightarrow> bool" where
  "stats_wf a \<longleftrightarrow>
     (let s = pa_stats a in
      unat (as_currentAllocated s) + length (pa_freeList a) + unat kReservedPages = unat (pa_nextPageId a) \<and>
      as_freeListSize s = of_nat (length (pa_freeList a)) \<and>
      as_currentAllocated s \<le> as_peakAllocated s \<and> as_peakAllocated s \<le> kMaxPageCount \<and>
      as_totalAllocated s = as_totalFreed s + as_currentAllocated s \<and>
      as_nextPageId s = kReservedPages)"

lemma u32_Suc: "unat (n :: u32) < 0x100000 \<Longrightarrow> unat (n + 1) = unat n + 1"
  by (simp add: unat_u32_plus)

lemma u32_pred: "0 < unat (n :: u32) \<Longrightarrow> unat (n - 1) = unat n - 1"
  by (subst unat_sub) (simp_all add: word_le_nat_alt)

lemma stats_wf_count:
  assumes "unat (as_currentAllocated s) < 0x100000" "as_currentAllocated s \<le> as_peakAllocated s"
    "as_peakAllocated s \<le> kMaxPageCount"
  shows "as_currentAllocated (count_allocated n s) \<le> as_peakAllocated (count_allocated n s)"
    "as_peakAllocated (count_allocated n s) \<le> kMaxPageCount"
  using assms u32_Suc [OF assms(1)]
  by (auto simp: count_allocated_def Let_def word_le_nat_alt word_less_nat_alt kMaxPageCount_eq)

lemma count_allocated_fields [simp]:
  "as_currentAllocated (count_allocated n s) = as_currentAllocated s + 1"
  "as_totalAllocated (count_allocated n s) = as_totalAllocated s + 1"
  "as_totalFreed (count_allocated n s) = as_totalFreed s"
  "as_freeListSize (count_allocated n s) = of_nat n"
  "as_nextPageId (count_allocated n s) = as_nextPageId s"
  by (simp_all add: count_allocated_def Let_def)

lemma stats_wf_allocate:
  assumes "allocator_wf a" "stats_wf a" "PageAllocator_allocate a = (p, a')"
  shows "stats_wf a'"
proof -
  have next_le: "unat (pa_nextPageId a) \<le> 0x100000"
    using assms(1) by (simp add: allocator_wf_def kMaxPageCount_eq word_le_nat_alt)
  have s: "unat (as_currentAllocated (pa_stats a)) + length (pa_freeList a) + 8 = unat (pa_nextPageId a)"
    "as_currentAllocated (pa_stats a) \<le> as_peakAllocated (pa_stats a)"
    "as_peakAllocated (pa_stats a) \<le> kMaxPageCount"
    using assms(2) by (auto simp: stats_wf_def Let_def kReservedPages_def)
  then have lt: "unat (as_currentAllocated (pa_stats a)) < 0x100000" using next_le by linarith
  note c = stats_wf_count [OF lt s(2,3)]
  consider (reuse) fl q where "pa_freeList a = fl @ [q]"
    | (full) "pa_freeList a = []" "pa_nextPageId a > kMaxPageId"
    | (extend) "pa_freeList a = []" "\<not> pa_nextPageId a > kMaxPageId"
    by (cases "pa_freeList a" rule: rev_cases) auto
  then show ?thesis
  proof cases
    case reuse
    with assms(2,3) s(1) c u32_Suc [OF lt] show ?thesis
      by (auto simp: PageAllocator_allocate_def Let_def stats_wf_def kReservedPages_def)
  next
    case full
    with assms(2,3) show ?thesis by (simp add: PageAllocator_allocate_def)
  next
    case extend
    then have "unat (pa_nextPageId a) < 0x100000" by (simp add: kMaxPageId_eq word_le_nat_alt not_less)
    from u32_Suc [OF this] extend assms(2,3) s(1) c u32_Suc [OF lt] show ?thesis
      by (auto simp: PageAllocator_allocate_def stats_wf_def Let_def kReservedPages_def)
  qed
qed

lemma allocated_subset:
  "allocator_wf a \<Longrightarrow>
     unat ` allocated a = {8..<unat (pa_nextPageId a)} - unat ` set (pa_freeList a)"
proof (intro set_eqI iffI)
  fix n assume a: "allocator_wf a" and n: "n \<in> {8..<unat (pa_nextPageId a)} - unat ` set (pa_freeList a)"
  then have "n < 2 ^ 32" using less_trans [OF _ unsigned_less, of n "pa_nextPageId a"] by simp
  then have u: "unat (of_nat n :: u32) = n" by (simp add: unat_of_nat)
  with n have "of_nat n \<in> allocated a"
    by (auto simp: allocated_def kReservedPages_def word_le_nat_alt word_less_nat_alt image_iff)
  with u show "n \<in> unat ` allocated a" by (metis imageI)
next
  fix n assume "allocator_wf a" "n \<in> unat ` allocated a"
  then show "n \<in> {8..<unat (pa_nextPageId a)} - unat ` set (pa_freeList a)"
    by (auto simp: allocated_def kReservedPages_def word_le_nat_alt word_less_nat_alt
        dest: word_unat_eq_iff [THEN iffD2])
qed

lemma card_allocated:
  assumes "allocator_wf a"
  shows "card (allocated a) + length (pa_freeList a) + 8 = unat (pa_nextPageId a)"
proof -
  have inj: "inj_on unat (X :: u32 set)" for X by (simp add: inj_on_def word_unat_eq_iff)
  have fl: "unat ` set (pa_freeList a) \<subseteq> {8..<unat (pa_nextPageId a)}" "8 \<le> unat (pa_nextPageId a)"
    using assms by (auto simp: allocator_wf_def kReservedPages_def word_le_nat_alt word_less_nat_alt)
  have "card (allocated a) = card (unat ` allocated a)" by (simp add: card_image inj)
  also have "\<dots> = card {8..<unat (pa_nextPageId a)} - card (unat ` set (pa_freeList a))"
    unfolding allocated_subset [OF assms] by (rule card_Diff_subset) (use fl in auto)
  also have "card (unat ` set (pa_freeList a)) = length (pa_freeList a)"
    using assms by (simp add: card_image inj allocator_wf_def distinct_card)
  finally have "card (allocated a) = unat (pa_nextPageId a) - 8 - length (pa_freeList a)" by simp
  moreover have "length (pa_freeList a) \<le> unat (pa_nextPageId a) - 8"
    using card_mono [OF _ fl(1)] assms
    by (simp add: card_image inj allocator_wf_def distinct_card)
  ultimately show ?thesis using fl(2) by linarith
qed

lemma stats_wf_free:
  assumes "allocator_wf a" "stats_wf a" "PageAllocator_free p a = (b, a')"
  shows "stats_wf a'"
proof (cases b)
  case False
  with free_exact [OF assms(1,3)] assms(2) show ?thesis by simp
next
  case True
  then have p: "p \<in> allocated a" using free_exact [OF assms(1,3)] by simp
  have fin: "finite (allocated a)" by simp
  from p fin have "0 < card (allocated a)" by (auto simp: card_gt_0_iff)
  with card_allocated [OF assms(1)] assms(2)
  have pos: "0 < unat (as_currentAllocated (pa_stats a))"
    by (auto simp: stats_wf_def Let_def kReservedPages_def)
  with assms(2,3) True u32_pred [OF pos] show ?thesis
    by (auto simp: PageAllocator_free_def stats_wf_def Let_def word_le_nat_alt split: if_splits)
qed

lemma reachable_wf: "allocator_reachable a \<Longrightarrow> allocator_wf a \<and> stats_wf a"
proof (induction rule: allocator_reachable.induct)
  case new
  show ?case
    by (simp add: allocator_wf_new) (simp add: stats_wf_def PageAllocator_new_def AllocatorStats_def kReservedPages_def
        kMaxPageCount_eq)
next
  case (allocate a p a')
  then show ?case
    using stats_wf_allocate pagealloc.alloc_fresh pagealloc.alloc_none by blast
next
  case (free a q b a')
  then show ?case using stats_wf_free free_exact by blast
next
  case (reset a)
  show ?case
    by (simp add: allocator_wf_reset) (simp add: stats_wf_def PageAllocator_reset_def AllocatorStats_def kReservedPages_def
        kMaxPageCount_eq)
qed

text \<open>
  C5. The allocator implements the ledger of owned pages: whatever sequence of allocations and
  frees a client makes on a new allocator, no page is granted while it is owned, a free succeeds
  exactly on the owned pages, and the pages owned at the end are the ones
  \<^verbatim>\<open>isAllocated\<close> reports outside the reserved range.
\<close>

theorem allocator_refines_ledger:
  "case page_run PageAllocator_allocate PageAllocator_free rs PageAllocator_new of (as, a) \<Rightarrow>
     ledger {} as = Some {p. kReservedPages \<le> p \<and> PageAllocator_isAllocated p a}"
proof -
  obtain as a where run: "page_run PageAllocator_allocate PageAllocator_free rs PageAllocator_new = (as, a)"
    by (rule prod.exhaust)
  have l: "allocator_wf a \<and> ledger {} as = Some (allocated a)"
    using pagealloc.run_ledger [OF allocator_wf_new(1) run] by (simp add: allocator_wf_new)
  then have "allocated a = {p. kReservedPages \<le> p \<and> PageAllocator_isAllocated p a}"
    using invalid_not_allocated [of a]
    by (auto simp: allocated_def PageAllocator_isAllocated_def)
  with l run show ?thesis by simp
qed

text \<open>
  C36. The allocator gives up only when there is nothing left: in every reachable state,
  \<^verbatim>\<open>allocate\<close> returns the invalid identifier exactly when all pages from the first unreserved
  one to the last possible one are owned; otherwise it returns a page in that range which was
  not owned.
\<close>

theorem allocate_exhausted_iff:
  assumes "allocator_reachable a"
  shows "(fst (PageAllocator_allocate a) = kInvalidPageId \<longleftrightarrow> allocated a = {kReservedPages..kMaxPageId}) \<and>
    (fst (PageAllocator_allocate a) = kInvalidPageId \<or>
     fst (PageAllocator_allocate a) \<in> {kReservedPages..kMaxPageId} - allocated a)"
proof -
  obtain p a' where pa: "PageAllocator_allocate a = (p, a')" by (cases "PageAllocator_allocate a")
  have wf: "allocator_wf a" using reachable_wf [OF assms] by simp
  have range: "allocated b \<subseteq> {kReservedPages..kMaxPageId}" if "allocator_wf b" for b
    using that by (auto simp: allocated_def allocator_wf_def id_consts word_le_nat_alt word_less_nat_alt)
  show ?thesis
  proof (cases "p = kInvalidPageId")
    case True
    with pa allocate_none [OF _ wf] have "pa_freeList a = []" "pa_nextPageId a > kMaxPageId" by auto
    then have "{kReservedPages..kMaxPageId} \<subseteq> allocated a" by (auto simp: allocated_def)
    with True pa range [OF wf] show ?thesis by auto
  next
    case False
    note f = pagealloc.alloc_fresh [OF wf pa False]
    with range [of a'] have "p \<in> {kReservedPages..kMaxPageId} - allocated a" by auto
    with False pa show ?thesis by auto
  qed
qed

theorem allocate_exhausted_iff_witness:
  "fst (PageAllocator_allocate PageAllocator_new) = kInvalidPageId \<or>
   fst (PageAllocator_allocate PageAllocator_new) \<in> {kReservedPages..kMaxPageId}"
  using allocate_exhausted_iff [OF allocator_reachable.new] by blast

text \<open>
  The allocator's statistics are exact in every reachable state: the current count is the
  number of owned pages, the free-list size is the length of the free list, the peak is at least
  the current count, and allocations minus frees (modulo \<open>2\<^sup>3\<^sup>2\<close>) is the current count. The one
  field that is not maintained is \<^verbatim>\<open>stats().nextPageId\<close>, which stays at the initial value.
\<close>

theorem allocator_statistics_exact:
  assumes "allocator_reachable a"
  shows "unat (as_currentAllocated (pa_stats a)) = card (allocated a) \<and>
    unat (as_freeListSize (pa_stats a)) = length (pa_freeList a) \<and>
    as_currentAllocated (pa_stats a) \<le> as_peakAllocated (pa_stats a) \<and>
    as_totalAllocated (pa_stats a) - as_totalFreed (pa_stats a) = as_currentAllocated (pa_stats a) \<and>
    as_nextPageId (pa_stats a) = kReservedPages"
proof -
  have wf: "allocator_wf a" and st: "stats_wf a" using reachable_wf [OF assms] by auto
  have "unat (pa_nextPageId a) \<le> 0x100000"
    using wf by (simp add: allocator_wf_def kMaxPageCount_eq word_le_nat_alt)
  with card_allocated [OF wf] have "length (pa_freeList a) < 2 ^ 32" by simp
  then have "unat (of_nat (length (pa_freeList a)) :: u32) = length (pa_freeList a)"
    by (simp add: unat_of_nat)
  with st card_allocated [OF wf] show ?thesis
    by (auto simp: stats_wf_def Let_def kReservedPages_def)
qed

end
