(* ===== verification/FreeSpace.thy ===== *)
theory FreeSpace
  imports Storage
begin

text \<open>
  Extents (Extent.h, Extent.cpp) and the free-space map (FreeSpaceMap.h, FreeSpaceMap.cpp): a
  vector of extents kept sorted by start, disjoint and not adjacent. The lemmas read the map as
  the set of page numbers it holds and give the exact effect of every operation on that set.
\<close>

section \<open>Extents\<close>

record extent =
  start :: PageId
  len :: u32

definition Extent :: "PageId \<Rightarrow> u32 \<Rightarrow> extent" where
  "Extent s n = \<lparr>start = s, len = n\<rparr>"

definition noExtent :: extent where
  "noExtent = Extent kInvalidPageId 0"

definition Extent_isValid :: "extent \<Rightarrow> bool" where
  "Extent_isValid e \<longleftrightarrow> len e > 0 \<and> start e \<noteq> kInvalidPageId"

abbreviation lastPage :: "extent \<Rightarrow> PageId" where
  "lastPage e \<equiv> start e + len e - 1"

definition endPage :: "extent \<Rightarrow> PageId" where
  "endPage e = start e + len e"

definition containsPage :: "PageId \<Rightarrow> extent \<Rightarrow> bool" where
  "containsPage p e \<longleftrightarrow> p \<ge> start e \<and> p < start e + len e"

text \<open>\<open>containsExtent a b\<close> is \<^verbatim>\<open>a.contains(b)\<close>.\<close>

definition containsExtent :: "extent \<Rightarrow> extent \<Rightarrow> bool" where
  "containsExtent a b \<longleftrightarrow>
     Extent_isValid b \<and> start b \<ge> start a \<and> start b + len b \<le> start a + len a"

definition intersects :: "extent \<Rightarrow> extent \<Rightarrow> bool" where
  "intersects a b \<longleftrightarrow>
     (if \<not> Extent_isValid a \<or> \<not> Extent_isValid b then False
      else start a < endPage b \<and> start b < endPage a)"

definition adjacentTo :: "extent \<Rightarrow> extent \<Rightarrow> bool" where
  "adjacentTo a b \<longleftrightarrow>
     (if \<not> Extent_isValid a \<or> \<not> Extent_isValid b then False
      else endPage a = start b \<or> endPage b = start a)"

definition canMerge :: "extent \<Rightarrow> extent \<Rightarrow> bool" where
  "canMerge a b \<longleftrightarrow> intersects a b \<or> adjacentTo a b"

definition merge :: "extent \<Rightarrow> extent \<Rightarrow> extent option" where
  "merge a b =
     (if \<not> Extent_isValid a \<or> \<not> Extent_isValid b then None
      else let newStart = min (start a) (start b);
               newEnd = max (start a + len a) (start b + len b)
           in if newEnd \<le> newStart then None else Some (Extent newStart (newEnd - newStart)))"

definition split :: "PageId \<Rightarrow> extent \<Rightarrow> (extent \<times> extent) option" where
  "split atPage e =
     (if \<not> Extent_isValid e \<or> atPage \<le> start e \<or> atPage \<ge> start e + len e then None
      else Some (Extent (start e) (atPage - start e), Extent atPage (start e + len e - atPage)))"

section \<open>The free-space map\<close>

type_synonym fsm = "extent list"

definition fsm_initialize :: "PageId \<Rightarrow> u32 \<Rightarrow> fsm" where
  "fsm_initialize s n = (if n > 0 then [Extent s n] else [])"

text \<open>
  The loop of \<^verbatim>\<open>markAllocated\<close> from the iterator on: whether it ends with success, and the
  extents from the iterator on. An extent that is shifted stays at the iterator, so the loop
  condition is evaluated on it again.
\<close>

function markLoop :: "extent \<Rightarrow> bool \<Rightarrow> fsm \<Rightarrow> bool \<times> fsm" where
  "markLoop rng changed [] = (changed, [])"
| "markLoop rng changed (current # rest) =
     (if \<not> start current < endPage rng then (changed, current # rest)
      else if containsExtent rng current then markLoop rng True rest
      else if containsExtent current rng
      then (True,
        case split (start rng) current of
          None \<Rightarrow> current # rest
        | Some (left, rightEnd) \<Rightarrow>
            let rightLen = len rightEnd - len rng;
                right = (if rightLen > 0 then [Extent (endPage rng) rightLen] else [])
            in (if Extent_isValid left then [left] else []) @ right @ rest)
      else if start current < start rng \<and> endPage current > start rng
      then (case markLoop rng True rest of
              (res, rest') \<Rightarrow> (res, current\<lparr>len := start rng - start current\<rparr> # rest'))
      else if start current \<ge> start rng \<and> start current < endPage rng
      then let overlap = endPage rng - start current; remaining = len current - overlap
           in if remaining > 0
              then markLoop rng True (Extent (endPage rng) remaining # rest)
              else markLoop rng True rest
      else (case markLoop rng changed rest of (res, rest') \<Rightarrow> (res, current # rest')))"
  by pat_completeness auto
termination
  by (relation "measure (\<lambda>(rng, changed, xs). case xs of [] \<Rightarrow> 0
        | x # _ \<Rightarrow> 2 * length xs + (if start x < endPage rng then 1 else 0))")
     (auto simp: Extent_def split: list.splits)

declare markLoop.simps(2) [simp del]

definition markAllocated :: "extent \<Rightarrow> (fsm, unit) op" where
  "markAllocated rng fsm =
     (if \<not> Extent_isValid rng
      then (Inl (invalidArgument ''FreeSpaceMap::markAllocated: invalid extent''), fsm)
      else if fsm = []
      then (Inl (invalidArgument ''FreeSpaceMap::markAllocated: no free extents available''), fsm)
      else let before = (\<lambda>e. endPage e \<le> start rng);
               (changed, rest) = markLoop rng False (dropWhile before fsm);
               fsm' = takeWhile before fsm @ rest
           in if \<not> changed
              then (Inl (invalidArgument (''FreeSpaceMap::markAllocated: extent range does not '' @
                      ''overlap any free extent'')), fsm')
              else (Inr (), fsm'))"

text \<open>The merge loop of \<^verbatim>\<open>markFree\<close>: the extent left of the iterator and what follows.\<close>

fun absorb :: "extent \<Rightarrow> fsm \<Rightarrow> fsm" where
  "absorb left [] = [left]"
| "absorb left (e # rest) =
     (if canMerge left e
      then (case merge left e of Some m \<Rightarrow> absorb m rest | None \<Rightarrow> left # e # rest)
      else left # e # rest)"

definition markFree :: "extent \<Rightarrow> (fsm, unit) op" where
  "markFree rng fsm =
     (if \<not> Extent_isValid rng
      then (Inl (invalidArgument ''FreeSpaceMap::markFree: invalid extent''), fsm)
      else let pre = takeWhile (\<lambda>e. start e < start rng) fsm;
               post = dropWhile (\<lambda>e. start e < start rng) fsm;
               inserted = pre @ absorb rng post
           in (Inr (),
               if pre \<noteq> [] \<and> canMerge (last pre) rng
               then (case merge (last pre) rng of
                       Some m \<Rightarrow> butlast pre @ absorb m post
                     | None \<Rightarrow> inserted)
               else inserted))"

definition fsm_clear :: "fsm \<Rightarrow> fsm" where
  "fsm_clear fsm = []"

definition findFreeRange :: "u32 \<Rightarrow> bool \<Rightarrow> fsm \<Rightarrow> extent" where
  "findFreeRange n preferBeginning fsm =
     (if fsm = [] \<or> n = 0 then noExtent
      else if preferBeginning
      then (case find (\<lambda>e. len e \<ge> n) fsm of None \<Rightarrow> noExtent | Some e \<Rightarrow> Extent (start e) n)
      else (case find (\<lambda>e. len e \<ge> n) (rev fsm) of
              None \<Rightarrow> noExtent | Some e \<Rightarrow> Extent (start e + (len e - n)) n))"

definition findExactRange :: "u32 \<Rightarrow> fsm \<Rightarrow> extent" where
  "findExactRange n fsm =
     (case find (\<lambda>e. len e = n) fsm of None \<Rightarrow> noExtent | Some e \<Rightarrow> e)"

fun bestLoop :: "u32 \<Rightarrow> extent option \<Rightarrow> fsm \<Rightarrow> extent option" where
  "bestLoop n best [] = best"
| "bestLoop n best (e # rest) =
     bestLoop n
       (if len e \<ge> n \<and> (case best of None \<Rightarrow> True | Some b \<Rightarrow> len e < len b) then Some e else best)
       rest"

definition findBestRange :: "u32 \<Rightarrow> fsm \<Rightarrow> extent" where
  "findBestRange n fsm =
     (case bestLoop n None fsm of Some b \<Rightarrow> Extent (start b) n | None \<Rightarrow> noExtent)"

definition countFree :: "fsm \<Rightarrow> u32" where
  "countFree fsm = foldl (\<lambda>total e. total + len e) 0 fsm"

abbreviation countFreeExtents :: "fsm \<Rightarrow> u32" where
  "countFreeExtents fsm \<equiv> of_nat (length fsm)"

definition fsm_contains :: "PageId \<Rightarrow> fsm \<Rightarrow> bool" where
  "fsm_contains page fsm =
     (let pre = takeWhile (\<lambda>e. start e < page) fsm; post = dropWhile (\<lambda>e. start e < page) fsm
      in if post \<noteq> [] \<and> start (hd post) = page then True
         else if pre \<noteq> [] \<and> containsPage page (last pre) then True
         else False)"

text \<open>The loop of \<^verbatim>\<open>validate\<close> at index \<open>i\<close>, with the extents from \<open>i - 1\<close> on.\<close>

fun validateLoop :: "nat \<Rightarrow> fsm \<Rightarrow> status + unit" where
  "validateLoop i (prev # cur # rest) =
     (if \<not> Extent_isValid prev
      then Inl (corruption (''FreeSpaceMap: invalid extent at index '' @ to_string (i - 1)))
      else if \<not> Extent_isValid cur
      then Inl (corruption (''FreeSpaceMap: invalid extent at index '' @ to_string i))
      else if start prev \<ge> start cur then Inl (corruption ''FreeSpaceMap: extents not sorted'')
      else if intersects prev cur then Inl (corruption ''FreeSpaceMap: overlapping extents'')
      else if adjacentTo prev cur
      then Inl (corruption ''FreeSpaceMap: adjacent extents should be merged'')
      else validateLoop (Suc i) (cur # rest))"
| "validateLoop i _ = Inr ()"

definition fsm_validate :: "fsm \<Rightarrow> status + unit" where
  "fsm_validate fsm = validateLoop 1 fsm"

section \<open>Extents as intervals of page numbers\<close>

abbreviation lo :: "extent \<Rightarrow> nat" where "lo e \<equiv> unat (start e)"
abbreviation hi :: "extent \<Rightarrow> nat" where "hi e \<equiv> unat (start e) + unat (len e)"

text \<open>An extent that is not empty and does not wrap around.\<close>

definition ext_ok :: "extent \<Rightarrow> bool" where
  "ext_ok e \<longleftrightarrow> 0 < unat (len e) \<and> hi e < 2 ^ 32"

definition pages_of :: "extent \<Rightarrow> nat set" where
  "pages_of e = {lo e ..< hi e}"

definition fsm_pages :: "fsm \<Rightarrow> nat set" where
  "fsm_pages fsm = (\<Union>e \<in> set fsm. pages_of e)"

text \<open>Sorted, disjoint and with a gap between neighbours.\<close>

definition fsm_wf :: "fsm \<Rightarrow> bool" where
  "fsm_wf fsm \<longleftrightarrow> list_all ext_ok fsm \<and> sorted_wrt (\<lambda>a b. hi a < lo b) fsm"

named_theorems ext_nat \<open>operations on extents in terms of page numbers\<close>

lemma extent_sel [simp]: "start (Extent s n) = s" "len (Extent s n) = n"
  by (simp_all add: Extent_def)

lemma ext_eq_iff: "e = Extent s n \<longleftrightarrow> start e = s \<and> len e = n"
  by (cases e) (auto simp: Extent_def)

lemma valid_ext_nat [ext_nat]: "ext_ok e \<Longrightarrow> Extent_isValid e"
  by (auto simp: ext_ok_def Extent_isValid_def kInvalidPageId_def word_less_nat_alt)

lemma unat_end: "ext_ok e \<Longrightarrow> unat (start e + len e) = hi e"
  by (simp add: ext_ok_def unat_u32_plus)

lemma unat_endPage: "ext_ok e \<Longrightarrow> unat (endPage e) = hi e"
  by (simp add: endPage_def unat_end)

lemma endPage_nat [ext_nat]:
  "ext_ok e \<Longrightarrow> endPage e \<le> p \<longleftrightarrow> hi e \<le> unat p"
  "ext_ok e \<Longrightarrow> p < endPage e \<longleftrightarrow> unat p < hi e"
  "ext_ok e \<Longrightarrow> endPage e = p \<longleftrightarrow> hi e = unat p"
  by (auto simp: endPage_def word_le_nat_alt word_less_nat_alt unat_end u32_eq_iff)

lemma contains_nat [ext_nat]:
  "ext_ok a \<Longrightarrow> ext_ok b \<Longrightarrow> containsExtent a b \<longleftrightarrow> lo a \<le> lo b \<and> hi b \<le> hi a"
  "ext_ok a \<Longrightarrow> containsPage p a \<longleftrightarrow> unat p \<in> pages_of a"
  by (auto simp: containsExtent_def containsPage_def word_le_nat_alt word_less_nat_alt unat_end
      valid_ext_nat pages_of_def)

lemma merge_nat [ext_nat]:
  "ext_ok a \<Longrightarrow> ext_ok b \<Longrightarrow> intersects a b \<longleftrightarrow> lo a < hi b \<and> lo b < hi a"
  "ext_ok a \<Longrightarrow> ext_ok b \<Longrightarrow> adjacentTo a b \<longleftrightarrow> hi a = lo b \<or> hi b = lo a"
  by (auto simp: intersects_def adjacentTo_def valid_ext_nat endPage_nat)

lemma canMerge_nat [ext_nat]:
  "ext_ok a \<Longrightarrow> ext_ok b \<Longrightarrow> canMerge a b \<longleftrightarrow> lo a \<le> hi b \<and> lo b \<le> hi a"
  unfolding canMerge_def merge_nat by (auto simp: ext_ok_def)

lemma merge_Some:
  assumes "ext_ok a" "ext_ok b"
  shows "\<exists>m. merge a b = Some m \<and> lo m = min (lo a) (lo b) \<and> hi m = max (hi a) (hi b) \<and> ext_ok m"
proof -
  let ?s = "min (start a) (start b)" and ?e = "max (start a + len a) (start b + len b)"
  have s: "unat ?s = min (lo a) (lo b)" by (simp add: min_def word_le_nat_alt)
  have e: "unat ?e = max (hi a) (hi b)"
    using assms by (simp add: max_def word_le_nat_alt unat_end)
  have lt: "unat ?s < unat ?e" "unat ?e < 2 ^ 32" using assms s e by (auto simp: ext_ok_def)
  then have "?s \<le> ?e" "\<not> ?e \<le> ?s" by (simp_all add: word_le_nat_alt)
  then have d: "unat (?e - ?s) = unat ?e - unat ?s" by (simp add: unat_u32_minus)
  have "merge a b = Some (Extent ?s (?e - ?s))"
    using assms \<open>\<not> ?e \<le> ?s\<close> by (simp add: merge_def valid_ext_nat Let_def)
  with lt d s e show ?thesis by (auto simp: ext_ok_def)
qed

lemma fsm_wf_Nil [simp]: "fsm_wf []"
  by (simp add: fsm_wf_def)

lemma fsm_wf_Cons [simp]:
  "fsm_wf (e # fsm) \<longleftrightarrow> ext_ok e \<and> (\<forall>x \<in> set fsm. hi e < lo x) \<and> fsm_wf fsm"
  by (auto simp: fsm_wf_def)

lemma fsm_wf_append:
  "fsm_wf (xs @ ys) \<longleftrightarrow> fsm_wf xs \<and> fsm_wf ys \<and> (\<forall>x \<in> set xs. \<forall>y \<in> set ys. hi x < lo y)"
  by (auto simp: fsm_wf_def sorted_wrt_append)

lemma fsm_pages_simps [simp]:
  "fsm_pages [] = {}" "fsm_pages (e # fsm) = pages_of e \<union> fsm_pages fsm"
  "fsm_pages (xs @ ys) = fsm_pages xs \<union> fsm_pages ys"
  by (auto simp: fsm_pages_def)

lemma fsm_wf_ok: "fsm_wf fsm \<Longrightarrow> e \<in> set fsm \<Longrightarrow> ext_ok e"
  by (auto simp: fsm_wf_def list_all_iff)

section \<open>Freeing\<close>

lemma absorb_spec:
  assumes "ext_ok l" "fsm_wf fsm" "\<forall>e \<in> set fsm. lo l \<le> lo e"
  shows "fsm_wf (absorb l fsm) \<and> fsm_pages (absorb l fsm) = pages_of l \<union> fsm_pages fsm \<and>
    (\<forall>e \<in> set (absorb l fsm). lo l \<le> lo e)"
  using assms
proof (induction fsm arbitrary: l)
  case Nil
  then show ?case by simp
next
  case (Cons e fsm)
  then have e: "ext_ok e" "lo l \<le> lo e" by auto
  show ?case
  proof (cases "lo e \<le> hi l")
    case True
    obtain m where m: "merge l e = Some m" "lo m = min (lo l) (lo e)" "hi m = max (hi l) (hi e)" "ext_ok m"
      using merge_Some [OF Cons.prems(1) e(1)] by blast
    have p: "pages_of m = pages_of l \<union> pages_of e"
      using m(2,3) e(2) True Cons.prems(1) e(1) by (auto simp: pages_of_def ext_ok_def)
    have c: "canMerge l e" using True e(2) Cons.prems(1) by (simp add: canMerge_nat e(1))
    have "\<forall>x \<in> set fsm. lo m \<le> lo x" using Cons.prems(2) m(2) e(2) by fastforce
    with Cons.IH [OF m(4)] Cons.prems(2) m(1,2) c p e(2) show ?thesis by (auto simp: min_def)
  next
    case False
    then have "\<not> canMerge l e" using Cons.prems(1) by (simp add: canMerge_nat e(1))
    with False Cons.prems e show ?thesis by fastforce
  qed
qed

lemma takeWhile_start: "\<forall>e \<in> set (takeWhile (\<lambda>e. start e < p) fsm). lo e < unat p"
  by (auto dest: set_takeWhileD simp: word_less_nat_alt)

lemma dropWhile_start:
  "fsm_wf fsm \<Longrightarrow> e \<in> set (dropWhile (\<lambda>e. start e < p) fsm) \<Longrightarrow> unat p \<le> lo e"
proof (induction fsm)
  case Nil
  then show ?case by simp
next
  case (Cons x fsm)
  show ?case
  proof (cases "start x < p")
    case True
    with Cons show ?thesis by simp
  next
    case False
    with Cons.prems show ?thesis by (auto simp: word_less_nat_alt dest!: bspec)
  qed
qed

lemma wf_takeWhile_dropWhile:
  assumes "fsm_wf fsm"
  shows "fsm_wf (takeWhile P fsm)" "fsm_wf (dropWhile P fsm)"
    "\<forall>x \<in> set (takeWhile P fsm). \<forall>y \<in> set (dropWhile P fsm). hi x < lo y"
    "fsm_pages fsm = fsm_pages (takeWhile P fsm) \<union> fsm_pages (dropWhile P fsm)"
proof -
  have f: "fsm = takeWhile P fsm @ dropWhile P fsm" by simp
  from assms have "fsm_wf (takeWhile P fsm @ dropWhile P fsm)" by simp
  then show "fsm_wf (takeWhile P fsm)" "fsm_wf (dropWhile P fsm)"
    "\<forall>x \<in> set (takeWhile P fsm). \<forall>y \<in> set (dropWhile P fsm). hi x < lo y"
    unfolding fsm_wf_append by auto
  show "fsm_pages fsm = fsm_pages (takeWhile P fsm) \<union> fsm_pages (dropWhile P fsm)"
    by (subst f) (simp only: fsm_pages_simps(3))
qed

lemma markFree_spec:
  assumes "fsm_wf fsm" "ext_ok r"
  shows "\<exists>fsm'. markFree r fsm = (Inr (), fsm') \<and> fsm_wf fsm' \<and> fsm_pages fsm' = fsm_pages fsm \<union> pages_of r"
proof -
  let ?pre = "takeWhile (\<lambda>e. start e < start r) fsm" and ?post = "dropWhile (\<lambda>e. start e < start r) fsm"
  note split = wf_takeWhile_dropWhile [OF assms(1), of "\<lambda>e. start e < start r"]
  have post: "\<forall>e \<in> set ?post. lo r \<le> lo e" using dropWhile_start [OF assms(1)] by blast
  show ?thesis
  proof (cases "?pre \<noteq> [] \<and> canMerge (last ?pre) r")
    case True
    obtain ini l where pre: "?pre = ini @ [l]" using True by (cases ?pre rule: rev_cases) auto
    have l: "ext_ok l" "lo l < lo r" "fsm_wf ini" "\<forall>x \<in> set ini. hi x < lo l"
      using split(1) takeWhile_start [of "start r" fsm] unfolding pre by (auto simp: fsm_wf_append)
    obtain m where m: "merge l r = Some m" "lo m = min (lo l) (lo r)" "hi m = max (hi l) (hi r)" "ext_ok m"
      using merge_Some [OF l(1) assms(2)] by blast
    have "lo r \<le> hi l" using True pre l(1) assms(2) by (simp add: canMerge_nat)
    then have p: "pages_of m = pages_of l \<union> pages_of r"
      using m(2,3) l(1,2) assms(2) by (auto simp: pages_of_def ext_ok_def)
    have "\<forall>e \<in> set ?post. lo m \<le> lo e" using post m(2) l(2) by fastforce
    note a = absorb_spec [OF m(4) split(2) this]
    have "markFree r fsm = (Inr (), ini @ absorb m ?post)"
      using True pre m(1) by (simp add: markFree_def valid_ext_nat [OF assms(2)] Let_def)
    moreover have "fsm_wf (ini @ absorb m ?post)"
      using a l m(2) by (fastforce simp: fsm_wf_append)
    moreover have "fsm_pages (ini @ absorb m ?post) = fsm_pages fsm \<union> pages_of r"
      using a p split(4) by (auto simp: pre)
    ultimately show ?thesis by blast
  next
    case False
    note a = absorb_spec [OF assms(2) split(2) post]
    have "hi x < lo r" if "x \<in> set ?pre" for x
    proof (cases ?pre rule: rev_cases)
      case Nil
      with that show ?thesis by simp
    next
      case (snoc ini l)
      have l: "ext_ok l" "lo l < lo r" "\<forall>x \<in> set ini. hi x < lo l"
        using split(1) takeWhile_start [of "start r" fsm] unfolding snoc by (auto simp: fsm_wf_append)
      with False snoc assms(2) have "hi l < lo r" by (auto simp: canMerge_nat ext_ok_def)
      with that l snoc show ?thesis by fastforce
    qed
    then have "fsm_wf (?pre @ absorb r ?post)" using a split(1) by (fastforce simp: fsm_wf_append)
    moreover have "markFree r fsm = (Inr (), ?pre @ absorb r ?post)"
      using False by (auto simp: markFree_def valid_ext_nat [OF assms(2)] Let_def)
    ultimately show ?thesis using a split(4) by auto
  qed
qed

section \<open>Allocating\<close>

text \<open>The branches of the loop in terms of page numbers.\<close>

lemma markLoop_beyond:
  "ext_ok r \<Longrightarrow> hi r \<le> lo cur \<Longrightarrow> markLoop r c (cur # rest) = (c, cur # rest)"
  by (simp add: markLoop.simps(2) endPage_nat)

lemma markLoop_covered:
  "ext_ok r \<Longrightarrow> ext_ok cur \<Longrightarrow> lo r \<le> lo cur \<Longrightarrow> hi cur \<le> hi r \<Longrightarrow>
     markLoop r c (cur # rest) = markLoop r True rest"
  by (subst markLoop.simps(2)) (auto simp: endPage_nat contains_nat ext_ok_def)

lemma markLoop_same_start:
  assumes "ext_ok r" "ext_ok cur" "lo cur = lo r" "hi r < hi cur"
  shows "markLoop r c (cur # rest) = (True, cur # rest)"
proof -
  from assms(3) have "start cur = start r" by (simp add: u32_eq_iff)
  with assms show ?thesis
    by (subst markLoop.simps(2)) (auto simp: endPage_nat contains_nat split_def ext_ok_def)
qed

lemma markLoop_inside:
  assumes "ext_ok r" "ext_ok cur" "lo cur < lo r" "hi r \<le> hi cur"
  shows "\<exists>left right. markLoop r c (cur # rest) = (True, left # right @ rest) \<and>
    ext_ok left \<and> lo left = lo cur \<and> hi left = lo r \<and>
    (if hi r = hi cur then right = []
     else \<exists>e. right = [e] \<and> ext_ok e \<and> lo e = hi r \<and> hi e = hi cur)"
proof -
  let ?l = "Extent (start cur) (start r - start cur)"
  let ?n = "start cur + len cur - start r - len r"
  have ul: "unat (start r - start cur) = lo r - lo cur"
    using assms(3) by (simp add: unat_u32_minus word_le_nat_alt)
  have e1: "unat (start cur + len cur - start r) = hi cur - lo r"
    using assms by (subst unat_u32_minus) (simp_all add: word_le_nat_alt unat_end)
  have un: "unat ?n = hi cur - hi r"
    using assms e1 by (subst unat_u32_minus) (simp_all add: word_le_nat_alt)
  have l: "ext_ok ?l" "Extent_isValid ?l"
    using assms ul valid_ext_nat [of ?l] by (auto simp: ext_ok_def)
  have s: "split (start r) cur = Some (?l, Extent (start r) (start cur + len cur - start r))"
    using assms by (auto simp: split_def valid_ext_nat word_le_nat_alt unat_end ext_ok_def)
  have eq: "markLoop r c (cur # rest) =
      (True, ?l # (if ?n > 0 then [Extent (endPage r) ?n] else []) @ rest)"
    using assms s l by (subst markLoop.simps(2)) (simp add: endPage_nat contains_nat ext_ok_def)
  have "unat (endPage r) = hi r" using assms(1) by (simp add: endPage_def unat_end)
  with eq l un ul assms show ?thesis
    by (auto simp: word_less_nat_alt ext_ok_def)
qed

lemma markLoop_tail:
  assumes "ext_ok r" "ext_ok cur" "lo cur < lo r" "lo r < hi cur" "hi cur < hi r"
  shows "\<exists>left. ext_ok left \<and> lo left = lo cur \<and> hi left = lo r \<and>
    markLoop r c (cur # rest) = (fst (markLoop r True rest), left # snd (markLoop r True rest))"
proof -
  have ul: "unat (start r - start cur) = lo r - lo cur"
    using assms(3) by (simp add: unat_u32_minus word_le_nat_alt)
  have "markLoop r c (cur # rest) = (fst (markLoop r True rest),
      cur\<lparr>len := start r - start cur\<rparr> # snd (markLoop r True rest))"
    using assms by (subst markLoop.simps(2))
      (simp add: contains_nat word_less_nat_alt unat_endPage case_prod_unfold)
  moreover have "ext_ok (cur\<lparr>len := start r - start cur\<rparr>)" using assms ul by (simp add: ext_ok_def)
  ultimately show ?thesis using ul assms(3) by fastforce
qed

lemma markLoop_head:
  assumes "ext_ok r" "ext_ok cur" "lo r < lo cur" "lo cur < hi r" "hi r < hi cur"
  shows "\<exists>right. ext_ok right \<and> lo right = hi r \<and> hi right = hi cur \<and>
    markLoop r c (cur # rest) = (True, right # rest)"
proof -
  let ?n = "len cur - (endPage r - start cur)"
  have er: "unat (endPage r) = hi r" using assms(1) by (simp add: endPage_def unat_end)
  have o: "unat (endPage r - start cur) = hi r - lo cur"
    using assms er by (subst unat_u32_minus) (simp_all add: word_le_nat_alt)
  have n: "unat ?n = hi cur - hi r"
    using assms o by (subst unat_u32_minus) (simp_all add: word_le_nat_alt)
  have "markLoop r c (cur # rest) = markLoop r True (Extent (endPage r) ?n # rest)"
    using assms n by (subst markLoop.simps(2))
      (simp add: contains_nat word_less_nat_alt word_le_nat_alt unat_endPage Let_def)
  also have "\<dots> = (True, Extent (endPage r) ?n # rest)"
    by (rule markLoop_beyond) (use assms er in simp_all)
  finally show ?thesis using n er assms by (auto simp: ext_ok_def)
qed

text \<open>
  The range is at the start of a strictly larger extent: then the split finds no left part and
  the loop returns without a change.
\<close>

definition at_start :: "extent \<Rightarrow> fsm \<Rightarrow> bool" where
  "at_start r fsm \<longleftrightarrow> (\<exists>e \<in> set fsm. lo e = lo r \<and> hi r < hi e)"

lemma pages_between:
  "fsm_wf fsm \<Longrightarrow> \<forall>e \<in> set fsm. n \<le> lo e \<Longrightarrow> x \<in> fsm_pages fsm \<Longrightarrow> n \<le> x"
  by (auto simp: fsm_pages_def pages_of_def dest!: bspec)

lemma markLoop_spec:
  assumes "fsm_wf fsm" "ext_ok r" "\<forall>e \<in> set fsm. lo r < hi e"
  shows "fsm_wf (snd (markLoop r c fsm)) \<and>
    fsm_pages (snd (markLoop r c fsm)) =
      (if at_start r fsm then fsm_pages fsm else fsm_pages fsm - pages_of r) \<and>
    (fst (markLoop r c fsm) \<longleftrightarrow> c \<or> fsm_pages fsm \<inter> pages_of r \<noteq> {}) \<and>
    (\<forall>e' \<in> set (snd (markLoop r c fsm)). \<exists>e \<in> set fsm. lo e \<le> lo e')"
  using assms
proof (induction fsm arbitrary: c)
  case Nil
  then show ?case by (simp add: at_start_def)
next
  case (Cons cur rest)
  then have cur: "ext_ok cur" "fsm_wf rest" "\<forall>x \<in> set rest. hi cur < lo x" "lo r < hi cur"
    and r: "ext_ok r" by auto
  have rest: "x \<in> fsm_pages rest \<Longrightarrow> hi cur < x" for x
    using pages_between [OF cur(2), of "Suc (hi cur)"] cur(3) by (simp add: Suc_le_eq)
  have IH: "fsm_wf (snd (markLoop r True rest))" "fst (markLoop r True rest)"
    "fsm_pages (snd (markLoop r True rest)) =
      (if at_start r rest then fsm_pages rest else fsm_pages rest - pages_of r)"
    "\<forall>e' \<in> set (snd (markLoop r True rest)). \<exists>e \<in> set rest. lo e \<le> lo e'"
    using Cons.IH [OF cur(2) r] Cons.prems(3) by auto
  have ns: "\<not> at_start r rest" using cur(3,4) by (fastforce simp: at_start_def)
  note defs = pages_of_def ext_ok_def at_start_def
  consider (beyond) "hi r \<le> lo cur" | (covered) "lo r \<le> lo cur" "hi cur \<le> hi r"
    | (same) "lo cur = lo r" "hi r < hi cur" | (inside) "lo cur < lo r" "hi r \<le> hi cur"
    | (tail) "lo cur < lo r" "hi cur < hi r" | (head) "lo r < lo cur" "lo cur < hi r" "hi r < hi cur"
    by linarith
  then show ?case
  proof cases
    case beyond
    have "fsm_pages (cur # rest) \<inter> pages_of r = {}"
      using beyond rest by (fastforce simp: pages_of_def)
    moreover have "\<not> at_start r (cur # rest)" using ns beyond r by (auto simp: defs)
    ultimately show ?thesis
      using Cons.prems(1) by (auto simp: markLoop_beyond [OF r beyond])
  next
    case covered
    have "pages_of cur \<subseteq> pages_of r" "pages_of cur \<noteq> {}" using covered cur(1) by (auto simp: defs)
    moreover have "\<not> at_start r (cur # rest)" using ns covered by (auto simp: at_start_def)
    ultimately show ?thesis
      using IH ns by (auto simp: markLoop_covered [OF r cur(1) covered])
  next
    case same
    have "pages_of cur \<inter> pages_of r \<noteq> {}" using same r by (auto simp: defs)
    with Cons.prems(1) same show ?thesis
      by (auto simp: markLoop_same_start [OF r cur(1) same] at_start_def)
  next
    case inside
    obtain left right where lr: "markLoop r c (cur # rest) = (True, left # right @ rest)"
      "ext_ok left" "lo left = lo cur" "hi left = lo r"
      "if hi r = hi cur then right = [] else \<exists>e. right = [e] \<and> ext_ok e \<and> lo e = hi r \<and> hi e = hi cur"
      using markLoop_inside [OF r cur(1) inside] by blast
    have "fsm_wf (left # right @ rest)"
      using lr(2-5) cur inside r by (fastforce simp: fsm_wf_append ext_ok_def split: if_splits)
    moreover have "\<not> at_start r (cur # rest)" using ns inside by (auto simp: at_start_def)
    moreover have "pages_of left \<union> fsm_pages right = pages_of cur - pages_of r"
      using lr(2-5) inside r by (auto simp: pages_of_def ext_ok_def split: if_splits)
    moreover have "fsm_pages rest \<inter> pages_of r = {}"
      using rest inside by (fastforce simp: pages_of_def)
    moreover have "pages_of cur \<inter> pages_of r \<noteq> {}" using inside r by (auto simp: defs)
    moreover have "\<forall>e' \<in> set (left # right). lo cur \<le> lo e'"
      using lr(3,5) inside by (auto split: if_splits)
    ultimately show ?thesis using lr(1) by (auto 0 3)
  next
    case tail
    obtain left where l: "ext_ok left" "lo left = lo cur" "hi left = lo r"
      "markLoop r c (cur # rest) = (fst (markLoop r True rest), left # snd (markLoop r True rest))"
      using markLoop_tail [OF r cur(1) tail(1) cur(4) tail(2)] by blast
    have "\<forall>x \<in> set (snd (markLoop r True rest)). lo r < lo x"
      using IH(4) cur(3,4) by fastforce
    moreover have "pages_of left = pages_of cur - pages_of r" "pages_of cur \<inter> pages_of r \<noteq> {}"
      using l(2,3) tail cur(4) by (auto simp: pages_of_def)
    moreover have "\<not> at_start r (cur # rest)" using ns tail by (auto simp: at_start_def)
    ultimately show ?thesis using l IH ns by (auto 0 3)
  next
    case head
    obtain right where h: "ext_ok right" "lo right = hi r" "hi right = hi cur"
      "markLoop r c (cur # rest) = (True, right # rest)"
      using markLoop_head [OF r cur(1) head] by blast
    have "pages_of right = pages_of cur - pages_of r" "pages_of cur \<inter> pages_of r \<noteq> {}"
      using h(2,3) head by (auto simp: pages_of_def)
    moreover have "fsm_pages rest \<inter> pages_of r = {}"
      using rest head by (fastforce simp: pages_of_def)
    moreover have "\<not> at_start r (cur # rest)" using ns head by (auto simp: at_start_def)
    ultimately show ?thesis using h cur head by (auto 0 3)
  qed
qed

lemma dropWhile_end:
  "fsm_wf fsm \<Longrightarrow> e \<in> set (dropWhile (\<lambda>e. endPage e \<le> p) fsm) \<Longrightarrow> unat p < hi e"
proof (induction fsm)
  case Nil
  then show ?case by simp
next
  case (Cons x fsm)
  show ?case
  proof (cases "endPage x \<le> p")
    case True
    with Cons show ?thesis by simp
  next
    case False
    with Cons.prems have "unat p < hi x" by (simp add: endPage_nat)
    with False Cons.prems show ?thesis by (auto dest!: bspec)
  qed
qed

lemma takeWhile_end:
  assumes "fsm_wf fsm" "ext_ok r"
  shows "fsm_pages (takeWhile (\<lambda>e. endPage e \<le> start r) fsm) \<inter> pages_of r = {}"
    and "\<not> at_start r (takeWhile (\<lambda>e. endPage e \<le> start r) fsm)"
proof -
  have h: "hi e \<le> lo r \<and> ext_ok e" if "e \<in> set (takeWhile (\<lambda>e. endPage e \<le> start r) fsm)" for e
    using set_takeWhileD [OF that] fsm_wf_ok [OF assms(1)] by (auto simp: endPage_nat)
  show "fsm_pages (takeWhile (\<lambda>e. endPage e \<le> start r) fsm) \<inter> pages_of r = {}"
    using h by (fastforce simp: fsm_pages_def pages_of_def)
  show "\<not> at_start r (takeWhile (\<lambda>e. endPage e \<le> start r) fsm)"
    using h by (fastforce simp: at_start_def ext_ok_def)
qed

lemma at_start_append: "at_start r (xs @ ys) \<longleftrightarrow> at_start r xs \<or> at_start r ys"
  by (auto simp: at_start_def)

lemma markAllocated_spec:
  assumes "fsm_wf fsm" "ext_ok r"
  shows "fsm_wf (snd (markAllocated r fsm)) \<and>
    fsm_pages (snd (markAllocated r fsm)) =
      (if at_start r fsm then fsm_pages fsm else fsm_pages fsm - pages_of r) \<and>
    (fst (markAllocated r fsm) = Inr () \<longleftrightarrow> fsm_pages fsm \<inter> pages_of r \<noteq> {})"
proof (cases "fsm = []")
  case True
  then show ?thesis by (simp add: markAllocated_def valid_ext_nat [OF assms(2)] at_start_def)
next
  case False
  define pre post where "pre = takeWhile (\<lambda>e. endPage e \<le> start r) fsm"
    and "post = dropWhile (\<lambda>e. endPage e \<le> start r) fsm"
  have fsm: "fsm = pre @ post" by (simp add: pre_def post_def)
  note sp = wf_takeWhile_dropWhile [OF assms(1), of "\<lambda>e. endPage e \<le> start r", folded pre_def post_def]
  note te = takeWhile_end [OF assms, folded pre_def]
  have "\<forall>e \<in> set post. lo r < hi e" using dropWhile_end [OF assms(1)] by (simp add: post_def)
  note ml = markLoop_spec [OF sp(2) assms(2) this, of False]
  obtain b rest where m: "markLoop r False post = (b, rest)" by (cases "markLoop r False post")
  have res: "snd (markAllocated r fsm) = pre @ rest" "fst (markAllocated r fsm) = Inr () \<longleftrightarrow> b"
    using False m by (auto simp: markAllocated_def valid_ext_nat [OF assms(2)] pre_def post_def Let_def)
  have "fsm_wf (pre @ rest)" unfolding fsm_wf_append
    using sp(1,3) ml m by fastforce
  moreover have "fsm_pages (pre @ rest) =
      (if at_start r fsm then fsm_pages fsm else fsm_pages fsm - pages_of r)"
    using ml m te sp(4) by (auto simp: fsm at_start_append)
  moreover have "b \<longleftrightarrow> fsm_pages fsm \<inter> pages_of r \<noteq> {}"
    using ml m te(1) by (auto simp: fsm)
  ultimately show ?thesis using res by simp
qed

lemma markAllocated_Inr:
  "fst (markAllocated r fsm) = Inr u \<Longrightarrow> markAllocated r fsm = (Inr (), snd (markAllocated r fsm))"
  by (cases "markAllocated r fsm") simp

section \<open>Validation, membership and counting\<close>

lemma fsm_wf_Cons2:
  "fsm_wf (a # b # fsm) \<longleftrightarrow> ext_ok a \<and> hi a < lo b \<and> fsm_wf (b # fsm)"
  by (fastforce simp: ext_ok_def)

lemma validateLoop_wf:
  "list_all ext_ok fsm \<Longrightarrow> validateLoop i fsm = Inr () \<longleftrightarrow> fsm_wf fsm"
proof (induction i fsm rule: validateLoop.induct)
  case (1 i prev cur rest)
  then have ok: "ext_ok prev" "ext_ok cur" and ok2: "list_all ext_ok (cur # rest)" by auto
  have p: "0 < unat (len prev)" "0 < unat (len cur)" using ok by (auto simp: ext_ok_def)
  show ?case
  proof (cases "hi prev < lo cur")
    case True
    then have "\<not> start prev \<ge> start cur" "\<not> intersects prev cur" "\<not> adjacentTo prev cur"
      using p by (auto simp: merge_nat ok word_le_nat_alt)
    with "1.IH" ok ok2 True show ?thesis
      by (simp add: valid_ext_nat fsm_wf_Cons2 del: fsm_wf_Cons)
  next
    case False
    then have "start prev \<ge> start cur \<or> intersects prev cur \<or> adjacentTo prev cur"
      using p by (auto simp: merge_nat ok word_le_nat_alt)
    with ok False show ?thesis
      by (auto simp: valid_ext_nat fsm_wf_Cons2 simp del: fsm_wf_Cons)
  qed
qed auto

lemma fsm_contains_iff:
  assumes "fsm_wf fsm"
  shows "fsm_contains p fsm \<longleftrightarrow> unat p \<in> fsm_pages fsm"
proof -
  define pre post where "pre = takeWhile (\<lambda>e. start e < p) fsm"
    and "post = dropWhile (\<lambda>e. start e < p) fsm"
  note sp = wf_takeWhile_dropWhile [OF assms, of "\<lambda>e. start e < p", folded pre_def post_def]
  have post: "unat p \<in> fsm_pages post \<longleftrightarrow> post \<noteq> [] \<and> start (hd post) = p"
  proof (cases post)
    case (Cons e rest)
    have "unat p \<le> lo e" using dropWhile_start [OF assms, of e p] Cons by (simp add: post_def)
    moreover have "\<forall>x \<in> set rest. unat p < lo x" "0 < unat (len e)"
      using sp(2) Cons calculation by (auto simp: ext_ok_def dest!: bspec)
    ultimately show ?thesis
      using Cons pages_between [of rest "Suc (unat p)" "unat p"] sp(2)
      by (auto simp: pages_of_def u32_eq_iff Suc_le_eq)
  qed simp
  have pre: "unat p \<in> fsm_pages pre \<longleftrightarrow> pre \<noteq> [] \<and> containsPage p (last pre)"
  proof (cases pre rule: rev_cases)
    case (snoc ini l)
    have l: "ext_ok l" "lo l < unat p" "\<forall>x \<in> set ini. hi x < lo l"
      using sp(1) snoc takeWhile_start [of p fsm] by (auto simp: fsm_wf_append pre_def)
    then have "unat p \<notin> fsm_pages ini" by (fastforce simp: fsm_pages_def pages_of_def)
    with l snoc show ?thesis by (simp add: contains_nat)
  qed simp
  show ?thesis using post pre sp(4) by (auto simp: fsm_contains_def pre_def post_def Let_def)
qed

lemma foldl_len: "foldl (\<lambda>t e. t + len e) a fsm = a + of_nat (\<Sum>e\<leftarrow>fsm. unat (len e))"
  by (induction fsm arbitrary: a) (simp_all add: add.assoc)

lemma card_fsm_pages: "fsm_wf fsm \<Longrightarrow> card (fsm_pages fsm) = (\<Sum>e\<leftarrow>fsm. unat (len e))"
proof (induction fsm)
  case (Cons e fsm)
  then have "pages_of e \<inter> fsm_pages fsm = {}"
    by (fastforce simp: fsm_pages_def pages_of_def)
  moreover have "finite (fsm_pages fsm)" "finite (pages_of e)" by (simp_all add: fsm_pages_def pages_of_def)
  moreover have "card (pages_of e) = unat (len e)" by (simp add: pages_of_def)
  ultimately show ?case using Cons by (simp add: card_Un_disjoint)
qed simp

lemma fsm_pages_bound: "fsm_wf fsm \<Longrightarrow> fsm_pages fsm \<subseteq> {0..<2 ^ 32 - 1}"
  by (fastforce simp: fsm_pages_def pages_of_def ext_ok_def dest: fsm_wf_ok)

lemma unat_countFree:
  assumes "fsm_wf fsm"
  shows "unat (countFree fsm) = card (fsm_pages fsm)"
proof -
  have "card (fsm_pages fsm) \<le> card {0..<2 ^ 32 - 1 :: nat}"
    by (rule card_mono) (use fsm_pages_bound [OF assms] in auto)
  then have "card (fsm_pages fsm) < 2 ^ 32" by simp
  then show ?thesis
    by (simp add: countFree_def foldl_len card_fsm_pages [OF assms, symmetric] unat_of_nat)
qed

section \<open>Searching\<close>

lemma noExtent_invalid [simp]: "\<not> Extent_isValid noExtent"
  by (simp add: noExtent_def Extent_isValid_def)

text \<open>The extent returned is \<open>n\<close> pages long and free.\<close>

definition free_range :: "u32 \<Rightarrow> fsm \<Rightarrow> extent \<Rightarrow> bool" where
  "free_range n fsm e \<longleftrightarrow> ext_ok e \<and> len e = n \<and> pages_of e \<subseteq> fsm_pages fsm"

lemma free_range_prefix:
  assumes "fsm_wf fsm" "e \<in> set fsm" "n \<le> len e" "0 < n" "d \<le> len e - n"
  shows "free_range n fsm (Extent (start e + d) n)"
proof -
  have ok: "ext_ok e" using fsm_wf_ok assms(1,2) by blast
  have n: "unat n \<le> unat (len e)" "0 < unat n" using assms(3,4) by (auto simp: word_le_nat_alt word_less_nat_alt)
  have "unat (len e - n) = unat (len e) - unat n" using assms(3) by (simp add: unat_u32_minus)
  with assms(5) have d: "unat d + unat n \<le> unat (len e)" using n by (simp add: word_le_nat_alt)
  have "unat (start e + d) = unat (start e) + unat d"
    using ok d n by (simp add: unat_u32_plus ext_ok_def)
  with d n ok have "ext_ok (Extent (start e + d) n)" "pages_of (Extent (start e + d) n) \<subseteq> pages_of e"
    by (auto simp: ext_ok_def pages_of_def)
  with assms(2) show ?thesis by (auto simp: free_range_def fsm_pages_def)
qed

lemma find_set: "find P xs = Some x \<Longrightarrow> x \<in> set xs \<and> P x"
  by (auto simp: find_Some_iff)

lemma findFreeRange_sound:
  assumes "fsm_wf fsm" "Extent_isValid (findFreeRange n b fsm)"
  shows "free_range n fsm (findFreeRange n b fsm)"
proof -
  have n: "0 < n" using assms(2) by (auto simp: findFreeRange_def word_neq_0_conv split: if_splits)
  show ?thesis
  proof (cases b)
    case True
    with assms obtain e where "find (\<lambda>e. n \<le> len e) fsm = Some e" "findFreeRange n b fsm = Extent (start e) n"
      by (auto simp: findFreeRange_def split: option.splits if_splits)
    with free_range_prefix [OF assms(1) _ _ n, of e 0] find_set [of _ fsm e] show ?thesis by auto
  next
    case False
    with assms obtain e where "find (\<lambda>e. n \<le> len e) (rev fsm) = Some e"
      "findFreeRange n b fsm = Extent (start e + (len e - n)) n"
      by (auto simp: findFreeRange_def split: option.splits if_splits)
    with free_range_prefix [OF assms(1) _ _ n, of e "len e - n"] find_set [of _ "rev fsm" e]
    show ?thesis by auto
  qed
qed

lemma Extent_start_valid:
  "fsm_wf fsm \<Longrightarrow> e \<in> set fsm \<Longrightarrow> n \<le> len e \<Longrightarrow> 0 < n \<Longrightarrow> Extent_isValid (Extent (start e) n)"
  using free_range_prefix [of fsm e n 0] by (auto simp: free_range_def valid_ext_nat)

lemma findFreeRange_complete:
  assumes "fsm_wf fsm" "e \<in> set fsm" "n \<le> len e" "0 < n"
  shows "Extent_isValid (findFreeRange n b fsm)"
proof -
  have "find (\<lambda>e. n \<le> len e) fsm \<noteq> None" "find (\<lambda>e. n \<le> len e) (rev fsm) \<noteq> None"
    using assms(2,3) by (auto simp: find_None_iff)
  then obtain x y where "find (\<lambda>e. n \<le> len e) fsm = Some x" "find (\<lambda>e. n \<le> len e) (rev fsm) = Some y"
    by blast
  moreover from this have "x \<in> set fsm" "n \<le> len x" "y \<in> set fsm" "n \<le> len y"
    using find_set [of _ fsm x] find_set [of _ "rev fsm" y] by auto
  moreover have "n \<noteq> 0" "fsm \<noteq> []" using assms by auto
  ultimately show ?thesis
    using free_range_prefix [OF assms(1) _ _ assms(4), of x 0]
      free_range_prefix [OF assms(1) _ _ assms(4), of y "len y - n"]
    by (auto simp: findFreeRange_def free_range_def valid_ext_nat)
qed

lemma findExactRange_sound:
  assumes "fsm_wf fsm" "Extent_isValid (findExactRange n fsm)"
  shows "free_range n fsm (findExactRange n fsm)"
proof -
  obtain e where e: "find (\<lambda>e. len e = n) fsm = Some e" "findExactRange n fsm = e"
    using assms(2) by (auto simp: findExactRange_def split: option.splits)
  with find_set [OF e(1)] fsm_wf_ok [OF assms(1)] show ?thesis
    by (auto simp: free_range_def fsm_pages_def)
qed

lemma bestLoop_spec:
  "bestLoop n best fsm = None \<longleftrightarrow> best = None \<and> (\<forall>e \<in> set fsm. \<not> n \<le> len e)"
  "bestLoop n best fsm = Some b \<Longrightarrow> (best = Some b \<or> b \<in> set fsm \<and> n \<le> len b) \<and>
     (\<forall>e \<in> set fsm. n \<le> len e \<longrightarrow> len b \<le> len e) \<and> (\<forall>c. best = Some c \<longrightarrow> len b \<le> len c)"
proof (induction n best fsm arbitrary: b rule: bestLoop.induct)
  case (2 n best e rest)
  {
    case 1
    show ?case using "2.IH"(1) by (auto split: option.splits)
  next
    case 2
    from "2.IH"(2) [OF 2 [unfolded bestLoop.simps]] show ?case
      by (auto split: if_splits option.splits)
  }
qed auto

lemma findBestRange_spec:
  assumes "fsm_wf fsm" "0 < n"
  shows "if \<exists>e \<in> set fsm. n \<le> len e
    then \<exists>b \<in> set fsm. findBestRange n fsm = Extent (start b) n \<and> n \<le> len b \<and>
      (\<forall>e \<in> set fsm. n \<le> len e \<longrightarrow> len b \<le> len e)
    else findBestRange n fsm = noExtent"
proof (cases "bestLoop n None fsm")
  case None
  with bestLoop_spec(1) [of n None fsm] show ?thesis by (simp add: findBestRange_def)
next
  case (Some b)
  with bestLoop_spec(2) [OF Some] show ?thesis by (auto simp: findBestRange_def)
qed

lemma findBestRange_sound:
  assumes "fsm_wf fsm" "0 < n" "Extent_isValid (findBestRange n fsm)"
  shows "free_range n fsm (findBestRange n fsm)"
  using findBestRange_spec [OF assms(1,2)] assms(3) free_range_prefix [OF assms(1) _ _ assms(2), of _ 0]
  by (auto split: if_splits)

section \<open>The contract of the free-space map\<close>

text \<open>
  C15. Freeing is exact: from a well-formed map, freeing an extent succeeds, the map stays
  sorted, disjoint and merged (its own \<^verbatim>\<open>validate\<close> accepts it), and the free pages are the ones
  before together with the pages of the extent, whatever it overlaps or touches.
\<close>

theorem free_exact_pages:
  assumes "fsm_wf fsm" "ext_ok r"
  shows "\<exists>fsm'. markFree r fsm = (Inr (), fsm') \<and> fsm_wf fsm' \<and> fsm_validate fsm' = Inr () \<and>
    fsm_pages fsm' = fsm_pages fsm \<union> pages_of r"
proof -
  obtain fsm' where f: "markFree r fsm = (Inr (), fsm')" "fsm_wf fsm'" "fsm_pages fsm' = fsm_pages fsm \<union> pages_of r"
    using markFree_spec [OF assms] by blast
  moreover have "fsm_validate fsm' = Inr ()"
    using f(2) validateLoop_wf [of fsm'] by (simp add: fsm_validate_def) (simp add: fsm_wf_def)
  ultimately show ?thesis by blast
qed

theorem free_exact_pages_witness:
  "\<exists>fsm'. markFree (Extent 12 4) [Extent 8 4, Extent 20 4] = (Inr (), fsm') \<and>
    fsm_pages fsm' = fsm_pages [Extent 8 4, Extent 20 4] \<union> {12..<16}"
proof -
  have "fsm_wf [Extent 8 4, Extent 20 4]" "ext_ok (Extent 12 4)" by (simp_all add: ext_ok_def)
  from free_exact_pages [OF this] show ?thesis by (auto simp: pages_of_def)
qed

text \<open>
  C29. Allocating, on every branch: from a well-formed map, \<^verbatim>\<open>markAllocated\<close> keeps the map
  well-formed and succeeds exactly if the range overlaps a free page. It removes exactly the
  pages of the range, except in one case: when the range begins where a strictly larger free
  extent begins, it reports success and removes nothing.
\<close>

theorem allocate_effect_on_pages:
  assumes "fsm_wf fsm" "ext_ok r"
  shows "fsm_wf (snd (markAllocated r fsm)) \<and>
    (fst (markAllocated r fsm) = Inr () \<longleftrightarrow> fsm_pages fsm \<inter> pages_of r \<noteq> {}) \<and>
    fsm_pages (snd (markAllocated r fsm)) =
      (if \<exists>e \<in> set fsm. start e = start r \<and> len r < len e
       then fsm_pages fsm else fsm_pages fsm - pages_of r)"
proof -
  have "at_start r fsm \<longleftrightarrow> (\<exists>e \<in> set fsm. start e = start r \<and> len r < len e)"
    by (auto simp: at_start_def u32_eq_iff word_less_nat_alt)
  with markAllocated_spec [OF assms] show ?thesis by simp
qed

theorem allocate_effect_on_pages_witness:
  "fst (markAllocated (Extent 10 2) [Extent 8 10]) = Inr () \<and>
   fsm_pages (snd (markAllocated (Extent 10 2) [Extent 8 10])) = {8..<18} - {10..<12} \<and>
   fsm_pages (snd (markAllocated (Extent 8 2) [Extent 8 10])) = {8..<18}"
proof -
  have w: "fsm_wf [Extent 8 10]" "ext_ok (Extent 10 2)" "ext_ok (Extent 8 2)"
    by (simp_all add: ext_ok_def)
  from allocate_effect_on_pages [OF w(1,2)] allocate_effect_on_pages [OF w(1,3)] show ?thesis
    by (auto simp: pages_of_def)
qed

text \<open>
  C37. The queries agree with the set of free pages: on a well-formed map, \<^verbatim>\<open>contains\<close> is
  membership and \<^verbatim>\<open>countFree\<close> is the number of free pages; and on extents that do not wrap,
  \<^verbatim>\<open>validate\<close> accepts exactly the well-formed maps.
\<close>

theorem queries_agree:
  "(fsm_wf fsm \<longrightarrow> (fsm_contains p fsm \<longleftrightarrow> unat p \<in> fsm_pages fsm) \<and>
      unat (countFree fsm) = card (fsm_pages fsm)) \<and>
   (list_all ext_ok fsm \<longrightarrow> (fsm_validate fsm = Inr () \<longleftrightarrow> fsm_wf fsm))"
  by (simp add: fsm_contains_iff unat_countFree fsm_validate_def validateLoop_wf)

theorem queries_agree_witness:
  "fsm_contains 21 [Extent 8 4, Extent 20 4] \<and> card (fsm_pages [Extent 8 4, Extent 20 4]) = 8 \<and>
   fsm_validate [Extent 8 4, Extent 20 4] = Inr () \<and> fsm_validate [Extent 8 4, Extent 12 4] \<noteq> Inr ()"
proof -
  have w: "fsm_wf [Extent 8 4, Extent 20 4]" "\<not> fsm_wf [Extent 8 4, Extent 12 4]"
    "list_all ext_ok [Extent 8 4, Extent 20 4]" "list_all ext_ok [Extent 8 4, Extent 12 4]"
    by (simp_all add: ext_ok_def)
  have "unat (21 :: u32) \<in> fsm_pages [Extent 8 4, Extent 20 4]" "unat (countFree [Extent 8 4, Extent 20 4]) = 8"
    by (simp_all add: pages_of_def countFree_def)
  then show ?thesis
    using queries_agree [of "[Extent 8 4, Extent 20 4]" 21] queries_agree [of "[Extent 8 4, Extent 12 4]" 0] w
    by simp
qed

end
