(* ===== verification/Space.thy ===== *)
theory Space
  imports FreeSpace Complex_Main
begin

text \<open>
  The space layer above the free-space map: allocation policies (AllocationPolicy.cpp), the
  extent allocator (ExtentAllocator.cpp), the statistics (SpaceStatistics.cpp), the
  fragmentation report (FragmentationAnalyzer.cpp) and the space manager (SpaceManager.cpp).
  Floating-point results are computed exactly, without rounding.
\<close>

section \<open>Policies\<close>

record hints =
  preferContiguous :: bool
  preferBeginning :: bool
  preferEnd :: bool
  minExtentLength :: u32
  exactFit :: bool

definition AllocationHints :: hints where
  "AllocationHints = \<lparr>preferContiguous = False, preferBeginning = False, preferEnd = False,
     minExtentLength = 1, exactFit = False\<rparr>"

definition FirstFit_allocate :: "fsm \<Rightarrow> u32 \<Rightarrow> hints \<Rightarrow> extent" where
  "FirstFit_allocate fsm n h =
     (if exactFit h then findExactRange n fsm
      else if preferContiguous h \<or> n > 1 then findFreeRange n (\<not> preferEnd h) fsm
      else findFreeRange n True fsm)"

definition BestFit_allocate :: "fsm \<Rightarrow> u32 \<Rightarrow> hints \<Rightarrow> extent" where
  "BestFit_allocate fsm n h =
     (if exactFit h then findExactRange n fsm
      else if preferContiguous h \<or> n > 1
      then let best = findBestRange n fsm
           in if Extent_isValid best then best else findFreeRange n True fsm
      else findFreeRange n True fsm)"

text \<open>
  \<^verbatim>\<open>SequentialPolicy\<close> keeps a cursor: the result and the cursor after the call. The check of
  the extent at the iterator is the first step of the scan that follows it.
\<close>

definition Sequential_allocate :: "PageId \<Rightarrow> fsm \<Rightarrow> u32 \<Rightarrow> hints \<Rightarrow> extent \<times> PageId" where
  "Sequential_allocate cursor fsm n h =
     (if fsm = [] then (noExtent, cursor)
      else let found = dropWhile (\<lambda>e. start e < cursor) fsm;
               it = (if found = [] then fsm else found);
               before = (if found = [] then [] else takeWhile (\<lambda>e. start e < cursor) fsm)
           in case find (\<lambda>e. len e \<ge> n) it of
                Some e \<Rightarrow> (Extent (start e) n, start e)
              | None \<Rightarrow>
                  (case find (\<lambda>e. len e \<ge> n) before of
                     Some e \<Rightarrow> (Extent (start e) n, start e)
                   | None \<Rightarrow> (noExtent, cursor)))"

datatype policy = FirstFitPolicy | BestFitPolicy | SequentialPolicy PageId

definition policy_allocate :: "policy \<Rightarrow> fsm \<Rightarrow> u32 \<Rightarrow> hints \<Rightarrow> extent \<times> policy" where
  "policy_allocate p fsm n h =
     (case p of
        FirstFitPolicy \<Rightarrow> (FirstFit_allocate fsm n h, p)
      | BestFitPolicy \<Rightarrow> (BestFit_allocate fsm n h, p)
      | SequentialPolicy cursor \<Rightarrow>
          (case Sequential_allocate cursor fsm n h of (e, cursor') \<Rightarrow> (e, SequentialPolicy cursor')))"

definition newSequentialPolicy :: policy where
  "newSequentialPolicy = SequentialPolicy kReservedPages"

section \<open>The extent allocator\<close>

record extent_allocator =
  ea_fsm :: fsm
  ea_policy :: policy

definition ExtentAllocator_new :: "policy \<Rightarrow> extent_allocator" where
  "ExtentAllocator_new p = \<lparr>ea_fsm = [], ea_policy = p\<rparr>"

definition ExtentAllocator_allocate :: "u32 \<Rightarrow> hints \<Rightarrow> extent_allocator \<Rightarrow> extent \<times> extent_allocator" where
  "ExtentAllocator_allocate n h a =
     (if n = 0 then (noExtent, a)
      else case policy_allocate (ea_policy a) (ea_fsm a) n h of (e, p) \<Rightarrow>
        let a1 = a\<lparr>ea_policy := p\<rparr>
        in if Extent_isValid e
           then (case markAllocated e (ea_fsm a1) of
                   (Inl _, fsm) \<Rightarrow> (noExtent, a1\<lparr>ea_fsm := fsm\<rparr>)
                 | (Inr _, fsm) \<Rightarrow> (e, a1\<lparr>ea_fsm := fsm\<rparr>))
           else (e, a1))"

definition ExtentAllocator_release :: "extent \<Rightarrow> (extent_allocator, unit) op" where
  "ExtentAllocator_release e a =
     (if \<not> Extent_isValid e
      then (Inl (invalidArgument ''ExtentAllocator::release: invalid extent''), a)
      else case markFree e (ea_fsm a) of (res, fsm) \<Rightarrow> (res, a\<lparr>ea_fsm := fsm\<rparr>))"

definition ExtentAllocator_setPolicy :: "policy \<Rightarrow> extent_allocator \<Rightarrow> extent_allocator" where
  "ExtentAllocator_setPolicy p a = a\<lparr>ea_policy := p\<rparr>"

definition ExtentAllocator_clear :: "extent_allocator \<Rightarrow> extent_allocator" where
  "ExtentAllocator_clear a = a\<lparr>ea_fsm := fsm_clear (ea_fsm a)\<rparr>"

section \<open>Statistics\<close>

record space_stats =
  allocationsRequested :: u64
  allocationsSucceeded :: u64
  allocationsFailed :: u64
  freesRequested :: u64
  freesSucceeded :: u64
  freesFailed :: u64
  currentAllocatedPages :: u32
  currentFreePages :: u32
  extentCount :: u32
  fragmentationPercent :: real

definition SpaceStats :: space_stats where
  "SpaceStats = \<lparr>allocationsRequested = 0, allocationsSucceeded = 0, allocationsFailed = 0,
     freesRequested = 0, freesSucceeded = 0, freesFailed = 0, currentAllocatedPages = 0,
     currentFreePages = 0, extentCount = 0, fragmentationPercent = 0\<rparr>"

definition recordAllocation :: "bool \<Rightarrow> space_stats \<Rightarrow> space_stats" where
  "recordAllocation succeeded s =
     (let s1 = s\<lparr>allocationsRequested := allocationsRequested s + 1\<rparr>
      in if succeeded
         then s1\<lparr>allocationsSucceeded := allocationsSucceeded s + 1,
                 currentAllocatedPages := currentAllocatedPages s + 1\<rparr>
         else s1\<lparr>allocationsFailed := allocationsFailed s + 1\<rparr>)"

definition recordFree :: "bool \<Rightarrow> space_stats \<Rightarrow> space_stats" where
  "recordFree succeeded s =
     (let s1 = s\<lparr>freesRequested := freesRequested s + 1\<rparr>
      in if succeeded
         then s1\<lparr>freesSucceeded := freesSucceeded s + 1,
                 currentAllocatedPages :=
                   (if currentAllocatedPages s > 0 then currentAllocatedPages s - 1
                    else currentAllocatedPages s)\<rparr>
         else s1\<lparr>freesFailed := freesFailed s + 1\<rparr>)"

definition update_stats :: "fsm \<Rightarrow> u32 \<Rightarrow> space_stats \<Rightarrow> space_stats" where
  "update_stats fsm totalPages s =
     (let free = countFree fsm;
          largest = foldl (\<lambda>m e. if len e > m then len e else m)
                      (if fsm = [] then 0 else len (hd fsm)) fsm
      in s\<lparr>currentFreePages := free, currentAllocatedPages := totalPages - free,
           extentCount := countFreeExtents fsm,
           fragmentationPercent :=
             (if free > 0 then 100 * (1 - real (unat largest) / real (unat free)) else 0)\<rparr>)"

section \<open>Fragmentation\<close>

record fragmentation_report =
  fr_fragmentationPercent :: real
  fr_largestFreeExtent :: u32
  fr_smallestFreeExtent :: u32
  fr_averageFreeExtentSize :: real
  fr_extentCount :: u32
  fr_totalFreePages :: u32
  fr_allocationDensity :: real
  fr_maxContiguousAllocation :: u32
  fr_recommendation :: string

definition largestFreeExtent :: "fsm \<Rightarrow> u32" where
  "largestFreeExtent fsm = foldl (\<lambda>m e. if len e > m then len e else m) 0 fsm"

abbreviation totalFreePages :: "fsm \<Rightarrow> u32" where
  "totalFreePages fsm \<equiv> countFree fsm"

definition calculateFragmentation :: "fsm \<Rightarrow> u32 \<Rightarrow> real" where
  "calculateFragmentation fsm totalPages =
     (let freePages = countFree fsm
      in if freePages = 0 then 0
         else if countFreeExtents fsm \<le> 1 then 0
         else 100 * (1 - real (unat (largestFreeExtent fsm)) / real (unat freePages)))"

abbreviation averageFreeExtentSize :: "fsm \<Rightarrow> real" where
  "averageFreeExtentSize fsm \<equiv>
     (if countFreeExtents fsm = 0 then 0
      else real (unat (countFree fsm)) / real (unat (countFreeExtents fsm)))"

definition allocationDensity :: "fsm \<Rightarrow> u32 \<Rightarrow> real" where
  "allocationDensity fsm totalPages =
     (if totalPages = 0 then 0
      else real (unat (totalPages - countFree fsm)) / real (unat totalPages))"

abbreviation maxContiguousAllocation :: "fsm \<Rightarrow> u32" where
  "maxContiguousAllocation fsm \<equiv> largestFreeExtent fsm"

definition analyze :: "fsm \<Rightarrow> u32 \<Rightarrow> fragmentation_report" where
  "analyze fsm totalPages =
     (let percent = calculateFragmentation fsm totalPages
      in \<lparr>fr_fragmentationPercent = percent,
          fr_largestFreeExtent = largestFreeExtent fsm,
          fr_smallestFreeExtent =
            (if fsm = [] then 0
             else foldl (\<lambda>m e. if len e < m then len e else m) (len (hd fsm)) fsm),
          fr_averageFreeExtentSize = averageFreeExtentSize fsm,
          fr_extentCount = of_nat (length fsm),
          fr_totalFreePages = countFree fsm,
          fr_allocationDensity = allocationDensity fsm totalPages,
          fr_maxContiguousAllocation = maxContiguousAllocation fsm,
          fr_recommendation =
            (if percent > 50 then ''High fragmentation: consider defragmentation''
             else if percent > 25 then ''Moderate fragmentation: monitor growth''
             else ''Low fragmentation: space is well-organized'')\<rparr>)"

section \<open>The space manager\<close>

record space_manager =
  sm_pages :: page_allocator
  sm_extents :: extent_allocator
  sm_stats :: space_stats

abbreviation sm_fsm :: "space_manager \<Rightarrow> fsm" where
  "sm_fsm m \<equiv> ea_fsm (sm_extents m)"

definition with_fsm :: "fsm \<Rightarrow> space_manager \<Rightarrow> space_manager" where
  "with_fsm fsm m = m\<lparr>sm_extents := (sm_extents m)\<lparr>ea_fsm := fsm\<rparr>\<rparr>"

definition managedTotal :: u32 where
  "managedTotal = kMaxPageId - kReservedPages + 1"

definition initializeFreeSpace :: "space_manager \<Rightarrow> space_manager" where
  "initializeFreeSpace m =
     (if managedTotal > 0 then with_fsm (fsm_initialize kReservedPages managedTotal) m else m)"

definition SpaceManager_new :: "policy \<Rightarrow> space_manager" where
  "SpaceManager_new p =
     initializeFreeSpace \<lparr>sm_pages = PageAllocator_new, sm_extents = ExtentAllocator_new p,
       sm_stats = SpaceStats\<rparr>"

definition record_alloc :: "bool \<Rightarrow> space_manager \<Rightarrow> space_manager" where
  "record_alloc b m = m\<lparr>sm_stats := recordAllocation b (sm_stats m)\<rparr>"

definition record_free :: "bool \<Rightarrow> space_manager \<Rightarrow> space_manager" where
  "record_free b m = m\<lparr>sm_stats := recordFree b (sm_stats m)\<rparr>"

definition refresh_stats :: "space_manager \<Rightarrow> space_manager" where
  "refresh_stats m = m\<lparr>sm_stats := update_stats (sm_fsm m) (kMaxPageId + 1) (sm_stats m)\<rparr>"

definition allocatePage :: "space_manager \<Rightarrow> PageId \<times> space_manager" where
  "allocatePage m =
     (case PageAllocator_allocate (sm_pages m) of (pid, pa) \<Rightarrow>
        let m1 = m\<lparr>sm_pages := pa\<rparr>
        in if pid \<noteq> kInvalidPageId
           then (case markAllocated (Extent pid 1) (sm_fsm m1) of
                   (Inl _, fsm) \<Rightarrow>
                     let m2 = with_fsm fsm m1;
                         m3 = m2\<lparr>sm_pages := snd (PageAllocator_free pid (sm_pages m2))\<rparr>
                     in (kInvalidPageId, record_alloc False m3)
                 | (Inr _, fsm) \<Rightarrow> (pid, record_alloc True (with_fsm fsm m1)))
           else (pid, record_alloc False m1))"

definition freePage :: "PageId \<Rightarrow> space_manager \<Rightarrow> bool \<times> space_manager" where
  "freePage pid m =
     (case PageAllocator_free pid (sm_pages m) of (freed, pa) \<Rightarrow>
        let m1 = m\<lparr>sm_pages := pa\<rparr>
        in if \<not> freed then (False, record_free False m1)
           else (case markFree (Extent pid 1) (sm_fsm m1) of
                   (Inl _, fsm) \<Rightarrow> (False, record_free False (with_fsm fsm m1))
                 | (Inr _, fsm) \<Rightarrow> (True, record_free True (with_fsm fsm m1))))"

definition allocateExtent :: "u32 \<Rightarrow> hints \<Rightarrow> space_manager \<Rightarrow> extent \<times> space_manager" where
  "allocateExtent n h m =
     (case ExtentAllocator_allocate n h (sm_extents m) of (e, ea) \<Rightarrow>
        let m1 = record_alloc (Extent_isValid e) (m\<lparr>sm_extents := ea\<rparr>)
        in (e, if Extent_isValid e then refresh_stats m1 else m1))"

definition freeExtent :: "extent \<Rightarrow> (space_manager, unit) op" where
  "freeExtent e m =
     (case ExtentAllocator_release e (sm_extents m) of
        (Inl st, ea) \<Rightarrow> (Inl st, record_free False (m\<lparr>sm_extents := ea\<rparr>))
      | (Inr _, ea) \<Rightarrow> (Inr (), refresh_stats (record_free True (m\<lparr>sm_extents := ea\<rparr>))))"

definition reserveRange :: "PageId \<Rightarrow> u32 \<Rightarrow> (space_manager, unit) op" where
  "reserveRange s count m =
     (if s < kReservedPages
      then (Inl (invalidArgument ''Cannot reserve reserved page range''), m)
      else case markAllocated (Extent s count) (sm_fsm m) of
             (Inl st, fsm) \<Rightarrow> (Inl st, with_fsm fsm m)
           | (Inr _, fsm) \<Rightarrow> (Inr (), refresh_stats (with_fsm fsm m)))"

abbreviation allocatedPageCount :: "space_manager \<Rightarrow> u32" where
  "allocatedPageCount m \<equiv> managedTotal - countFree (sm_fsm m)"

abbreviation freePageCount :: "space_manager \<Rightarrow> u32" where
  "freePageCount m \<equiv> countFree (sm_fsm m)"

definition SpaceManager_reset :: "space_manager \<Rightarrow> space_manager" where
  "SpaceManager_reset m =
     (let m1 = m\<lparr>sm_pages := PageAllocator_reset (sm_pages m),
                 sm_extents := ExtentAllocator_clear (sm_extents m)\<rparr>
      in (initializeFreeSpace m1)\<lparr>sm_stats := SpaceStats\<rparr>)"

section \<open>What a policy promises\<close>

locale allocation_policy =
  fixes pick :: "fsm \<Rightarrow> u32 \<Rightarrow> extent"
  assumes pick_free: "fsm_wf fsm \<Longrightarrow> 0 < n \<Longrightarrow> Extent_isValid (pick fsm n) \<Longrightarrow> free_range n fsm (pick fsm n)"
begin

lemma pick_marked:
  assumes "fsm_wf fsm" "0 < n" "Extent_isValid (pick fsm n)"
  shows "fst (markAllocated (pick fsm n) fsm) = Inr () \<and> fsm_wf (snd (markAllocated (pick fsm n) fsm)) \<and>
    fsm_pages (snd (markAllocated (pick fsm n) fsm)) =
      (if at_start (pick fsm n) fsm then fsm_pages fsm else fsm_pages fsm - pages_of (pick fsm n))"
proof -
  from pick_free [OF assms] have f: "ext_ok (pick fsm n)" "pages_of (pick fsm n) \<subseteq> fsm_pages fsm"
    by (auto simp: free_range_def)
  then have "lo (pick fsm n) \<in> fsm_pages fsm \<inter> pages_of (pick fsm n)" by (auto simp: pages_of_def ext_ok_def)
  then have "fsm_pages fsm \<inter> pages_of (pick fsm n) \<noteq> {}" by blast
  with markAllocated_spec [OF assms(1) f(1)] show ?thesis by simp
qed

end

interpretation firstFit: allocation_policy "\<lambda>fsm n. FirstFit_allocate fsm n h" for h
  by unfold_locales (auto simp: FirstFit_allocate_def intro: findFreeRange_sound findExactRange_sound
      split: if_splits)

interpretation bestFit: allocation_policy "\<lambda>fsm n. BestFit_allocate fsm n h" for h
  by unfold_locales (auto simp: BestFit_allocate_def Let_def
      intro: findFreeRange_sound findExactRange_sound findBestRange_sound split: if_splits)

lemma Sequential_found:
  assumes "Extent_isValid (fst (Sequential_allocate c fsm n h))"
  shows "\<exists>e \<in> set fsm. n \<le> len e \<and> Sequential_allocate c fsm n h = (Extent (start e) n, start e)"
  using assms
  by (auto simp: Sequential_allocate_def Let_def split: option.splits if_splits
      dest!: find_set dest: set_dropWhileD set_takeWhileD)

interpretation sequential: allocation_policy "\<lambda>fsm n. fst (Sequential_allocate c fsm n h)" for c h
proof unfold_locales
  fix fsm n
  assume w: "fsm_wf fsm" "0 < n" and v: "Extent_isValid (fst (Sequential_allocate c fsm n h))"
  from Sequential_found [OF v] obtain e where e: "e \<in> set fsm" "n \<le> len e"
    "Sequential_allocate c fsm n h = (Extent (start e) n, start e)" by blast
  with free_range_prefix [OF w(1) e(1,2) w(2), of 0]
  show "free_range n fsm (fst (Sequential_allocate c fsm n h))" by simp
qed

interpretation anyPolicy: allocation_policy "\<lambda>fsm n. fst (policy_allocate p fsm n h)" for p h
proof unfold_locales
  fix fsm n
  assume "fsm_wf fsm" "0 < n" "Extent_isValid (fst (policy_allocate p fsm n h))"
  then show "free_range n fsm (fst (policy_allocate p fsm n h))"
    using firstFit.pick_free bestFit.pick_free sequential.pick_free
    by (cases p) (auto simp: policy_allocate_def case_prod_unfold)
qed

lemma ExtentAllocator_allocate_valid:
  assumes "fsm_wf (ea_fsm a)" "ExtentAllocator_allocate n h a = (e, a')"
  shows "fsm_wf (ea_fsm a')" "Extent_isValid e \<Longrightarrow> free_range n (ea_fsm a) e \<and>
      markAllocated e (ea_fsm a) = (Inr (), ea_fsm a')"
    "\<not> Extent_isValid e \<Longrightarrow> ea_fsm a' = ea_fsm a"
proof -
  let ?e = "fst (policy_allocate (ea_policy a) (ea_fsm a) n h)"
  have "fsm_wf (ea_fsm a') \<and> (Extent_isValid e \<longrightarrow> free_range n (ea_fsm a) e \<and>
      markAllocated e (ea_fsm a) = (Inr (), ea_fsm a')) \<and> (\<not> Extent_isValid e \<longrightarrow> ea_fsm a' = ea_fsm a)"
  proof (cases "n = 0 \<or> \<not> Extent_isValid ?e")
    case True
    with assms show ?thesis
      by (auto simp: ExtentAllocator_allocate_def case_prod_unfold Let_def split: if_splits)
  next
    case False
    then have n: "0 < n" and v: "Extent_isValid ?e" by (auto simp: word_neq_0_conv)
    note m = anyPolicy.pick_marked [OF assms(1) n v] and f = anyPolicy.pick_free [OF assms(1) n v]
    then obtain fsm where fsm: "markAllocated ?e (ea_fsm a) = (Inr (), fsm)"
      using markAllocated_Inr by blast
    with assms(2) False have "e = ?e" "ea_fsm a' = fsm"
      by (auto simp: ExtentAllocator_allocate_def case_prod_unfold Let_def)
    with m f fsm v show ?thesis by simp
  qed
  then show "fsm_wf (ea_fsm a')" "Extent_isValid e \<Longrightarrow> free_range n (ea_fsm a) e \<and>
      markAllocated e (ea_fsm a) = (Inr (), ea_fsm a')" "\<not> Extent_isValid e \<Longrightarrow> ea_fsm a' = ea_fsm a"
    by auto
qed

section \<open>Pages of the space manager\<close>

text \<open>
  Every page the allocator can hand out next is free in the map: the ones never handed out and
  the ones on the free list.
\<close>

definition available :: "page_allocator \<Rightarrow> nat set" where
  "available a = {unat (pa_nextPageId a)..<2 ^ 20} \<union> unat ` set (pa_freeList a)"

definition sm_wf :: "space_manager \<Rightarrow> bool" where
  "sm_wf m \<longleftrightarrow> allocator_wf (sm_pages m) \<and> fsm_wf (sm_fsm m) \<and> available (sm_pages m) \<subseteq> fsm_pages (sm_fsm m)"

definition sm_owned :: "space_manager \<Rightarrow> PageId set" where
  "sm_owned m = allocated (sm_pages m)"

lemma record_simps [simp]:
  "sm_pages (record_alloc b m) = sm_pages m" "sm_extents (record_alloc b m) = sm_extents m"
  "sm_pages (record_free b m) = sm_pages m" "sm_extents (record_free b m) = sm_extents m"
  "sm_pages (refresh_stats m) = sm_pages m" "sm_extents (refresh_stats m) = sm_extents m"
  "sm_pages (with_fsm f m) = sm_pages m" "sm_fsm (with_fsm f m) = f"
  by (simp_all add: record_alloc_def record_free_def refresh_stats_def with_fsm_def)

lemma single_page: "p \<noteq> kInvalidPageId \<Longrightarrow> ext_ok (Extent p 1) \<and> pages_of (Extent p 1) = {unat p}"
proof -
  assume "p \<noteq> kInvalidPageId"
  then have "unat p \<noteq> 4294967295" by (simp add: kInvalidPageId_def u32_eq_iff)
  moreover have "unat p \<le> 4294967295" by simp
  ultimately have "unat p < 4294967295" by linarith
  then show ?thesis by (auto simp: ext_ok_def pages_of_def)
qed

text \<open>What one grant of the page allocator does to the identifiers it can hand out.\<close>

lemma allocate_available:
  assumes "allocator_wf a" "PageAllocator_allocate a = (p, a')" "p \<noteq> kInvalidPageId"
  shows "unat p \<in> available a"
    "available a' \<subseteq>
       available a - {unat p}"
proof -
  consider fl where "pa_freeList a = fl @ [p]" "pa_freeList a' = fl" "pa_nextPageId a' = pa_nextPageId a"
    | "pa_freeList a = []" "pa_freeList a' = []" "p = pa_nextPageId a" "pa_nextPageId a' = p + 1"
      "pa_nextPageId a \<le> kMaxPageId"
    using assms(2,3) by (cases "pa_freeList a" rule: rev_cases)
      (auto simp: PageAllocator_allocate_def Let_def split: if_splits)
  then have "unat p \<in> available a \<and>
    available a' \<subseteq>
       available a - {unat p}"
  proof cases
    case (1 fl)
    with assms(1) have "unat p < unat (pa_nextPageId a)" "p \<notin> set fl"
      by (auto simp: allocator_wf_def word_less_nat_alt)
    with 1 show ?thesis by (auto simp: available_def word_unat_eq_iff [symmetric])
  next
    case 2
    then have "unat p \<le> 0xFFFFF" by (simp add: kMaxPageId_eq word_le_nat_alt)
    moreover from this have "unat (p + 1) = unat p + 1" by (simp add: unat_u32_plus)
    ultimately show ?thesis using 2 by (auto simp: available_def)
  qed
  then show "unat p \<in> available a"
    "available a' \<subseteq>
       available a - {unat p}" by auto
qed

lemma allocatePage_pages:
  assumes "sm_wf m" "PageAllocator_allocate (sm_pages m) = (p, pa)"
  shows "\<exists>m'. allocatePage m = (p, m') \<and> sm_pages m' = pa \<and> sm_wf m'"
proof (cases "p = kInvalidPageId")
  case True
  with assms allocate_none [of "sm_pages m" pa] show ?thesis
    by (auto simp: allocatePage_def sm_wf_def)
next
  case False
  have wf: "allocator_wf (sm_pages m)" "fsm_wf (sm_fsm m)" using assms(1) by (auto simp: sm_wf_def)
  note av = allocate_available [OF wf(1) assms(2) False] and s = single_page [OF False]
  have "unat p \<in> fsm_pages (sm_fsm m)" using av(1) assms(1) unfolding sm_wf_def by blast
  with markAllocated_spec [OF wf(2), of "Extent p 1"] s
  have mk: "fst (markAllocated (Extent p 1) (sm_fsm m)) = Inr ()"
    "fsm_wf (snd (markAllocated (Extent p 1) (sm_fsm m)))"
    "fsm_pages (sm_fsm m) - {unat p} \<subseteq> fsm_pages (snd (markAllocated (Extent p 1) (sm_fsm m)))"
    by auto
  then obtain fsm where fsm: "markAllocated (Extent p 1) (sm_fsm m) = (Inr (), fsm)" "fsm_wf fsm"
    "fsm_pages (sm_fsm m) - {unat p} \<subseteq> fsm_pages fsm"
    by (metis markAllocated_Inr)
  define m' where "m' = record_alloc True (with_fsm fsm (m\<lparr>sm_pages := pa\<rparr>))"
  have "allocatePage m = (p, m')"
    using assms(2) False fsm(1) by (simp add: allocatePage_def m'_def)
  moreover have "sm_wf m'"
    using pagealloc.alloc_fresh [OF wf(1) assms(2) False] fsm(2,3) av(2) assms(1)
    unfolding sm_wf_def m'_def record_simps by (auto simp del: Un_iff)
  ultimately show ?thesis by (auto simp: m'_def)
qed

lemma freePage_pages:
  assumes "sm_wf m" "PageAllocator_free p (sm_pages m) = (b, pa)"
  shows "\<exists>m'. freePage p m = (b, m') \<and> sm_pages m' = pa \<and> sm_wf m'"
proof (cases b)
  case False
  with assms free_exact [of "sm_pages m" p b pa] show ?thesis
    by (auto simp: freePage_def sm_wf_def)
next
  case True
  have wf: "allocator_wf (sm_pages m)" "fsm_wf (sm_fsm m)" using assms(1) by (auto simp: sm_wf_def)
  note f = free_exact [OF wf(1) assms(2)]
  have p: "p \<noteq> kInvalidPageId" using f True invalid_not_allocated [OF wf(1)] by auto
  note s = single_page [OF p]
  obtain fsm where fsm: "markFree (Extent p 1) (sm_fsm m) = (Inr (), fsm)" "fsm_wf fsm"
    "fsm_pages fsm = fsm_pages (sm_fsm m) \<union> {unat p}"
    using markFree_spec [OF wf(2), of "Extent p 1"] s by auto
  have pa: "pa_nextPageId pa = pa_nextPageId (sm_pages m)" "pa_freeList pa = pa_freeList (sm_pages m) @ [p]"
    using assms(2) True by (auto simp: PageAllocator_free_def Let_def split: if_splits)
  define m' where "m' = record_free True (with_fsm fsm (m\<lparr>sm_pages := pa\<rparr>))"
  have "freePage p m = (True, m')" using assms(2) True fsm by (simp add: freePage_def m'_def)
  moreover have "available pa = available (sm_pages m) \<union> {unat p}" by (auto simp: available_def pa)
  then have "sm_wf m'"
    using f fsm(2,3) assms(1) unfolding sm_wf_def m'_def record_simps by (auto simp del: Un_iff)
  ultimately show ?thesis using True by (auto simp: m'_def)
qed

interpretation spacepages: page_source allocatePage freePage sm_owned sm_wf
proof unfold_locales
  fix s p s'
  assume s: "sm_wf s" "allocatePage s = (p, s')"
  obtain q pa where q: "PageAllocator_allocate (sm_pages s) = (q, pa)" by (rule prod.exhaust)
  have wf: "allocator_wf (sm_pages s)" using s(1) by (simp add: sm_wf_def)
  from allocatePage_pages [OF s(1) q] s(2) have "q = p" "sm_pages s' = pa" "sm_wf s'" by auto
  moreover assume "p \<noteq> kInvalidPageId"
  ultimately show "sm_wf s' \<and> p \<notin> sm_owned s \<and> sm_owned s' = insert p (sm_owned s)"
    using pagealloc.alloc_fresh [OF wf q] by (simp add: sm_owned_def)
next
  fix s s'
  assume s: "sm_wf s" "allocatePage s = (kInvalidPageId, s')"
  obtain q pa where q: "PageAllocator_allocate (sm_pages s) = (q, pa)" by (rule prod.exhaust)
  have wf: "allocator_wf (sm_pages s)" using s(1) by (simp add: sm_wf_def)
  from allocatePage_pages [OF s(1) q] s(2) have "q = kInvalidPageId" "sm_pages s' = pa" "sm_wf s'" by auto
  with q allocate_none [OF _ wf] show "sm_wf s' \<and> sm_owned s' = sm_owned s" by (auto simp: sm_owned_def)
next
  fix s p b s'
  assume s: "sm_wf s" "freePage p s = (b, s')"
  obtain c pa where q: "PageAllocator_free p (sm_pages s) = (c, pa)" by (rule prod.exhaust)
  have wf: "allocator_wf (sm_pages s)" using s(1) by (simp add: sm_wf_def)
  from freePage_pages [OF s(1) q] s(2) have "c = b" "sm_pages s' = pa" "sm_wf s'" by auto
  with free_exact [OF wf q] show "sm_wf s' \<and> (b \<longleftrightarrow> p \<in> sm_owned s) \<and> sm_owned s' = sm_owned s - {p}"
    by (auto simp: sm_owned_def)
qed

lemma managedTotal_eq: "managedTotal = 0xFFFF8"
  by (simp add: managedTotal_def kMaxPageId_eq kReservedPages_def)

lemma SpaceManager_new_fsm: "sm_fsm (SpaceManager_new p) = [Extent 8 0xFFFF8]"
  by (simp add: SpaceManager_new_def initializeFreeSpace_def managedTotal_eq fsm_initialize_def
      kReservedPages_def)

lemma SpaceManager_new_pages: "sm_pages (SpaceManager_new p) = PageAllocator_new"
  by (simp add: SpaceManager_new_def initializeFreeSpace_def)

lemma sm_wf_new: "sm_wf (SpaceManager_new p)"
  using allocator_wf_new(1)
  by (auto simp: sm_wf_def SpaceManager_new_fsm SpaceManager_new_pages ext_ok_def pages_of_def
      PageAllocator_new_def kReservedPages_def available_def)

text \<open>
  C3. Through its page interface the space manager implements the ledger of owned pages: for any
  policy and any sequence of \<^verbatim>\<open>allocatePage\<close> and \<^verbatim>\<open>freePage\<close> calls on a new manager, no owned page
  is handed out again, frees succeed exactly on owned pages, and the roll-back branch of
  \<^verbatim>\<open>allocatePage\<close> is never taken, since the answers are those of the page allocator alone.
\<close>

theorem space_manager_pages_refine_ledger:
  "case page_run allocatePage freePage rs (SpaceManager_new p) of (as, m) \<Rightarrow>
     ledger {} as = Some (allocated (sm_pages m)) \<and>
     as = fst (page_run PageAllocator_allocate PageAllocator_free rs PageAllocator_new)"
proof -
  have sim: "sm_wf m \<Longrightarrow> page_run allocatePage freePage rs m = (as, m') \<Longrightarrow>
      page_run PageAllocator_allocate PageAllocator_free rs (sm_pages m) = (as, sm_pages m')" for m as m'
  proof (induction rs arbitrary: m as)
    case (Cons r rs)
    show ?case
    proof (cases r)
      case Allocate
      obtain q pa where q: "PageAllocator_allocate (sm_pages m) = (q, pa)" by (rule prod.exhaust)
      from allocatePage_pages [OF Cons.prems(1) q] obtain m1 where
        m1: "allocatePage m = (q, m1)" "sm_pages m1 = pa" "sm_wf m1" by blast
      with Cons.IH [OF m1(3)] Cons.prems(2) q Allocate show ?thesis by (auto split: prod.splits)
    next
      case (Release x)
      obtain b pa where q: "PageAllocator_free x (sm_pages m) = (b, pa)" by (rule prod.exhaust)
      from freePage_pages [OF Cons.prems(1) q] obtain m1 where
        m1: "freePage x m = (b, m1)" "sm_pages m1 = pa" "sm_wf m1" by blast
      with Cons.IH [OF m1(3)] Cons.prems(2) q Release show ?thesis by (auto split: prod.splits)
    qed
  qed simp
  obtain as m where run: "page_run allocatePage freePage rs (SpaceManager_new p) = (as, m)"
    by (rule prod.exhaust)
  have "ledger {} as = Some (allocated (sm_pages m))"
    using spacepages.run_ledger [OF sm_wf_new run]
    by (simp add: sm_owned_def SpaceManager_new_pages allocator_wf_new)
  with run sim [OF sm_wf_new run] show ?thesis by (simp add: SpaceManager_new_pages)
qed

text \<open>
  C30. The extent allocator hands out free pages only: with any of the three policies and any
  hints, from a well-formed map, a valid extent returned by \<^verbatim>\<open>allocate\<close> has the length asked for
  and consists of pages that were free; the map stays well-formed and valid; and an invalid
  result leaves it unchanged, so marking the range never fails after a policy chose it.
\<close>

theorem allocated_extents_were_free:
  assumes "fsm_wf (ea_fsm a)" "ExtentAllocator_allocate n h a = (e, a')"
  shows "fsm_wf (ea_fsm a') \<and>
    (if Extent_isValid e then len e = n \<and> pages_of e \<subseteq> fsm_pages (ea_fsm a) else ea_fsm a' = ea_fsm a)"
  using ExtentAllocator_allocate_valid [OF assms] by (auto simp: free_range_def)

theorem allocated_extents_were_free_witness:
  "fsm_wf (ea_fsm (snd (ExtentAllocator_allocate 4 AllocationHints
     \<lparr>ea_fsm = [Extent 8 2, Extent 20 9], ea_policy = BestFitPolicy\<rparr>)))"
proof -
  let ?a = "\<lparr>ea_fsm = [Extent 8 2, Extent 20 9], ea_policy = BestFitPolicy\<rparr>"
  have "fsm_wf (ea_fsm ?a)" by (simp add: ext_ok_def)
  from allocated_extents_were_free [OF this surjective_pairing] show ?thesis by blast
qed



end
