(* ===== verification/DiskFile.thy ===== *)
theory DiskFile
  imports Storage
begin

text \<open>
  The database file (DatabaseFile.h, DatabaseFile.cpp) on a model of \<^verbatim>\<open>std::fstream\<close>: a stream
  has a position and the two state flags of the standard library that the code reads, a failed
  operation sets the fail flag, \<^verbatim>\<open>seekg\<close> clears only the end-of-file flag, and opening a file
  clears both. The file system is a map from paths to contents together with the paths the
  operating system lets the process open; devices do not lose or refuse data.
\<close>

section \<open>Streams\<close>

record world =
  files :: "string \<Rightarrow> u8 list option"
  openable :: "string \<Rightarrow> bool"

record fstream =
  fs_open :: bool
  fs_path :: string
  fs_pos :: nat
  fs_eof :: bool
  fs_fail :: bool

definition closed_stream :: fstream where
  "closed_stream = \<lparr>fs_open = False, fs_path = [], fs_pos = 0, fs_eof = False, fs_fail = False\<rparr>"

definition stream_bytes :: "world \<Rightarrow> fstream \<Rightarrow> u8 list" where
  "stream_bytes w f = (case files w (fs_path f) of None \<Rightarrow> [] | Some bs \<Rightarrow> bs)"

definition stream_open :: "string \<Rightarrow> bool \<Rightarrow> world \<Rightarrow> fstream \<Rightarrow> world \<times> fstream" where
  "stream_open path trunc w f =
     (if openable w path \<and> (trunc \<or> files w path \<noteq> None)
      then (if trunc then w\<lparr>files := (files w)(path \<mapsto> [])\<rparr> else w,
            \<lparr>fs_open = True, fs_path = path, fs_pos = 0, fs_eof = False, fs_fail = False\<rparr>)
      else (w, f\<lparr>fs_open := False, fs_fail := True\<rparr>))"

definition stream_close :: "fstream \<Rightarrow> fstream" where
  "stream_close f = f\<lparr>fs_open := False\<rparr>"

text \<open>\<^verbatim>\<open>seekg\<close> then \<^verbatim>\<open>seekp\<close> from the beginning; a negative offset fails.\<close>

definition stream_seek :: "u64 \<Rightarrow> fstream \<Rightarrow> fstream" where
  "stream_seek position f =
     (let f1 = f\<lparr>fs_eof := False\<rparr>
      in if fs_fail f1 then f1
         else if sint (position :: u64) < 0 then f1\<lparr>fs_fail := True\<rparr>
         else f1\<lparr>fs_pos := unat position\<rparr>)"

definition stream_read :: "nat \<Rightarrow> world \<Rightarrow> fstream \<Rightarrow> u8 list \<times> fstream" where
  "stream_read n w f =
     (if fs_fail f \<or> fs_eof f then ([], f\<lparr>fs_fail := True\<rparr>)
      else let got = take n (drop (fs_pos f) (stream_bytes w f));
               f1 = f\<lparr>fs_pos := fs_pos f + length got\<rparr>
           in (got, if length got < n then f1\<lparr>fs_eof := True, fs_fail := True\<rparr> else f1))"

text \<open>A write past the end fills the gap with zeros.\<close>

definition patch :: "nat \<Rightarrow> u8 list \<Rightarrow> u8 list \<Rightarrow> u8 list" where
  "patch pos src bs =
     take pos (bs @ replicate (pos - length bs) 0) @ src @ drop (pos + length src) bs"

definition stream_write :: "u8 list \<Rightarrow> world \<Rightarrow> fstream \<Rightarrow> world \<times> fstream" where
  "stream_write src w f =
     (if fs_fail f \<or> fs_eof f then (w, f\<lparr>fs_fail := True\<rparr>)
      else (w\<lparr>files := (files w)(fs_path f \<mapsto> patch (fs_pos f) src (stream_bytes w f))\<rparr>,
            f\<lparr>fs_pos := fs_pos f + length src\<rparr>))"

section \<open>The database file\<close>

record dbfile =
  df_path :: string
  df_stream :: fstream
  df_size :: u64

definition DatabaseFile_default :: dbfile where
  "DatabaseFile_default = \<lparr>df_path = [], df_stream = closed_stream, df_size = 0\<rparr>"

type_synonym dbstate = "world \<times> dbfile"

definition DatabaseFile_open :: "string \<Rightarrow> bool \<Rightarrow> (dbstate, unit) op" where
  "DatabaseFile_open path create s =
     (case s of (w, d) \<Rightarrow>
        if fs_open (df_stream d)
        then (Inl (ioError (''File already open: '' @ df_path d)), (w, d))
        else let d1 = d\<lparr>df_path := path\<rparr>; fileExists = (files w path \<noteq> None)
             in if create \<and> \<not> fileExists
                then (case stream_open path True w (df_stream d1) of (w', f) \<Rightarrow>
                        let d2 = d1\<lparr>df_stream := f\<rparr>
                        in if \<not> fs_open f
                           then (Inl (ioError (''Failed to create file: '' @ path)), (w', d2))
                           else (Inr (), (w', d2\<lparr>df_size := 0\<rparr>)))
                else (case stream_open path False w (df_stream d1) of (w', f) \<Rightarrow>
                        let d2 = d1\<lparr>df_stream := f\<rparr>
                        in if \<not> fs_open f
                           then (Inl (ioError (''Failed to open file: '' @ path)), (w', d2))
                           else (Inr (), (w', d2\<lparr>df_size := of_nat (length (stream_bytes w' f))\<rparr>))))"

text \<open>Closing a stream whose file was opened does not fail in this model of streams.\<close>

definition DatabaseFile_close :: "(dbstate, unit) op" where
  "DatabaseFile_close s =
     (case s of (w, d) \<Rightarrow>
        if \<not> fs_open (df_stream d) then (Inr (), (w, d))
        else let d1 = d\<lparr>df_stream := stream_close (df_stream d), df_path := [], df_size := 0\<rparr>
             in if fs_open (df_stream d1) then (Inl (ioError ''Failed to close file''), (w, d1))
                else (Inr (), (w, d1)))"

definition DatabaseFile_flush :: "(dbstate, unit) op" where
  "DatabaseFile_flush s =
     (case s of (w, d) \<Rightarrow>
        if \<not> fs_open (df_stream d) then (Inl (ioError ''File not open''), (w, d))
        else if fs_fail (df_stream d) then (Inl (ioError ''Failed to flush file''), (w, d))
        else (Inr (), (w, d)))"

definition DatabaseFile_sync :: "(dbstate, unit) op" where
  "DatabaseFile_sync = DatabaseFile_flush"

definition DatabaseFile_seek :: "u64 \<Rightarrow> (dbstate, unit) op" where
  "DatabaseFile_seek position s =
     (case s of (w, d) \<Rightarrow>
        if \<not> fs_open (df_stream d) then (Inl (ioError ''File not open''), (w, d))
        else let f = stream_seek position (df_stream d); d1 = d\<lparr>df_stream := f\<rparr>
             in if fs_fail f then (Inl (ioError ''Failed to seek in file''), (w, d1))
                else (Inr (), (w, d1)))"

text \<open>\<open>prior\<close> is what the caller's buffer of \<open>count\<close> bytes holds before the call.\<close>

definition DatabaseFile_readBytes :: "u8 list \<Rightarrow> nat \<Rightarrow> (dbstate, u8 list) op" where
  "DatabaseFile_readBytes prior count s =
     (case s of (w, d) \<Rightarrow>
        if \<not> fs_open (df_stream d) then (Inl (ioError ''File not open''), (w, d))
        else case stream_read count w (df_stream d) of (got, f) \<Rightarrow>
          let d1 = d\<lparr>df_stream := f\<rparr>
          in if fs_fail f \<and> \<not> fs_eof f then (Inl (ioError ''Failed to read from file''), (w, d1))
             else (Inr (overlay 0 got prior), (w, d1)))"

definition DatabaseFile_writeBytes :: "u8 list \<Rightarrow> (dbstate, unit) op" where
  "DatabaseFile_writeBytes src s =
     (case s of (w, d) \<Rightarrow>
        if \<not> fs_open (df_stream d) then (Inl (ioError ''File not open''), (w, d))
        else case stream_write src w (df_stream d) of (w', f) \<Rightarrow>
          let d1 = d\<lparr>df_stream := f\<rparr>
          in if fs_fail f then (Inl (ioError ''Failed to write to file''), (w', d1))
             else let pos = of_nat (fs_pos f)
                  in (Inr (), (w', if pos > df_size d1 then d1\<lparr>df_size := pos\<rparr> else d1)))"

text \<open>\<open>what\<close> is the text of the exception of \<^verbatim>\<open>resize_file\<close>, raised when there is no such file.\<close>

definition DatabaseFile_resize :: "string \<Rightarrow> u64 \<Rightarrow> (dbstate, unit) op" where
  "DatabaseFile_resize what newSize s =
     (case s of (w, d) \<Rightarrow>
        if \<not> fs_open (df_stream d) then (Inl (ioError ''File not open''), (w, d))
        else let f = stream_close (df_stream d)
             in case files w (df_path d) of
                  None \<Rightarrow>
                    (case stream_open (df_path d) False w f of (w', f') \<Rightarrow>
                       (Inl (ioError (''Failed to resize file: '' @ what)), (w', d\<lparr>df_stream := f'\<rparr>)))
                | Some bs \<Rightarrow>
                    let n = unat newSize;
                        w1 = w\<lparr>files := (files w)(df_path d \<mapsto> take n bs @ replicate (n - length bs) 0)\<rparr>
                    in case stream_open (df_path d) False w1 f of (w', f') \<Rightarrow>
                         let d1 = d\<lparr>df_size := newSize, df_stream := f'\<rparr>
                         in if \<not> fs_open f'
                            then (Inl (ioError ''Failed to reopen file after resize''), (w', d1))
                            else (Inr (), (w', d1)))"

text \<open>
  \<open>on_file\<close> runs an operation of the file next to the page object of the caller. \<open>junk\<close> is what the
  uninitialised local header holds.
\<close>

definition on_file :: "(dbstate, 'a) op \<Rightarrow> (dbstate \<times> page, 'a) op" where
  "on_file m s = (case m (fst s) of (res, d) \<Rightarrow> (res, (d, snd s)))"

definition set_page :: "page \<Rightarrow> (dbstate \<times> page, unit) op" where
  "set_page p s = (Inr (), (fst s, p))"

definition page_position :: "PageId \<Rightarrow> u64" where
  "page_position pid = ucast pid * of_nat kPageSize"

definition readPage :: "u8 list \<Rightarrow> (dbstate \<times> page, unit) op" where
  "readPage junk s =
     (let pid = Page_id (snd s)
      in if pid = kInvalidPageId
         then (Inl (invalidArgument ''Cannot read page with invalid ID''), s)
         else thenS (on_file (DatabaseFile_seek (page_position pid)))
           (bindS (on_file (DatabaseFile_readBytes junk kPageHeaderSize)) (\<lambda>hb.
              let header = page_header_of hb
              in if \<not> PageHeader_isValid header
                 then fail (corruption (''Invalid page header at page '' @ to_string (unat pid)))
                 else let page = Page_setGeneration (ph_generation header) (Page_new pid (ph_pageType header))
                      in thenS (set_page page)
                           (bindS (on_file (DatabaseFile_readBytes (Page_payload page) kPagePayloadSize)) (\<lambda>pl.
                              let page1 = page\<lparr>pg_data := take kPageHeaderSize (pg_data page) @ pl\<rparr>
                              in set_page (Page_setDirty False page1))))) s)"

definition writePage :: "page \<Rightarrow> (dbstate, unit) op" where
  "writePage page =
     (if Page_id page = kInvalidPageId
      then fail (invalidArgument ''Cannot write page with invalid ID'')
      else thenS (DatabaseFile_seek (page_position (Page_id page)))
        (thenS (DatabaseFile_writeBytes (page_header_image (pg_header page)))
          (DatabaseFile_writeBytes (Page_payload page))))"

section \<open>Images of page headers\<close>

definition header_wf :: "page_header \<Rightarrow> bool" where
  "header_wf h \<longleftrightarrow> length (ph_reserved2 h) = 7"

lemma length_concat_mem: "length (concat (map mem (xs :: u32 list))) = 4 * length xs"
  by (induction xs) simp_all

lemma length_page_header_image: "header_wf h \<Longrightarrow> length (page_header_image h) = 64"
  by (simp add: page_header_image_def header_wf_def length_concat_mem)

lemma page_header_round_trip:
  assumes "header_wf h"
  shows "page_header_of (page_header_image h) = h"
proof -
  obtain a b c d e f g where r: "ph_reserved2 h = [a, b, c, d, e, f, g]"
    using assms by (auto simp: header_wf_def numeral_eq_Suc length_Suc_conv)
  show ?thesis
    by (rule page_header.equality)
       (simp_all add: page_header_of_def page_header_image_def r upt_conv_Cons)
qed

lemma header_wf_make [simp]: "header_wf (PageHeader_make pid t)"
  by (simp add: header_wf_def PageHeader_make_def)

section \<open>Reading and writing the stream\<close>

lemma length_patch: "length (patch pos src bs) = max (length bs) (pos + length src)"
  by (simp add: patch_def)

lemma patch_here: "take (length src) (drop pos (patch pos src bs)) = src"
  by (simp add: patch_def)

lemma patch_patch: "patch (pos + length a) b (patch pos a bs) = patch pos (a @ b) bs"
proof -
  define pre where "pre = take pos (bs @ replicate (pos - length bs) 0)"
  have pre: "length pre = pos" by (simp add: pre_def)
  let ?x = "pre @ a @ drop (pos + length a) bs"
  have x: "patch pos a bs = ?x" by (simp add: patch_def pre_def)
  have "pos + length a - length ?x = 0" using pre by simp
  then have "patch (pos + length a) b ?x =
      take (pos + length a) ?x @ b @ drop (pos + length a + length b) ?x"
    unfolding patch_def by (simp only: replicate_0 append_Nil2)
  also have "take (pos + length a) ?x = pre @ a" using pre by simp
  also have "drop (pos + length a + length b) ?x = drop (pos + length a + length b) bs"
    using pre by (simp add: add.commute)
  finally show ?thesis
    unfolding x by (simp only: patch_def pre_def length_append append_assoc add.assoc)
qed

lemma patch_frame:
  assumes "i + m \<le> pos \<or> pos + length src \<le> i" "i + m \<le> length bs"
  shows "take m (drop i (patch pos src bs)) = take m (drop i bs)"
  using assms(1)
proof
  assume "i + m \<le> pos"
  then have "take m (drop i (patch pos src bs)) =
      take m (drop i (take pos (bs @ replicate (pos - length bs) 0)))"
    by (simp add: patch_def)
  also have "\<dots> = take m (drop i bs)"
    using assms(2) \<open>i + m \<le> pos\<close> by (simp add: drop_take min_def)
  finally show ?thesis .
next
  assume "pos + length src \<le> i"
  moreover have "length (take pos (bs @ replicate (pos - length bs) 0)) = pos" by simp
  ultimately have "drop i (patch pos src bs) = drop i bs"
    unfolding patch_def by (simp only: drop_append) simp
  then show ?thesis by simp
qed

definition file_ok :: "dbstate \<Rightarrow> bool" where
  "file_ok s \<longleftrightarrow> fs_open (df_stream (snd s)) \<and> \<not> fs_fail (df_stream (snd s)) \<and>
     \<not> fs_eof (df_stream (snd s))"

definition content :: "dbstate \<Rightarrow> u8 list" where
  "content s = stream_bytes (fst s) (df_stream (snd s))"

lemma unat_page_position: "unat (page_position pid) = unat pid * 4096"
proof -
  have u: "unat (ucast pid :: u64) = unat pid" by simp
  have "unat pid \<le> 4294967295" by simp
  then have "unat pid * 4096 < 18446744073709551616" by linarith
  then show ?thesis
    by (simp add: page_position_def kPageSize_def unat_word_ariths u)
qed

lemma sint_nonneg:
  assumes "unat (p :: u64) < 9223372036854775808"
  shows "\<not> sint p < 0"
proof -
  have "int (unat p) < 9223372036854775808" using assms by linarith
  then have lt: "uint p < 9223372036854775808" by (simp only: uint_nat)
  have "sint p = signed_take_bit 63 (uint p)" using sint_uint [of p] by simp
  also have "\<dots> = uint p"
    by (rule signed_take_bit_int_eq_self) (rule order_trans [OF _ unsigned_greater_eq], use lt in simp_all)
  finally show ?thesis by simp
qed

lemma page_position_pos: "\<not> sint (page_position pid) < 0"
proof (rule sint_nonneg)
  have "unat pid \<le> 4294967295" by simp
  then have "unat pid * 4096 < 9223372036854775808" by linarith
  then show "unat (page_position pid) < 9223372036854775808" by (simp add: unat_page_position)
qed

lemma seek_ok:
  assumes "file_ok s"
  shows "\<exists>s'. DatabaseFile_seek (page_position pid) s = (Inr (), s') \<and> file_ok s' \<and>
    content s' = content s \<and> fs_pos (df_stream (snd s')) = unat pid * 4096 \<and>
    fst s' = fst s \<and> fs_path (df_stream (snd s')) = fs_path (df_stream (snd s))"
  using assms page_position_pos [of pid]
  by (cases s) (auto simp: DatabaseFile_seek_def stream_seek_def Let_def file_ok_def content_def
      stream_bytes_def unat_page_position)

lemma file_writeBytes_ok:
  assumes "file_ok s"
  shows "\<exists>s'. DatabaseFile_writeBytes src s = (Inr (), s') \<and> file_ok s' \<and>
    content s' = patch (fs_pos (df_stream (snd s))) src (content s) \<and>
    fs_pos (df_stream (snd s')) = fs_pos (df_stream (snd s)) + length src"
  using assms
  by (cases s) (auto simp: DatabaseFile_writeBytes_def stream_write_def Let_def file_ok_def content_def
      stream_bytes_def)

lemma overlay_full: "length got = length prior \<Longrightarrow> overlay 0 got prior = got"
  by (simp add: overlay_def)

lemma readBytes_ok:
  assumes "file_ok s" "fs_pos (df_stream (snd s)) + n \<le> length (content s)" "length prior = n"
  shows "\<exists>s'. DatabaseFile_readBytes prior n s =
      (Inr (take n (drop (fs_pos (df_stream (snd s))) (content s))), s') \<and> file_ok s' \<and>
    content s' = content s \<and> fs_pos (df_stream (snd s')) = fs_pos (df_stream (snd s)) + n"
  using assms
  by (cases s) (auto simp: DatabaseFile_readBytes_def stream_read_def Let_def file_ok_def content_def
      stream_bytes_def overlay_full)

lemma on_file_simp: "m d = (res, d') \<Longrightarrow> on_file m (d, p) = (res, (d', p))"
  by (simp add: on_file_def)

definition page_image :: "page \<Rightarrow> u8 list" where
  "page_image p = page_header_image (pg_header p) @ Page_payload p"

definition page_wf :: "page \<Rightarrow> bool" where
  "page_wf p \<longleftrightarrow> header_wf (pg_header p) \<and> length (pg_data p) = kPageSize"

lemma length_page_image: "page_wf p \<Longrightarrow> length (page_image p) = 4096"
  by (simp add: page_image_def page_wf_def length_page_header_image Page_payload_def size_consts)

lemma writePage_ok:
  assumes "file_ok s" "Page_id p \<noteq> kInvalidPageId"
  shows "\<exists>s'. writePage p s = (Inr (), s') \<and> file_ok s' \<and>
    content s' = patch (unat (Page_id p) * 4096) (page_image p) (content s)"
proof -
  obtain s1 where s1: "DatabaseFile_seek (page_position (Page_id p)) s = (Inr (), s1)" "file_ok s1"
    "content s1 = content s" "fs_pos (df_stream (snd s1)) = unat (Page_id p) * 4096"
    using seek_ok [OF assms(1)] by blast
  obtain s2 where s2: "DatabaseFile_writeBytes (page_header_image (pg_header p)) s1 = (Inr (), s2)"
    "file_ok s2" "content s2 = patch (unat (Page_id p) * 4096) (page_header_image (pg_header p)) (content s)"
    "fs_pos (df_stream (snd s2)) = unat (Page_id p) * 4096 + length (page_header_image (pg_header p))"
    using file_writeBytes_ok [OF s1(2)] s1 by metis
  obtain s3 where "DatabaseFile_writeBytes (Page_payload p) s2 = (Inr (), s3)" "file_ok s3"
    "content s3 = patch (unat (Page_id p) * 4096) (page_image p) (content s)"
    using file_writeBytes_ok [OF s2(2), of "Page_payload p"] s2(3,4) by (auto simp: page_image_def patch_patch)
  with s1(1) s2(1) assms(2) show ?thesis by (simp add: writePage_def)
qed

lemma length_Page_new [simp]: "length (pg_data (Page_new pid t)) = 4096"
  by (simp add: Page_new_def kPageSize_def)

text \<open>Reading a page whose image is on disk.\<close>

lemma readPage_ok:
  assumes "file_ok s" "pid = Page_id q" "pid \<noteq> kInvalidPageId" "length junk = 64"
    "header_wf h" "PageHeader_isValid h" "length pl = 4032"
    "take 4096 (drop (unat pid * 4096) (content s)) = page_header_image h @ pl"
  shows "\<exists>s'. file_ok s' \<and> content s' = content s \<and>
    readPage junk (s, q) = (Inr (), (s', Page_setDirty False
      ((Page_setGeneration (ph_generation h) (Page_new pid (ph_pageType h)))
        \<lparr>pg_data := take 64 (pg_data (Page_new pid (ph_pageType h))) @ pl\<rparr>)))"
proof -
  let ?p = "Page_setGeneration (ph_generation h) (Page_new pid (ph_pageType h))"
  have len: "unat pid * 4096 + 4096 \<le> length (content s)"
  proof -
    have "length (page_header_image h @ pl) = 4096" using assms(5,7) by (simp add: length_page_header_image)
    with assms(8) have "length (take 4096 (drop (unat pid * 4096) (content s))) = 4096" by simp
    then show ?thesis by auto
  qed
  have hd: "take 64 (drop (unat pid * 4096) (content s)) = page_header_image h"
    using arg_cong [OF assms(8), of "take 64"] assms(5) by (simp add: length_page_header_image)
  have bd: "take 4032 (drop (unat pid * 4096 + 64) (content s)) = pl"
    using arg_cong [OF assms(8), of "drop 64"] assms(5,7)
    by (simp add: length_page_header_image take_drop add.commute)
  obtain s1 where s1: "DatabaseFile_seek (page_position pid) s = (Inr (), s1)" "file_ok s1"
    "content s1 = content s" "fs_pos (df_stream (snd s1)) = unat pid * 4096"
    using seek_ok [OF assms(1)] by blast
  obtain s2 where s2: "DatabaseFile_readBytes junk 64 s1 = (Inr (page_header_image h), s2)" "file_ok s2"
    "content s2 = content s" "fs_pos (df_stream (snd s2)) = unat pid * 4096 + 64"
    using readBytes_ok [OF s1(2), of 64 junk] s1(3,4) assms(4) hd len by auto
  have pp: "length (Page_payload ?p) = 4032"
    by (simp add: Page_payload_def Page_setGeneration_def size_consts)
  obtain s3 where s3: "DatabaseFile_readBytes (Page_payload ?p) 4032 s2 = (Inr pl, s3)" "file_ok s3"
    "content s3 = content s"
    using readBytes_ok [OF s2(2), of 4032 "Page_payload ?p"] s2(3,4) pp bd len by auto
  have "pg_data ?p = pg_data (Page_new pid (ph_pageType h))" by (simp add: Page_setGeneration_def)
  with s1(1) s2(1) s3 assms(2,3,5,6) show ?thesis
    by (intro exI [of _ s3]) (auto simp: readPage_def on_file_simp page_header_round_trip set_page_def size_consts Let_def)
qed

section \<open>Pages on disk\<close>

text \<open>
  C14. A page that was written is read back: on an open file whose stream has not failed, writing
  a page with a valid header succeeds, and reading the page with that identifier afterwards
  returns its type, generation and payload, whatever was in the file and in the caller's page;
  the bytes of every other page of the file are unchanged.
\<close>

theorem page_write_read_back:
  assumes "file_ok s" "page_wf p" "PageHeader_isValid (pg_header p)" "Page_id p \<noteq> kInvalidPageId"
    "Page_id q = Page_id p" "length junk = 64"
  shows "\<exists>s' s'' p'. writePage p s = (Inr (), s') \<and> readPage junk (s', q) = (Inr (), (s'', p')) \<and>
    Page_id p' = Page_id p \<and> Page_type p' = Page_type p \<and> Page_payload p' = Page_payload p \<and>
    ph_generation (pg_header p') = ph_generation (pg_header p) \<and> \<not> pg_dirty p' \<and>
    (\<forall>i. i \<noteq> unat (Page_id p) \<longrightarrow> i * 4096 + 4096 \<le> length (content s) \<longrightarrow>
       take 4096 (drop (i * 4096) (content s'')) = take 4096 (drop (i * 4096) (content s)))"
proof -
  let ?pos = "unat (Page_id p) * 4096"
  have hw: "header_wf (pg_header p)" and pl: "length (Page_payload p) = 4032"
    using assms(2) by (auto simp: page_wf_def Page_payload_def size_consts)
  obtain s' where s': "writePage p s = (Inr (), s')" "file_ok s'"
    "content s' = patch ?pos (page_image p) (content s)"
    using writePage_ok [OF assms(1,4)] by blast
  have img: "take 4096 (drop ?pos (content s')) = page_header_image (pg_header p) @ Page_payload p"
    using patch_here [of "page_image p" ?pos "content s"] s'(3) length_page_image [OF assms(2)]
    by (simp add: page_image_def)
  define p' where "p' = Page_setDirty False ((Page_setGeneration (ph_generation (pg_header p))
        (Page_new (Page_id p) (ph_pageType (pg_header p))))
        \<lparr>pg_data := take 64 (pg_data (Page_new (Page_id p) (ph_pageType (pg_header p)))) @ Page_payload p\<rparr>)"
  obtain s'' where r: "content s'' = content s'" "readPage junk (s', q) = (Inr (), (s'', p'))"
    using readPage_ok [OF s'(2) assms(5) [symmetric] assms(4,6) hw assms(3) pl img]
    unfolding p'_def by blast
  have frame: "take 4096 (drop (i * 4096) (content s'')) = take 4096 (drop (i * 4096) (content s))"
    if "i \<noteq> unat (Page_id p)" "i * 4096 + 4096 \<le> length (content s)" for i
  proof -
    from that(1) have "i < unat (Page_id p) \<or> unat (Page_id p) < i" by linarith
    then have "i * 4096 + 4096 \<le> ?pos \<or> ?pos + 4096 \<le> i * 4096" by linarith
    with that(2) patch_frame [of "i * 4096" 4096 ?pos "page_image p" "content s"] show ?thesis
      by (simp add: r(1) s'(3) length_page_image [OF assms(2)])
  qed
  have fields: "Page_id p' = Page_id p" "Page_type p' = Page_type p" "Page_payload p' = Page_payload p"
    "ph_generation (pg_header p') = ph_generation (pg_header p)" "\<not> pg_dirty p'"
    by (simp_all add: p'_def Page_id_def Page_type_def Page_payload_def Page_setDirty_def
        Page_setGeneration_def Page_new_def PageHeader_make_def size_consts)
  from s'(1) r(2) fields frame show ?thesis by blast
qed

definition sample_file :: dbstate where
  "sample_file =
     (\<lparr>files = (\<lambda>_. Some []), openable = (\<lambda>_. True)\<rparr>,
      \<lparr>df_path = ''db'',
       df_stream = \<lparr>fs_open = True, fs_path = ''db'', fs_pos = 0, fs_eof = False, fs_fail = False\<rparr>,
       df_size = 0\<rparr>)"

lemma sample_file_stream [simp]:
  "df_path (snd sample_file) = ''db''" "content sample_file = []" "file_ok sample_file"
  by (simp_all add: sample_file_def content_def stream_bytes_def file_ok_def)

theorem page_write_read_back_witness:
  "\<exists>s' s'' p'. writePage (Page_new 9 PageType_Data) sample_file = (Inr (), s') \<and>
    readPage (replicate 64 0) (s', Page_new 9 PageType_Data) = (Inr (), (s'', p')) \<and> Page_type p' = PageType_Data"
proof -
  have "page_wf (Page_new 9 PageType_Data)" "PageHeader_isValid (pg_header (Page_new 9 PageType_Data))"
    "Page_id (Page_new 9 PageType_Data) = 9" "Page_type (Page_new 9 PageType_Data) = PageType_Data"
    by (simp_all add: page_wf_def kPageSize_def Page_new_def PageHeader_isValid_def PageHeader_make_def
        Page_id_def Page_type_def header_wf_def)
  with page_write_read_back [of sample_file "Page_new 9 PageType_Data" "Page_new 9 PageType_Data" "replicate 64 0"]
  show ?thesis by (auto simp: kInvalidPageId_def)
qed



end
