(* ===== verification/Key.thy ===== *)
theory Key
  imports Storage "HOL-Library.List_Lexorder"
begin

unbundle bit_operations_syntax

text \<open>
  Keys of the B-tree (Key.h, Key.cpp, BTreeTypes.h), their comparison and its total order, the
  binary searches over ordered key vectors (KeyComparator.h), page references
  (PageReference.h), and the byte images of keys and references with the readers that undo them.
\<close>

section \<open>Page references\<close>

record page_ref =
  pr_pageId :: PageId
  pr_generation :: u64
  pr_pageType :: u8
  pr_flags :: u8
  pr_reserved1 :: u16
  pr_checksum :: u32

definition PageReference_make :: "PageId \<Rightarrow> u64 \<Rightarrow> u8 \<Rightarrow> page_ref" where
  "PageReference_make pid gen type =
     \<lparr>pr_pageId = pid, pr_generation = gen, pr_pageType = type, pr_flags = 0, pr_reserved1 = 0,
      pr_checksum = 0\<rparr>"

definition PageReference_invalid :: page_ref where
  "PageReference_invalid = PageReference_make kInvalidPageId 0 0"

definition PageReference_isValid :: "page_ref \<Rightarrow> bool" where
  "PageReference_isValid r \<longleftrightarrow> pr_pageId r \<noteq> kInvalidPageId"

text \<open>\<^verbatim>\<open>operator==\<close> ignores the reserved field and the checksum.\<close>

abbreviation PageReference_eq :: "page_ref \<Rightarrow> page_ref \<Rightarrow> bool" where
  "PageReference_eq a b \<equiv> pr_pageId a = pr_pageId b \<and> pr_generation a = pr_generation b \<and>
     pr_pageType a = pr_pageType b \<and> pr_flags a = pr_flags b"

definition page_ref_image :: "page_ref \<Rightarrow> u8 list" where
  "page_ref_image r =
     mem (pr_pageId r) @ mem (pr_generation r) @ mem (pr_pageType r) @ mem (pr_flags r) @
     mem (pr_reserved1 r) @ mem (pr_checksum r)"

definition page_ref_of :: "u8 list \<Rightarrow> page_ref" where
  "page_ref_of bs =
     \<lparr>pr_pageId = unmem (take 4 bs), pr_generation = unmem (take 8 (drop 4 bs)),
      pr_pageType = unmem (take 1 (drop 12 bs)), pr_flags = unmem (take 1 (drop 13 bs)),
      pr_reserved1 = unmem (take 2 (drop 14 bs)), pr_checksum = unmem (take 4 (drop 16 bs))\<rparr>"

definition PageReference_kSize :: nat where "PageReference_kSize = 20"

definition write_ref :: "page_ref \<Rightarrow> (writer, unit) op" where
  "write_ref r = writeBytes (page_ref_image r)"

definition read_ref :: "(reader, page_ref) op" where
  "read_ref = bindS (readBytes PageReference_kSize) (\<lambda>bs. ret (page_ref_of bs))"

section \<open>Types of the B-tree\<close>

definition kNodeBodyMagic :: u32 where "kNodeBodyMagic = 0x45525442"
definition kMaxBinaryKeySize :: u16 where "kMaxBinaryKeySize = 256"

text \<open>Enumerations with a fixed underlying type, read from disk by a cast.\<close>

type_synonym KeyType = u8

definition KeyType_UInt32 :: KeyType where "KeyType_UInt32 = 1"
definition KeyType_UInt64 :: KeyType where "KeyType_UInt64 = 2"
definition KeyType_Binary :: KeyType where "KeyType_Binary = 3"

type_synonym NodeType = u32

definition NodeType_Leaf :: NodeType where "NodeType_Leaf = 1"
definition NodeType_Internal :: NodeType where "NodeType_Internal = 2"

definition NodeFlags_AllowDuplicates :: u32 where "NodeFlags_AllowDuplicates = 1"

record node_config =
  keyType :: KeyType
  binaryKeySize :: u16
  allowDuplicates :: bool
  level :: u32

definition BTreeNodeConfig :: node_config where
  "BTreeNodeConfig = \<lparr>keyType = KeyType_UInt32, binaryKeySize = 0, allowDuplicates = False, level = 0\<rparr>"

definition minKeyCount :: "u32 \<Rightarrow> bool \<Rightarrow> u32" where
  "minKeyCount capacity isRoot = (if isRoot then 0 else capacity div 2)"

definition isUnderfull :: "u32 \<Rightarrow> u32 \<Rightarrow> bool \<Rightarrow> bool" where
  "isUnderfull keyCount capacity isRoot \<longleftrightarrow> \<not> isRoot \<and> keyCount < minKeyCount capacity False"

section \<open>Keys\<close>

text \<open>
  The tag and the union of a key: one constructor per tag. The payload of a binary key is at
  most \<open>kMaxBinaryKeySize\<close> bytes, the size of the array in the union.
\<close>

datatype key = UInt32 u32 | UInt64 u64 | Binary "u8 list"

definition key_wf :: "key \<Rightarrow> bool" where
  "key_wf k = (case k of Binary bs \<Rightarrow> length bs \<le> 256 | _ \<Rightarrow> True)"

definition fromUInt32 :: "u32 \<Rightarrow> key" where "fromUInt32 v = UInt32 v"
definition fromUInt64 :: "u64 \<Rightarrow> key" where "fromUInt64 v = UInt64 v"
definition fromBinary :: "u8 list \<Rightarrow> key" where "fromBinary bs = Binary bs"

definition key_type :: "key \<Rightarrow> KeyType" where
  "key_type k =
     (case k of UInt32 _ \<Rightarrow> KeyType_UInt32 | UInt64 _ \<Rightarrow> KeyType_UInt64 | Binary _ \<Rightarrow> KeyType_Binary)"

text \<open>The loop over the common prefix of two binary keys.\<close>

fun compareLoop :: "u8 list \<Rightarrow> u8 list \<Rightarrow> int" where
  "compareLoop (x # xs) (y # ys) = (if x < y then - 1 else if x > y then 1 else compareLoop xs ys)"
| "compareLoop _ _ = 0"

definition key_compare :: "key \<Rightarrow> key \<Rightarrow> int" where
  "key_compare a b =
     (if key_type a \<noteq> key_type b
      then if uint (key_type a) < uint (key_type b) then - 1 else 1
      else case (a, b) of
        (UInt32 x, UInt32 y) \<Rightarrow> if x < y then - 1 else if x > y then 1 else 0
      | (UInt64 x, UInt64 y) \<Rightarrow> if x < y then - 1 else if x > y then 1 else 0
      | (Binary xs, Binary ys) \<Rightarrow>
          if compareLoop xs ys \<noteq> 0 then compareLoop xs ys
          else if length xs < length ys then - 1
          else if length xs > length ys then 1
          else 0
      | _ \<Rightarrow> 0)"

definition key_equal :: "key \<Rightarrow> key \<Rightarrow> bool" where "key_equal a b \<longleftrightarrow> key_compare a b = 0"
definition key_less :: "key \<Rightarrow> key \<Rightarrow> bool" where "key_less a b \<longleftrightarrow> key_compare a b < 0"
definition key_lessEqual :: "key \<Rightarrow> key \<Rightarrow> bool" where "key_lessEqual a b \<longleftrightarrow> key_compare a b \<le> 0"

definition serializedSize :: "key \<Rightarrow> nat" where
  "serializedSize k =
     (case k of UInt32 _ \<Rightarrow> 1 + 4 | UInt64 _ \<Rightarrow> 1 + 8 | Binary bs \<Rightarrow> 1 + 2 + length bs)"

definition key_serialize :: "key \<Rightarrow> (writer, unit) op" where
  "key_serialize k =
     thenS (write_word (key_type k))
       (case k of
          UInt32 v \<Rightarrow> write_word v
        | UInt64 v \<Rightarrow> write_word v
        | Binary bs \<Rightarrow>
            thenS (write_word (of_nat (length bs) :: u16))
              (if length bs > 0 then writeBytes bs else ret ()))"

definition key_deserialize :: "u16 \<Rightarrow> (reader, key) op" where
  "key_deserialize binarySize =
     bindS read_word (\<lambda>typeByte.
       if typeByte = KeyType_UInt32 then bindS read_word (\<lambda>v. ret (UInt32 v))
       else if typeByte = KeyType_UInt64 then bindS read_word (\<lambda>v. ret (UInt64 v))
       else if typeByte = KeyType_Binary
       then bindS read_word (\<lambda>size.
         if binarySize > 0 \<and> size \<noteq> binarySize
         then fail (corruption ''Key: binary key size mismatch'')
         else if size > kMaxBinaryKeySize
         then fail (corruption ''Key: binary key exceeds maximum size'')
         else if size > 0 then bindS (readBytes (unat size)) (\<lambda>bs. ret (Binary bs))
         else ret (Binary []))
       else fail (corruption ''Key: unknown key type''))"

fun join_bytes :: "u8 list \<Rightarrow> string" where
  "join_bytes [] = ''''"
| "join_bytes [b] = to_string (unat b)"
| "join_bytes (b # bs) = to_string (unat b) @ '','' @ join_bytes bs"

definition key_toString :: "key \<Rightarrow> string" where
  "key_toString k =
     (case k of
        UInt32 v \<Rightarrow> ''Key(u32:'' @ to_string (unat v) @ '')''
      | UInt64 v \<Rightarrow> ''Key(u64:'' @ to_string (unat v) @ '')''
      | Binary bs \<Rightarrow> ''Key(bin:'' @ to_string (length bs) @ '':['' @ join_bytes bs @ ''])'')"

text \<open>One step of the hash; \<^verbatim>\<open>size_t\<close> has 64 bits.\<close>

abbreviation hash_step :: "u64 \<Rightarrow> u64 \<Rightarrow> u64" where
  "hash_step h v \<equiv> h XOR (v + 0x9e3779b9 + push_bit 6 h + drop_bit 2 h)"

definition key_hash :: "key \<Rightarrow> u64" where
  "key_hash k =
     (let h = ucast (key_type k)
      in case k of
           UInt32 v \<Rightarrow> hash_step h (ucast v)
         | UInt64 v \<Rightarrow> hash_step h v
         | Binary bs \<Rightarrow> foldl (\<lambda>h b. hash_step h (ucast b)) h bs)"

section \<open>Searching ordered keys\<close>

text \<open>The loop of both binary searches; \<open>right i\<close> tells whether to continue right of \<open>i\<close>.\<close>

function searchLoop :: "(nat \<Rightarrow> bool) \<Rightarrow> nat \<Rightarrow> nat \<Rightarrow> nat" where
  "searchLoop right lo hi =
     (if lo < hi
      then let mid = lo + (hi - lo) div 2
           in if right mid then searchLoop right (mid + 1) hi else searchLoop right lo mid
      else lo)"
  by pat_completeness auto
termination
  by (relation "measure (\<lambda>(right, lo, hi). hi - lo)") auto

declare searchLoop.simps [simp del]

definition lowerBound :: "key list \<Rightarrow> key \<Rightarrow> nat" where
  "lowerBound ks k = searchLoop (\<lambda>i. key_less (ks ! i) k) 0 (length ks)"

definition upperBound :: "key list \<Rightarrow> key \<Rightarrow> nat" where
  "upperBound ks k = searchLoop (\<lambda>i. key_lessEqual (ks ! i) k) 0 (length ks)"

definition findKey :: "key list \<Rightarrow> key \<Rightarrow> nat" where
  "findKey ks k =
     (let pos = lowerBound ks k
      in if pos < length ks \<and> key_equal (ks ! pos) k then pos else length ks)"

section \<open>The order of keys\<close>

lemma compareLoop_lex:
  "(if compareLoop xs ys \<noteq> 0 then compareLoop xs ys
    else if length xs < length ys then - 1 else if length xs > length ys then 1 else 0) =
   (if xs < ys then - 1 else if ys < xs then 1 else (0 :: int))"
proof (induction xs ys rule: compareLoop.induct, goal_cases)
  case (2 ys)
  then show ?case by (cases ys) auto
next
  case (3 xs)
  then show ?case by (cases xs) auto
qed (auto split: if_splits)

lemma key_type_simps:
  "key_type (UInt32 a) = 1" "key_type (UInt64 b) = 2" "key_type (Binary bs) = 3"
  by (simp_all add: key_type_def KeyType_UInt32_def KeyType_UInt64_def KeyType_Binary_def)

lemma key_compare_binary:
  "key_compare (Binary xs) (Binary ys) = (if xs < ys then - 1 else if ys < xs then 1 else 0)"
  unfolding compareLoop_lex [symmetric] by (simp add: key_compare_def key_type_simps)

lemma key_compare_simps [simp]:
  "key_compare (UInt32 a) (UInt32 b) = (if a < b then - 1 else if b < a then 1 else 0)"
  "key_compare (UInt64 c) (UInt64 d) = (if c < d then - 1 else if d < c then 1 else 0)"
  "key_compare (Binary xs) (Binary ys) = (if xs < ys then - 1 else if ys < xs then 1 else 0)"
  "key_compare (UInt32 a) (UInt64 d) = - 1" "key_compare (UInt64 c) (UInt32 b) = 1"
  "key_compare (UInt32 a) (Binary ys) = - 1" "key_compare (Binary xs) (UInt32 b) = 1"
  "key_compare (UInt64 c) (Binary ys) = - 1" "key_compare (Binary xs) (UInt64 d) = 1"
  by (simp_all only: key_compare_binary) (simp_all add: key_compare_def key_type_simps)

lemma key_compare_zero: "key_compare a b = 0 \<longleftrightarrow> a = b"
  by (cases a; cases b) auto

lemma key_compare_swap: "key_compare b a = - key_compare a b"
  by (cases a; cases b) auto

lemma key_compare_trans:
  "key_compare a b \<le> 0 \<Longrightarrow> key_compare b c \<le> 0 \<Longrightarrow> key_compare a c \<le> 0"
  by (cases a; cases b; cases c) (auto split: if_splits)

instantiation key :: linorder
begin

definition less_eq_key :: "key \<Rightarrow> key \<Rightarrow> bool" where
  "less_eq_key a b \<longleftrightarrow> key_compare a b \<le> 0"

definition less_key :: "key \<Rightarrow> key \<Rightarrow> bool" where
  "less_key a b \<longleftrightarrow> key_compare a b < 0"

instance
proof
  fix a b c :: key
  show "a < b \<longleftrightarrow> a \<le> b \<and> \<not> b \<le> a"
    using key_compare_swap [of a b] by (auto simp: less_eq_key_def less_key_def)
  show "a \<le> a" by (simp add: less_eq_key_def key_compare_zero [THEN iffD2])
  show "a \<le> b \<Longrightarrow> b \<le> c \<Longrightarrow> a \<le> c" by (auto simp: less_eq_key_def dest: key_compare_trans)
  show "a \<le> b \<Longrightarrow> b \<le> a \<Longrightarrow> a = b"
    using key_compare_swap [of a b] key_compare_zero [of a b] by (auto simp: less_eq_key_def)
  show "a \<le> b \<or> b \<le> a" using key_compare_swap [of a b] by (auto simp: less_eq_key_def)
qed

end

lemma key_rel [simp]: "key_less a b \<longleftrightarrow> a < b" "key_lessEqual a b \<longleftrightarrow> a \<le> b" "key_equal a b \<longleftrightarrow> a = b"
  by (simp_all add: key_less_def key_lessEqual_def key_equal_def less_key_def less_eq_key_def
      key_compare_zero)

section \<open>Correctness of the searches\<close>

lemma searchLoop_spec:
  assumes "lo \<le> hi" "\<And>i j. i \<le> j \<Longrightarrow> j < hi \<Longrightarrow> right j \<Longrightarrow> right i"
  shows "lo \<le> searchLoop right lo hi \<and> searchLoop right lo hi \<le> hi \<and>
    (\<forall>i. lo \<le> i \<and> i < searchLoop right lo hi \<longrightarrow> right i) \<and>
    (\<forall>i. searchLoop right lo hi \<le> i \<and> i < hi \<longrightarrow> \<not> right i)"
  using assms
proof (induction right lo hi rule: searchLoop.induct)
  case (1 right lo hi)
  define mid where "mid = lo + (hi - lo) div 2"
  show ?case
  proof (cases "lo < hi")
    case False
    then have eq: "searchLoop right lo hi = lo" by (simp add: searchLoop.simps [of right lo hi])
    show ?thesis unfolding eq using False "1.prems"(1) by auto
  next
    case True
    then have mid: "lo \<le> mid" "mid < hi" by (auto simp: mid_def)
    show ?thesis
    proof (cases "right mid")
      case T: True
      have eq: "searchLoop right lo hi = searchLoop right (mid + 1) hi"
        using True T by (simp add: searchLoop.simps [of right lo hi] mid_def Let_def)
      have IH: "mid + 1 \<le> searchLoop right (mid + 1) hi \<and> searchLoop right (mid + 1) hi \<le> hi \<and>
          (\<forall>i. mid + 1 \<le> i \<and> i < searchLoop right (mid + 1) hi \<longrightarrow> right i) \<and>
          (\<forall>i. searchLoop right (mid + 1) hi \<le> i \<and> i < hi \<longrightarrow> \<not> right i)"
        using "1.IH"(1) [OF True mid_def] T mid "1.prems"(2) by auto
      have "right i" if "i \<le> mid" for i using "1.prems"(2) [OF that mid(2) T] .
      then have "\<forall>i. lo \<le> i \<and> i < searchLoop right (mid + 1) hi \<longrightarrow> right i"
        using IH by (metis not_less_eq_eq Suc_eq_plus1)
      with IH mid show ?thesis unfolding eq by auto
    next
      case F: False
      have eq: "searchLoop right lo hi = searchLoop right lo mid"
        using True F by (simp add: searchLoop.simps [of right lo hi] mid_def Let_def)
      have IH: "lo \<le> searchLoop right lo mid \<and> searchLoop right lo mid \<le> mid \<and>
          (\<forall>i. lo \<le> i \<and> i < searchLoop right lo mid \<longrightarrow> right i) \<and>
          (\<forall>i. searchLoop right lo mid \<le> i \<and> i < mid \<longrightarrow> \<not> right i)"
        using "1.IH"(2) [OF True mid_def] F mid "1.prems"(2) by auto
      have "\<not> right i" if "mid \<le> i" "i < hi" for i using "1.prems"(2) [OF that] F by blast
      with IH mid show ?thesis unfolding eq by (metis less_imp_le not_le order_trans)
    qed
  qed
qed

lemma lowerBound_spec:
  assumes "sorted ks"
  shows "lowerBound ks k \<le> length ks" "\<forall>i < lowerBound ks k. ks ! i < k"
    "\<forall>i. lowerBound ks k \<le> i \<and> i < length ks \<longrightarrow> k \<le> ks ! i"
proof -
  have "ks ! i < k" if "i \<le> j" "j < length ks" "ks ! j < k" for i j
    using sorted_nth_mono [OF assms that(1,2)] that(3) by (rule le_less_trans)
  then have "0 \<le> lowerBound ks k \<and> lowerBound ks k \<le> length ks \<and>
      (\<forall>i. 0 \<le> i \<and> i < lowerBound ks k \<longrightarrow> ks ! i < k) \<and>
      (\<forall>i. lowerBound ks k \<le> i \<and> i < length ks \<longrightarrow> \<not> ks ! i < k)"
    unfolding lowerBound_def key_rel by (intro searchLoop_spec) auto
  then show "lowerBound ks k \<le> length ks" "\<forall>i < lowerBound ks k. ks ! i < k"
    "\<forall>i. lowerBound ks k \<le> i \<and> i < length ks \<longrightarrow> k \<le> ks ! i" by auto
qed

lemma upperBound_spec:
  assumes "sorted ks"
  shows "upperBound ks k \<le> length ks" "\<forall>i < upperBound ks k. ks ! i \<le> k"
    "\<forall>i. upperBound ks k \<le> i \<and> i < length ks \<longrightarrow> k < ks ! i"
proof -
  have "ks ! i \<le> k" if "i \<le> j" "j < length ks" "ks ! j \<le> k" for i j
    using sorted_nth_mono [OF assms that(1,2)] that(3) by (rule order_trans)
  then have "0 \<le> upperBound ks k \<and> upperBound ks k \<le> length ks \<and>
      (\<forall>i. 0 \<le> i \<and> i < upperBound ks k \<longrightarrow> ks ! i \<le> k) \<and>
      (\<forall>i. upperBound ks k \<le> i \<and> i < length ks \<longrightarrow> \<not> ks ! i \<le> k)"
    unfolding upperBound_def key_rel by (intro searchLoop_spec) auto
  then show "upperBound ks k \<le> length ks" "\<forall>i < upperBound ks k. ks ! i \<le> k"
    "\<forall>i. upperBound ks k \<le> i \<and> i < length ks \<longrightarrow> k < ks ! i" by auto
qed

text \<open>The split of a sorted vector at the lower bound.\<close>

lemma lowerBound_split:
  assumes "sorted ks"
  shows "\<forall>x \<in> set (take (lowerBound ks k) ks). x < k" "\<forall>x \<in> set (drop (lowerBound ks k) ks). k \<le> x"
  using lowerBound_spec [OF assms, of k] by (auto simp: in_set_conv_nth)

lemma nth_mem_eq: "i < length xs \<Longrightarrow> xs ! i = x \<Longrightarrow> x \<in> set xs"
  by (auto simp: in_set_conv_nth)

lemma findKey_iff:
  assumes "sorted ks"
  shows "findKey ks k < length ks \<longleftrightarrow> k \<in> set ks"
    "k \<in> set ks \<Longrightarrow> ks ! findKey ks k = k \<and> findKey ks k = lowerBound ks k"
proof -
  note lb = lowerBound_spec [OF assms, of k]
  have *: "lowerBound ks k < length ks \<and> ks ! lowerBound ks k = k" if "k \<in> set ks"
  proof -
    from that obtain i where i: "i < length ks" "ks ! i = k" by (auto simp: in_set_conv_nth)
    then have "lowerBound ks k \<le> i" using lb(2) by (metis less_irrefl not_le)
    with i sorted_nth_mono [OF assms this i(1)] lb(3) show ?thesis
      by (metis antisym le_less_trans order_refl)
  qed
  then show "findKey ks k < length ks \<longleftrightarrow> k \<in> set ks"
    by (auto simp: findKey_def Let_def intro: nth_mem_eq)
  show "k \<in> set ks \<Longrightarrow> ks ! findKey ks k = k \<and> findKey ks k = lowerBound ks k"
    using * by (auto simp: findKey_def Let_def)
qed

section \<open>Images of references and keys\<close>

lemma length_page_ref_image [simp]: "length (page_ref_image r) = 20"
  by (simp add: page_ref_image_def)

lemma page_ref_round_trip [simp]: "page_ref_of (page_ref_image r) = r"
  by (rule page_ref.equality) (simp_all add: page_ref_of_def page_ref_image_def)

interpretation refc: codec page_ref_image read_ref "\<lambda>_. True"
proof unfold_locales
  fix r x rest
  assume r: "reader_wf r" and a: "ahead r = page_ref_image x @ rest"
  have "readBytes 20 r = (Inr (page_ref_image x), advance 20 r)"
    by (rule readBytes_ahead [OF r a]) simp
  then show "read_ref r = (Inr x, advance (length (page_ref_image x)) r)"
    by (simp add: read_ref_def PageReference_kSize_def)
qed

definition key_image :: "key \<Rightarrow> u8 list" where
  "key_image k =
     mem (key_type k) @
     (case k of UInt32 v \<Rightarrow> mem v | UInt64 v \<Rightarrow> mem v
      | Binary bs \<Rightarrow> mem (of_nat (length bs) :: u16) @ bs)"

text \<open>The binary keys a reader configured for a fixed size accepts; 0 accepts every size.\<close>

definition key_fits :: "u16 \<Rightarrow> key \<Rightarrow> bool" where
  "key_fits n k \<longleftrightarrow> key_wf k \<and> (case k of Binary bs \<Rightarrow> n = 0 \<or> length bs = unat n | _ \<Rightarrow> True)"

lemma length_key_image: "length (key_image k) = serializedSize k"
  by (cases k) (simp_all add: key_image_def serializedSize_def)

lemma key_image_step:
  assumes "reader_wf r" "ahead r = mem (w :: 'a::len word) @ rest" "8 dvd LENGTH('a)"
  shows "read_word r = (Inr w, advance (LENGTH('a) div 8) r)" "reader_wf (advance (LENGTH('a) div 8) r)"
    "ahead (advance (LENGTH('a) div 8) r) = rest"
  using read_word_image [OF assms] assms(1,2) by (auto intro: reader_wf_advance)

interpretation keyc: codec key_image "key_deserialize n" "key_fits n" for n
proof unfold_locales
  fix r k rest
  assume r: "reader_wf r" and k: "key_fits n k" and a: "ahead r = key_image k @ rest"
  have dvd: "8 dvd LENGTH(8)" "8 dvd LENGTH(16)" "8 dvd LENGTH(32)" "8 dvd LENGTH(64)" by simp_all
  show "key_deserialize n r = (Inr k, advance (length (key_image k)) r)"
  proof (cases k)
    case (UInt32 v)
    with a have a1: "ahead r = mem (1 :: u8) @ (mem v @ rest)" by (simp add: key_image_def key_type_simps)
    note s1 = key_image_step [OF r a1 dvd(1)]
    note s2 = key_image_step [OF s1(2,3) dvd(3)]
    from s1(1) s2(1) UInt32 show ?thesis
      by (simp add: key_deserialize_def KeyType_UInt32_def length_key_image serializedSize_def)
  next
    case (UInt64 v)
    with a have a1: "ahead r = mem (2 :: u8) @ (mem v @ rest)" by (simp add: key_image_def key_type_simps)
    note s1 = key_image_step [OF r a1 dvd(1)]
    note s2 = key_image_step [OF s1(2,3) dvd(4)]
    from s1(1) s2(1) UInt64 show ?thesis
      by (simp add: key_deserialize_def KeyType_UInt32_def KeyType_UInt64_def length_key_image serializedSize_def)
  next
    case (Binary bs)
    then have len: "length bs \<le> 256" "n = 0 \<or> length bs = unat n" using k by (auto simp: key_fits_def key_wf_def)
    then have u: "unat (of_nat (length bs) :: u16) = length bs" by (simp add: unat_of_nat)
    have n: "\<not> (n > 0 \<and> of_nat (length bs) \<noteq> n)" using len(2) by (auto simp: word_neq_0_conv)
    have m: "\<not> of_nat (length bs) > kMaxBinaryKeySize"
      using len(1) u by (simp add: kMaxBinaryKeySize_def word_less_nat_alt)
    have z: "(of_nat (length bs) :: u16) > 0 \<longleftrightarrow> bs \<noteq> []" using u by (auto simp: word_less_nat_alt)
    from Binary a have a1: "ahead r = mem (3 :: u8) @ (mem (of_nat (length bs) :: u16) @ bs @ rest)"
      by (simp add: key_image_def key_type_simps)
    note s1 = key_image_step [OF r a1 dvd(1)]
    note s2 = key_image_step [OF s1(2,3) dvd(2)]
    note s3 = readBytes_ahead [OF s2(2,3) refl]
    from s1(1) s2(1) s3 Binary n m z u show ?thesis
      by (cases "bs = []")
        (simp_all add: key_deserialize_def KeyType_UInt32_def KeyType_UInt64_def KeyType_Binary_def
          length_key_image serializedSize_def)
  qed
qed



text \<open>
  C16. The binary searches are correct: on an ordered vector the lower (upper) bound is at most
  the size, everything before it is smaller than (at most) the key and everything from it on is
  at least (greater than) the key; \<^verbatim>\<open>find\<close> returns the position of the key, or the size exactly if
  the key is absent.
\<close>

theorem key_searches_correct:
  assumes "sorted ks"
  shows "(\<forall>i < length ks. i < lowerBound ks k \<longleftrightarrow> ks ! i < k) \<and> lowerBound ks k \<le> length ks \<and>
    (\<forall>i < length ks. i < upperBound ks k \<longleftrightarrow> ks ! i \<le> k) \<and> upperBound ks k \<le> length ks \<and>
    (if k \<in> set ks then findKey ks k < length ks \<and> ks ! findKey ks k = k
     else findKey ks k = length ks)"
proof -
  have "findKey ks k \<le> length ks" by (simp add: findKey_def Let_def)
  moreover have "\<forall>i < length ks. i < lowerBound ks k \<longleftrightarrow> ks ! i < k"
    using lowerBound_spec(2,3) [OF assms, of k] by (meson leD linorder_le_less_linear)
  moreover have "\<forall>i < length ks. i < upperBound ks k \<longleftrightarrow> ks ! i \<le> k"
    using upperBound_spec(2,3) [OF assms, of k] by (meson leD linorder_le_less_linear)
  ultimately show ?thesis
    using lowerBound_spec(1) [OF assms, of k] upperBound_spec(1) [OF assms, of k] findKey_iff [OF assms, of k]
    by auto
qed

theorem key_searches_correct_witness:
  "findKey [UInt32 2, UInt32 5, UInt64 1] (UInt32 5) < 3 \<and>
   findKey [UInt32 2, UInt32 5, UInt64 1] (UInt32 4) = 3"
proof -
  have "sorted [UInt32 2, UInt32 5, UInt64 1]" by (simp add: less_eq_key_def)
  from key_searches_correct [OF this, of "UInt32 5"] key_searches_correct [OF this, of "UInt32 4"]
  show ?thesis by simp
qed

text \<open>
  A key is read back from its image: for a key that fits the configured binary size, the
  reader returns the key and consumes exactly \<^verbatim>\<open>serializedSize\<close> bytes, so the images of a sequence of
  keys can be concatenated without separators.
\<close>

theorem keys_read_back:
  assumes "\<forall>k \<in> set ks. key_fits n k" "length (concat (map key_image ks) @ rest) < 2 ^ 64"
  shows "\<exists>r. readMany (key_deserialize n) (length ks) (mkReader (concat (map key_image ks) @ rest) ord) = (Inr ks, r) \<and>
    ahead r = rest \<and> roffset r = (\<Sum>k\<leftarrow>ks. serializedSize k)"
proof -
  have "length (concat (map key_image ks)) = (\<Sum>k\<leftarrow>ks. serializedSize k)"
    by (induction ks) (simp_all add: length_key_image)
  moreover have "reader_wf (mkReader (concat (map key_image ks) @ rest) ord)" using assms(2) by simp
  note keyc.readMany_image [OF this assms(1), of rest]
  ultimately show ?thesis by (auto simp: advance_def mkReader_def ahead_def)
qed

end
