(* ===== verification/Format.thy ===== *)
theory Format
  imports Storage
begin

unbundle bit_operations_syntax

text \<open>
  The file format (src/include/quartz/format, src/src/format): magic numbers, versions, feature
  flags, object identifiers and their text form, the database header, the superblock, the
  metadata and schema descriptors, the compatibility rules and the format validator.
\<close>

section \<open>Magic numbers and versions\<close>

abbreviation kDatabaseMagic :: u32 where "kDatabaseMagic \<equiv> 0x51444231"
abbreviation kSuperblockMagic :: u32 where "kSuperblockMagic \<equiv> 0x51444253"
abbreviation kPageMagic :: u32 where "kPageMagic \<equiv> 0x50475132"
abbreviation kFreeListMagic :: u32 where "kFreeListMagic \<equiv> 0x464C5133"
abbreviation kMetadataMagic :: u32 where "kMetadataMagic \<equiv> 0x4D445134"
abbreviation kJournalMagic :: u32 where "kJournalMagic \<equiv> 0x4A524E35"
abbreviation kFormatMagicV1 :: u32 where "kFormatMagicV1 \<equiv> 0x51444231"
abbreviation kFormatMagicV2 :: u32 where "kFormatMagicV2 \<equiv> 0x51444232"

abbreviation MagicNumbers_isValid :: "u32 \<Rightarrow> bool" where
  "MagicNumbers_isValid v \<equiv> v = kFormatMagicV1 \<or> v = kFormatMagicV2"

abbreviation MagicNumbers_isRecognized :: "u32 \<Rightarrow> bool" where
  "MagicNumbers_isRecognized v \<equiv> v = kDatabaseMagic \<or> v = kSuperblockMagic \<or>
     v = kPageMagic \<or> v = kFreeListMagic \<or> v = kMetadataMagic \<or> v = kJournalMagic"

abbreviation kMajorVersion :: u32 where "kMajorVersion \<equiv> 1"
abbreviation kMinorVersion :: u32 where "kMinorVersion \<equiv> 0"
abbreviation kPatchVersion :: u32 where "kPatchVersion \<equiv> 0"

record format_version =
  v_major :: u32
  v_minor :: u32
  v_patch :: u32

abbreviation Version_isCompatible :: "format_version \<Rightarrow> format_version \<Rightarrow> bool" where
  "Version_isCompatible v required \<equiv> v_major v = v_major required \<and> v_minor v \<ge> v_minor required"

abbreviation Versioning_current :: format_version where
  "Versioning_current \<equiv> \<lparr>v_major = kMajorVersion, v_minor = kMinorVersion, v_patch = kPatchVersion\<rparr>"

definition Versioning_validate :: "format_version \<Rightarrow> status + unit" where
  "Versioning_validate v =
     (if v_major v \<noteq> kMajorVersion
      then Inl (invalidArgument (''Version major mismatch: expected '' @ to_string (unat kMajorVersion) @
             '', got '' @ to_string (unat (v_major v))))
      else if v_minor v > kMinorVersion
      then Inl (invalidArgument (''Version minor too new: reader supports up to '' @
             to_string (unat kMinorVersion) @ '', got '' @ to_string (unat (v_minor v))))
      else Inr ())"

abbreviation Versioning_isReadable :: "format_version \<Rightarrow> format_version \<Rightarrow> bool" where
  "Versioning_isReadable writerVersion readerVersion \<equiv>
     v_major writerVersion = v_major readerVersion \<and> v_minor writerVersion \<le> v_minor readerVersion"

abbreviation Versioning_toString :: "format_version \<Rightarrow> string" where
  "Versioning_toString v \<equiv>
     to_string (unat (v_major v)) @ ''.'' @ to_string (unat (v_minor v)) @ ''.'' @ to_string (unat (v_patch v))"

abbreviation encodeVersion :: "u32 \<Rightarrow> u32 \<Rightarrow> u32" where
  "encodeVersion major minor \<equiv> (push_bit 16 major) OR (minor AND 0xFFFF)"

abbreviation decodeVersion :: "u32 \<Rightarrow> format_version" where
  "decodeVersion e \<equiv> \<lparr>v_major = drop_bit 16 e, v_minor = e AND 0xFFFF, v_patch = 0\<rparr>"

section \<open>Feature flags\<close>

type_synonym feature_flags = u64

abbreviation kChecksums :: feature_flags where "kChecksums \<equiv> push_bit 0 1"
abbreviation kCompression :: feature_flags where "kCompression \<equiv> push_bit 1 1"
abbreviation kEncryption :: feature_flags where "kEncryption \<equiv> push_bit 2 1"
abbreviation kJournaling :: feature_flags where "kJournaling \<equiv> push_bit 3 1"
abbreviation kLargePages :: feature_flags where "kLargePages \<equiv> push_bit 4 1"
abbreviation kExtendedIds :: feature_flags where "kExtendedIds \<equiv> push_bit 5 1"
abbreviation kCustomPageSize :: feature_flags where "kCustomPageSize \<equiv> push_bit 6 1"
abbreviation kMetadataRegion :: feature_flags where "kMetadataRegion \<equiv> push_bit 7 1"
abbreviation kUserFlags :: feature_flags where "kUserFlags \<equiv> push_bit 8 1"

abbreviation kReservedMask :: feature_flags where
  "kReservedMask \<equiv> NOT (kChecksums OR kCompression OR kEncryption OR kJournaling OR kLargePages OR
     kExtendedIds OR kCustomPageSize OR kMetadataRegion OR kUserFlags)"

abbreviation FeatureFlags_has :: "feature_flags \<Rightarrow> feature_flags \<Rightarrow> bool" where
  "FeatureFlags_has fs flag \<equiv> fs AND flag = flag"

abbreviation FeatureFlags_hasAny :: "feature_flags \<Rightarrow> feature_flags \<Rightarrow> bool" where
  "FeatureFlags_hasAny fs flag \<equiv> fs AND flag \<noteq> 0"

definition FeatureFlags_set :: "feature_flags \<Rightarrow> feature_flags \<Rightarrow> feature_flags" where
  "FeatureFlags_set flag fs = fs OR flag"

definition FeatureFlags_clear :: "feature_flags \<Rightarrow> feature_flags \<Rightarrow> feature_flags" where
  "FeatureFlags_clear flag fs = fs AND NOT flag"

abbreviation hasReservedBits :: "feature_flags \<Rightarrow> bool" where
  "hasReservedBits fs \<equiv> fs AND kReservedMask \<noteq> 0"

definition FeatureFlags_validate :: "feature_flags \<Rightarrow> status + unit" where
  "FeatureFlags_validate fs =
     (if hasReservedBits fs then Inl (invalidArgument ''FeatureFlags: reserved bits are set'') else Inr ())"

fun append_names :: "(feature_flags \<times> string) list \<Rightarrow> feature_flags \<Rightarrow> string \<times> bool \<Rightarrow> string \<times> bool" where
  "append_names [] fs st = st"
| "append_names ((flag, name) # rest) fs (oss, first) =
     (if FeatureFlags_has fs flag
      then append_names rest fs (oss @ (if \<not> first then ''|'' else []) @ name, False)
      else append_names rest fs (oss, first))"

definition FeatureFlags_toString :: "feature_flags \<Rightarrow> string" where
  "FeatureFlags_toString fs =
     (if fs = 0 then ''none''
      else fst (append_names
        [(kChecksums, ''checksums''), (kCompression, ''compression''), (kEncryption, ''encryption''),
         (kJournaling, ''journaling''), (kLargePages, ''large_pages''), (kExtendedIds, ''extended_ids''),
         (kCustomPageSize, ''custom_page_size''), (kMetadataRegion, ''metadata_region''),
         (kUserFlags, ''user_flags'')] fs ([], True)))"

section \<open>Object identifiers\<close>

text \<open>
  The union of 16 bytes and two 64-bit parts is its 16 bytes; the parts are read from them.
\<close>

type_synonym object_id = "u8 list"

definition ObjectId_nil :: object_id where "ObjectId_nil = replicate 16 0"

abbreviation ObjectId_high :: "object_id \<Rightarrow> u64" where "ObjectId_high i \<equiv> unmem (take 8 i)"
abbreviation ObjectId_low :: "object_id \<Rightarrow> u64" where "ObjectId_low i \<equiv> unmem (take 8 (drop 8 i))"

text \<open>The two draws of the random number generator are arguments.\<close>

definition ObjectId_generate :: "u64 \<Rightarrow> u64 \<Rightarrow> object_id" where
  "ObjectId_generate rng1 rng2 =
     (let i0 = mem rng1 @ mem rng2;
          i1 = i0[8 := (i0 ! 8 AND 0x3F) OR 0x80]
      in i1[6 := (i1 ! 6 AND 0x0F) OR 0x40])"

abbreviation ObjectId_isNil :: "object_id \<Rightarrow> bool" where
  "ObjectId_isNil i \<equiv> ObjectId_high i = 0 \<and> ObjectId_low i = 0"

definition ObjectId_compare :: "object_id \<Rightarrow> object_id \<Rightarrow> int" where
  "ObjectId_compare a b =
     (if ObjectId_high a \<noteq> ObjectId_high b then (if ObjectId_high a < ObjectId_high b then -1 else 1)
      else if ObjectId_low a \<noteq> ObjectId_low b then (if ObjectId_low a < ObjectId_low b then -1 else 1)
      else 0)"

abbreviation ObjectId_eq :: "object_id \<Rightarrow> object_id \<Rightarrow> bool" where
  "ObjectId_eq a b \<equiv> ObjectId_high a = ObjectId_high b \<and> ObjectId_low a = ObjectId_low b"

abbreviation ObjectId_less :: "object_id \<Rightarrow> object_id \<Rightarrow> bool" where
  "ObjectId_less a b \<equiv>
     (if ObjectId_high a \<noteq> ObjectId_high b then ObjectId_high a < ObjectId_high b
      else ObjectId_low a < ObjectId_low b)"

definition hexToNybble :: "char \<Rightarrow> nat option" where
  "hexToNybble c =
     (let n = (of_char c :: nat)
      in if 48 \<le> n \<and> n \<le> 57 then Some (n - 48)
         else if 97 \<le> n \<and> n \<le> 102 then Some (n - 97 + 10)
         else if 65 \<le> n \<and> n \<le> 70 then Some (n - 65 + 10)
         else None)"

text \<open>
  The loop over the characters: position, digits seen so far, and the identifier written so
  far. It stores the high nybble and then ors in the low one.
\<close>

fun parseLoop :: "string \<Rightarrow> nat \<Rightarrow> nat \<Rightarrow> object_id \<Rightarrow> (status + nat) \<times> object_id" where
  "parseLoop [] i hexPos out = (Inr hexPos, out)"
| "parseLoop (c # cs) i hexPos out =
     (if c = CHR ''-'' then parseLoop cs (Suc i) hexPos out
      else case hexToNybble c of
             None \<Rightarrow> (Inl (invalidArgument (''ObjectId: invalid hex character at position '' @ to_string i)), out)
           | Some nybble \<Rightarrow>
               parseLoop cs (Suc i) (Suc hexPos)
                 (if hexPos mod 2 = 0 then out[hexPos div 2 := of_nat (nybble * 16)]
                  else out[hexPos div 2 := (out ! (hexPos div 2)) OR of_nat nybble]))"

definition ObjectId_fromString :: "string \<Rightarrow> (object_id, unit) op" where
  "ObjectId_fromString str out =
     (if length str \<noteq> 36
      then (Inl (invalidArgument ''ObjectId: invalid string length (expected 36)''), out)
      else if str ! 8 \<noteq> CHR ''-'' \<or> str ! 13 \<noteq> CHR ''-'' \<or> str ! 18 \<noteq> CHR ''-'' \<or> str ! 23 \<noteq> CHR ''-''
      then (Inl (invalidArgument ''ObjectId: invalid separator positions''), out)
      else case parseLoop str 0 0 out of
             (Inl st, out') \<Rightarrow> (Inl st, out')
           | (Inr hexPos, out') \<Rightarrow>
               if hexPos \<noteq> 32 then (Inl (corruption ''ObjectId: unexpected hex digit count''), out')
               else (Inr (), out'))"

definition ObjectId_parse :: "string \<Rightarrow> object_id" where
  "ObjectId_parse str =
     (case ObjectId_fromString str ObjectId_nil of (Inl st, _) \<Rightarrow> ObjectId_nil | (Inr _, i) \<Rightarrow> i)"

definition hex_digit :: "u8 \<Rightarrow> char" where
  "hex_digit b = ''0123456789abcdef'' ! unat (b AND 0x0F)"

text \<open>The printing loop; the result starts as 36 hyphens, so a skipped position stays one.\<close>

fun printLoop :: "u8 list \<Rightarrow> nat \<Rightarrow> string" where
  "printLoop [] i = []"
| "printLoop (b # bs) i =
     (if i = 4 \<or> i = 6 \<or> i = 8 \<or> i = 10 then ''-'' else []) @
     [hex_digit (drop_bit 4 b), hex_digit b] @ printLoop bs (Suc i)"

definition ObjectId_toString :: "object_id \<Rightarrow> string" where
  "ObjectId_toString i = printLoop i 0"

section \<open>Database header, superblock and descriptors\<close>

record database_header =
  dh_magic :: u32
  dh_majorVersion :: u32
  dh_minorVersion :: u32
  dh_pageSize :: u32
  dh_databaseId :: object_id
  dh_creationTimestamp :: u64
  dh_modificationTimestamp :: u64
  dh_featureFlags :: feature_flags
  dh_superblockPageId :: u32
  dh_headerChecksum :: u32
  dh_reserved :: "u64 list"

abbreviation DatabaseHeader_zero :: database_header where
  "DatabaseHeader_zero \<equiv> \<lparr>dh_magic = 0, dh_majorVersion = 0, dh_minorVersion = 0, dh_pageSize = 0,
     dh_databaseId = ObjectId_nil, dh_creationTimestamp = 0, dh_modificationTimestamp = 0,
     dh_featureFlags = 0, dh_superblockPageId = 0, dh_headerChecksum = 0, dh_reserved = replicate 8 0\<rparr>"

definition DatabaseHeader_make :: "u64 \<Rightarrow> u64 \<Rightarrow> database_header" where
  "DatabaseHeader_make rng1 rng2 =
     DatabaseHeader_zero\<lparr>dh_magic := kDatabaseMagic, dh_majorVersion := kMajorVersion,
       dh_minorVersion := kMinorVersion, dh_pageSize := of_nat kPageSize,
       dh_databaseId := ObjectId_generate rng1 rng2, dh_superblockPageId := 1\<rparr>"

abbreviation DatabaseHeader_isValid :: "database_header \<Rightarrow> bool" where
  "DatabaseHeader_isValid h \<equiv> dh_magic h = kDatabaseMagic \<and> dh_majorVersion h = kMajorVersion \<and>
     dh_pageSize h = of_nat kPageSize"

abbreviation DatabaseHeader_version :: "database_header \<Rightarrow> format_version" where
  "DatabaseHeader_version h \<equiv> \<lparr>v_major = dh_majorVersion h, v_minor = dh_minorVersion h, v_patch = 0\<rparr>"

text \<open>The packed image of the structure (128 bytes) and the structure of an image.\<close>

definition database_header_image :: "database_header \<Rightarrow> u8 list" where
  "database_header_image h =
     mem (dh_magic h) @ mem (dh_majorVersion h) @ mem (dh_minorVersion h) @ mem (dh_pageSize h) @
     dh_databaseId h @ mem (dh_creationTimestamp h) @ mem (dh_modificationTimestamp h) @
     mem (dh_featureFlags h) @ mem (dh_superblockPageId h) @ mem (dh_headerChecksum h) @
     words_image (dh_reserved h)"

definition database_header_of :: "u8 list \<Rightarrow> database_header" where
  "database_header_of bs =
     \<lparr>dh_magic = unmem (take 4 bs), dh_majorVersion = unmem (take 4 (drop 4 bs)),
      dh_minorVersion = unmem (take 4 (drop 8 bs)), dh_pageSize = unmem (take 4 (drop 12 bs)),
      dh_databaseId = take 16 (drop 16 bs), dh_creationTimestamp = unmem (take 8 (drop 32 bs)),
      dh_modificationTimestamp = unmem (take 8 (drop 40 bs)), dh_featureFlags = unmem (take 8 (drop 48 bs)),
      dh_superblockPageId = unmem (take 4 (drop 56 bs)), dh_headerChecksum = unmem (take 4 (drop 60 bs)),
      dh_reserved = words_of 8 (drop 64 bs)\<rparr>"

record superblock =
  sb_magic :: u32
  sb_databaseId :: object_id
  sb_totalPages :: u64
  sb_allocatedPages :: u64
  sb_freePages :: u64
  sb_reservedPages :: u64
  sb_firstFreePage :: u32
  sb_lastAllocatedPage :: u32
  sb_freeListPage :: u32
  sb_metadataPage :: u32
  sb_featureFlags :: feature_flags
  sb_minReaderVersion :: u32
  sb_reserved :: "u64 list"

abbreviation kInitialFileSize :: nat where "kInitialFileSize \<equiv> kPageSize * 8"

definition Superblock_make :: "object_id \<Rightarrow> superblock" where
  "Superblock_make dbId =
     (let total = of_nat (kInitialFileSize div kPageSize); reservd = ucast kReservedPages
      in \<lparr>sb_magic = kSuperblockMagic, sb_databaseId = dbId, sb_totalPages = total,
          sb_allocatedPages = reservd, sb_freePages = total - reservd, sb_reservedPages = reservd,
          sb_firstFreePage = kReservedPages, sb_lastAllocatedPage = 0, sb_freeListPage = 2,
          sb_metadataPage = 1, sb_featureFlags = 0,
          sb_minReaderVersion = encodeVersion kMajorVersion kMinorVersion, sb_reserved = replicate 6 0\<rparr>)"

abbreviation Superblock_isValid :: "superblock \<Rightarrow> bool" where
  "Superblock_isValid s \<equiv> sb_magic s = kSuperblockMagic"

abbreviation Superblock_isConsistent :: "superblock \<Rightarrow> bool" where
  "Superblock_isConsistent s \<equiv>
     (if \<not> Superblock_isValid s then False
      else if sb_allocatedPages s + sb_freePages s \<noteq> sb_totalPages s then False else True)"

record metadata_descriptor =
  md_magic :: u32
  md_typeId :: u32
  md_version :: u32
  md_startPage :: PageId
  md_pageCount :: u32
  md_byteSize :: u64
  md_flags :: u32
  md_reserved :: "u64 list"

abbreviation MetadataDescriptor_isValid :: "metadata_descriptor \<Rightarrow> bool" where
  "MetadataDescriptor_isValid d \<equiv> md_magic d \<noteq> 0 \<and> md_startPage d \<noteq> kInvalidPageId"

definition MetadataDescriptor_make :: "u32 \<Rightarrow> u32 \<Rightarrow> PageId \<Rightarrow> u32 \<Rightarrow> u64 \<Rightarrow> metadata_descriptor" where
  "MetadataDescriptor_make sectionMagic type page count bsize =
     \<lparr>md_magic = sectionMagic, md_typeId = type, md_version = 1, md_startPage = page,
      md_pageCount = count, md_byteSize = bsize, md_flags = 0, md_reserved = [0, 0]\<rparr>"

record schema_descriptor =
  sd_schemaId :: u32
  sd_version :: u32
  sd_rootPage :: PageId
  sd_flags :: u32
  sd_fieldCount :: u32
  sd_reserved :: "u64 list"
  sd_reserved2 :: u32

abbreviation SchemaDescriptor_isValid :: "schema_descriptor \<Rightarrow> bool" where
  "SchemaDescriptor_isValid d \<equiv> sd_schemaId d \<noteq> 0 \<and> sd_rootPage d \<noteq> kInvalidPageId"

definition SchemaDescriptor_make :: "u32 \<Rightarrow> PageId \<Rightarrow> u32 \<Rightarrow> schema_descriptor" where
  "SchemaDescriptor_make sid page nfields =
     \<lparr>sd_schemaId = sid, sd_version = 1, sd_rootPage = page, sd_flags = 0, sd_fieldCount = nfields,
      sd_reserved = [0], sd_reserved2 = 0\<rparr>"

section \<open>Compatibility\<close>

record requirements =
  rq_minReaderVersion :: format_version
  rq_minWriterVersion :: format_version
  rq_requiredFeatures :: feature_flags
  rq_prohibitedFeatures :: feature_flags

definition checkReaderCompatibility :: "format_version \<Rightarrow> format_version \<Rightarrow> status + unit" where
  "checkReaderCompatibility headerVersion readerVersion =
     (if v_major headerVersion \<noteq> v_major readerVersion
      then Inl (invalidArgument (''Reader major version mismatch: file='' @
             Versioning_toString headerVersion @ '', reader='' @ Versioning_toString readerVersion))
      else if v_minor headerVersion > v_minor readerVersion
      then Inl (invalidArgument (''File requires newer minor version: file='' @
             Versioning_toString headerVersion @ '', reader='' @ Versioning_toString readerVersion))
      else Inr ())"

definition checkWriterCompatibility :: "format_version \<Rightarrow> format_version \<Rightarrow> status + unit" where
  "checkWriterCompatibility headerVersion writerVersion =
     (if v_major headerVersion \<noteq> v_major writerVersion
      then Inl (invalidArgument (''Writer major version mismatch: file='' @
             Versioning_toString headerVersion @ '', writer='' @ Versioning_toString writerVersion))
      else Inr ())"

definition checkFeatureCompatibility :: "feature_flags \<Rightarrow> feature_flags \<Rightarrow> status + unit" where
  "checkFeatureCompatibility fileFlags readerFlags =
     (case FeatureFlags_validate fileFlags of
        Inl st \<Rightarrow> Inl st
      | Inr _ \<Rightarrow>
          if FeatureFlags_has fileFlags kCompression \<and> \<not> FeatureFlags_has readerFlags kCompression
          then Inl (invalidArgument ''File uses compression but reader does not support it'')
          else if FeatureFlags_has fileFlags kEncryption \<and> \<not> FeatureFlags_has readerFlags kEncryption
          then Inl (invalidArgument ''File uses encryption but reader does not support it'')
          else if FeatureFlags_has fileFlags kLargePages \<and> \<not> FeatureFlags_has readerFlags kLargePages
          then Inl (invalidArgument ''File uses large pages but reader does not support it'')
          else if FeatureFlags_has fileFlags kExtendedIds \<and> \<not> FeatureFlags_has readerFlags kExtendedIds
          then Inl (invalidArgument ''File uses extended IDs but reader does not support it'')
          else Inr ())"

definition isDowngrade :: "format_version \<Rightarrow> format_version \<Rightarrow> bool" where
  "isDowngrade old new =
     (if v_major old \<noteq> v_major new then v_major old > v_major new
      else if v_minor old \<noteq> v_minor new then v_minor old > v_minor new
      else v_patch old > v_patch new)"

definition isUpgrade :: "format_version \<Rightarrow> format_version \<Rightarrow> bool" where
  "isUpgrade old new =
     (if v_major old \<noteq> v_major new then v_major old < v_major new
      else if v_minor old \<noteq> v_minor new then v_minor old < v_minor new
      else v_patch old < v_patch new)"

definition canRead :: "requirements \<Rightarrow> format_version \<Rightarrow> feature_flags \<Rightarrow> bool" where
  "canRead rq readerVersion readerFlags =
     (if \<not> Versioning_isReadable (rq_minReaderVersion rq) readerVersion then False
      else if FeatureFlags_hasAny readerFlags (rq_prohibitedFeatures rq) then False
      else True)"

section \<open>The format validator\<close>

definition validateMagic :: "u32 \<Rightarrow> status + unit" where
  "validateMagic magic =
     (if \<not> MagicNumbers_isValid magic
      then Inl (corruption (''Invalid magic number: 0x'' @ to_string (unat magic))) else Inr ())"

definition validatePageSize :: "u32 \<Rightarrow> status + unit" where
  "validatePageSize pageSize =
     (if pageSize < 512 then Inl (invalidArgument (''Page size too small: '' @ to_string (unat pageSize)))
      else if pageSize > 65536 then Inl (invalidArgument (''Page size too large: '' @ to_string (unat pageSize)))
      else if pageSize AND (pageSize - 1) \<noteq> 0
      then Inl (invalidArgument (''Page size not a power of two: '' @ to_string (unat pageSize)))
      else Inr ())"

definition validateHeader :: "database_header \<Rightarrow> status + unit" where
  "validateHeader h =
     (if \<not> DatabaseHeader_isValid h
      then Inl (corruption ''DatabaseHeader: invalid magic, version, or page size'')
      else case validateMagic (dh_magic h) of Inl st \<Rightarrow> Inl st | Inr _ \<Rightarrow>
        (case validatePageSize (dh_pageSize h) of Inl st \<Rightarrow> Inl st | Inr _ \<Rightarrow>
          (if dh_majorVersion h \<noteq> kMajorVersion
           then Inl (invalidArgument (''DatabaseHeader: unsupported major version '' @
                  to_string (unat (dh_majorVersion h))))
           else if dh_minorVersion h > kMinorVersion
           then Inl (invalidArgument (''DatabaseHeader: minor version '' @ to_string (unat (dh_minorVersion h)) @
                  '' is too new, reader supports up to '' @ to_string (unat kMinorVersion)))
           else if ObjectId_isNil (dh_databaseId h) then Inl (corruption ''DatabaseHeader: nil database ID'')
           else Inr ())))"

definition validateSuperblock :: "superblock \<Rightarrow> status + unit" where
  "validateSuperblock s =
     (if \<not> Superblock_isValid s then Inl (corruption ''Superblock: invalid magic'')
      else if \<not> Superblock_isConsistent s then Inl (corruption ''Superblock: inconsistent page counts'')
      else if sb_totalPages s = 0 then Inl (corruption ''Superblock: zero total pages'')
      else Inr ())"

definition validateMetadataDescriptor :: "metadata_descriptor \<Rightarrow> status + unit" where
  "validateMetadataDescriptor d =
     (if \<not> MetadataDescriptor_isValid d then Inl (corruption ''MetadataDescriptor: invalid descriptor'')
      else if \<not> MagicNumbers_isRecognized (md_magic d)
      then Inl (corruption (''MetadataDescriptor: unrecognized magic 0x'' @ to_string (unat (md_magic d))))
      else if md_pageCount d = 0 then Inl (corruption ''MetadataDescriptor: zero page count'')
      else Inr ())"

definition validateSchemaDescriptor :: "schema_descriptor \<Rightarrow> status + unit" where
  "validateSchemaDescriptor d =
     (if \<not> SchemaDescriptor_isValid d then Inl (corruption ''SchemaDescriptor: invalid descriptor'')
      else Inr ())"

section \<open>Lemmas\<close>

lemma hex_digits:
  assumes "n < 16"
  shows "hexToNybble (''0123456789abcdef'' ! n) = Some n" "''0123456789abcdef'' ! n \<noteq> CHR ''-''"
proof -
  have "n \<in> set [0..<16]" using assms by simp
  then have "hexToNybble (''0123456789abcdef'' ! n) = Some n \<and> ''0123456789abcdef'' ! n \<noteq> CHR ''-''"
    by (simp add: upt_rec hexToNybble_def) (elim disjE, simp_all add: hexToNybble_def)
  then show "hexToNybble (''0123456789abcdef'' ! n) = Some n" "''0123456789abcdef'' ! n \<noteq> CHR ''-''"
    by simp_all
qed

lemma low_nybble: "unat (b AND 0x0F :: u8) < 16"
proof -
  have "b AND 0x0F \<le> 0x0F" by (rule word_and_le1)
  then have "unat (b AND 0x0F) \<le> unat (0x0F :: u8)" by (simp only: word_le_nat_alt)
  then show ?thesis by simp
qed

lemma hex_digit_parse: "hexToNybble (hex_digit b) = Some (unat (b AND 0x0F))" "hex_digit b \<noteq> CHR ''-''"
  using hex_digits [OF low_nybble [of b]] by (simp_all add: hex_digit_def)

lemma nybbles_join:
  "(of_nat (unat (drop_bit 4 b AND 0x0F) * 16) :: u8) OR of_nat (unat (b AND 0x0F)) = b"
proof -
  have "(of_nat (unat (drop_bit 4 b AND 0x0F) * 16) :: u8) = push_bit 4 (drop_bit 4 b AND 0x0F)"
    by (simp add: push_bit_eq_mult)
  moreover have "push_bit 4 (drop_bit 4 b AND 0x0F) OR (b AND 0x0F) = b"
  proof (rule bit_word_eqI)
    fix n assume "n < LENGTH(8)"
    then have "n \<in> {0, 1, 2, 3, 4, 5, 6, 7}" by auto
    then show "bit (push_bit 4 (drop_bit 4 b AND 0x0F) OR (b AND 0x0F)) n = bit b n"
      by (auto simp: bit_simps)
  qed
  ultimately show ?thesis by simp
qed

lemma parse_print_loop:
  assumes "k + length bs = 16" "length out = 16"
  shows "parseLoop (printLoop bs k) i (2 * k) out = (Inr 32, take k out @ bs)"
  using assms
proof (induction bs arbitrary: k i out)
  case Nil
  then show ?case by simp
next
  case (Cons b bs)
  let ?hi = "of_nat (unat (drop_bit 4 b AND 0x0F) * 16) :: u8"
  have k: "k < length out" using Cons.prems by simp
  have step: "parseLoop (hex_digit (drop_bit 4 b) # hex_digit b # rest) j (2 * k) out =
      parseLoop rest (Suc (Suc j)) (2 * Suc k) (out[k := b])" for rest j
    using k nybbles_join [of b] by (simp add: hex_digit_parse)
  have hyphen: "parseLoop (CHR ''-'' # rest) j h o1 = parseLoop rest (Suc j) h o1" for rest j h o1
    by simp
  have "parseLoop (printLoop (b # bs) k) i (2 * k) out =
      (\<lambda>j. parseLoop (printLoop bs (Suc k)) j (2 * Suc k) (out[k := b]))
        (if k = 4 \<or> k = 6 \<or> k = 8 \<or> k = 10 then i + 3 else i + 2)"
    by (simp del: parseLoop.simps mult_Suc_right add: step hyphen numeral_3_eq_3)
  also have "\<dots> = (Inr 32, take (Suc k) (out[k := b]) @ bs)"
    using Cons.IH [of "Suc k" "out[k := b]"] Cons.prems by simp
  also have "take (Suc k) (out[k := b]) @ bs = take k out @ b # bs"
    using k by (simp add: take_Suc_conv_app_nth)
  finally show ?case .
qed

lemma print_shape:
  assumes "length i = 16"
  shows "length (ObjectId_toString i) = 36" "ObjectId_toString i ! 8 = CHR ''-''"
    "ObjectId_toString i ! 13 = CHR ''-''" "ObjectId_toString i ! 18 = CHR ''-''"
    "ObjectId_toString i ! 23 = CHR ''-''"
proof -
  from assms obtain b0 b1 b2 b3 b4 b5 b6 b7 b8 b9 b10 b11 b12 b13 b14 b15
    where "i = [b0, b1, b2, b3, b4, b5, b6, b7, b8, b9, b10, b11, b12, b13, b14, b15]"
    by (auto simp: numeral_eq_Suc length_Suc_conv)
  then show "length (ObjectId_toString i) = 36" "ObjectId_toString i ! 8 = CHR ''-''"
    "ObjectId_toString i ! 13 = CHR ''-''" "ObjectId_toString i ! 18 = CHR ''-''"
    "ObjectId_toString i ! 23 = CHR ''-''"
    by (simp_all add: ObjectId_toString_def)
qed

definition database_header_wf :: "database_header \<Rightarrow> bool" where
  "database_header_wf h \<longleftrightarrow> length (dh_databaseId h) = 16 \<and> length (dh_reserved h) = 8"

lemma length_database_header_image [simp]:
  "database_header_wf h \<Longrightarrow> length (database_header_image h) = 128"
  by (simp add: database_header_wf_def database_header_image_def)

lemma database_header_round_trip [simp]:
  "database_header_wf h \<Longrightarrow> database_header_of (database_header_image h @ rest) = h"
  by (simp add: database_header_of_def database_header_image_def database_header_wf_def)

lemma database_header_of_wf: "128 \<le> length bs \<Longrightarrow> database_header_wf (database_header_of bs)"
  by (simp add: database_header_wf_def database_header_of_def)

text \<open>A natural number with no bit in common with its predecessor is a power of two.\<close>

lemma power_of_two_nat: "0 < n \<Longrightarrow> n AND (n - 1) = (0 :: nat) \<longleftrightarrow> (\<exists>k. n = 2 ^ k)"
proof (induction n rule: less_induct)
  case (less n)
  show ?case
  proof (cases "even n")
    case True
    then obtain m where m: "n = 2 * m" by auto
    with less.prems have pos: "0 < m" by simp
    have pred: "n - 1 = 2 * (m - 1) + 1" using m pos by simp
    have "n AND (n - 1) = 2 * (m AND (m - 1))"
      unfolding pred by (subst and_nat_rec) (simp add: m)
    then have "n AND (n - 1) = 0 \<longleftrightarrow> (\<exists>k. m = 2 ^ k)"
      using less.IH [of m] m pos by simp
    also have "\<dots> \<longleftrightarrow> (\<exists>k. n = 2 ^ k)"
    proof
      assume "\<exists>k. m = 2 ^ k"
      then obtain k where "n = 2 ^ Suc k" using m by auto
      then show "\<exists>k. n = 2 ^ k" by blast
    next
      assume "\<exists>k. n = 2 ^ k"
      then obtain k where k: "n = 2 ^ k" by auto
      with True have "k \<noteq> 0" by (cases k) auto
      with k m show "\<exists>k. m = 2 ^ k" by (cases k) auto
    qed
    finally show ?thesis .
  next
    case False
    then obtain m where m: "n = 2 * m + 1" by (auto elim: oddE)
    have "n AND (n - 1) = 2 * m"
      unfolding m by (subst and_nat_rec) simp
    moreover have "(\<exists>k. n = 2 ^ k) \<longleftrightarrow> m = 0"
    proof
      assume "\<exists>k. n = 2 ^ k"
      then obtain k where "n = 2 ^ k" by auto
      with False show "m = 0" using m by (cases k) auto
    next
      assume "m = 0"
      then have "n = 2 ^ 0" using m by simp
      then show "\<exists>k. n = 2 ^ k" by blast
    qed
    ultimately show ?thesis by simp
  qed
qed

section \<open>Properties\<close>

text \<open>
  Identifiers survive their text form: every identifier prints as 36 characters, and parsing
  them writes exactly the identifier over whatever the output held.
\<close>

theorem object_id_text_round_trip:
  assumes "length i = 16" "length out = 16"
  shows "length (ObjectId_toString i) = 36 \<and> ObjectId_fromString (ObjectId_toString i) out = (Inr (), i) \<and>
    ObjectId_parse (ObjectId_toString i) = i"
proof -
  have "parseLoop (ObjectId_toString i) 0 0 o1 = (Inr 32, i)" if "length o1 = 16" for o1
    using parse_print_loop [of 0 i o1 0] assms(1) that by (simp add: ObjectId_toString_def)
  then have "ObjectId_fromString (ObjectId_toString i) o1 = (Inr (), i)" if "length o1 = 16" for o1
    using that print_shape [OF assms(1)] by (simp add: ObjectId_fromString_def)
  with assms(2) print_shape(1) [OF assms(1)] show ?thesis
    by (simp add: ObjectId_parse_def ObjectId_nil_def)
qed

text \<open>
  A page size is accepted exactly when it is a power of two from 512 to 65536.
\<close>

theorem validatePageSize_iff:
  "validatePageSize n = Inr () \<longleftrightarrow> (\<exists>k \<in> {9..16}. unat n = 2 ^ k)"
proof -
  have pow: "(n AND (n - 1) = 0) \<longleftrightarrow> (\<exists>k. unat n = 2 ^ k)" if n: "512 \<le> unat n"
  proof -
    have "1 \<le> n" using n by (simp add: word_le_nat_alt)
    then have "unat (n AND (n - 1)) = unat n AND (unat n - 1)"
      by (simp add: unsigned_and_eq unat_sub)
    with power_of_two_nat [of "unat n"] n show ?thesis by (simp add: word_unat_eq_iff)
  qed
  have rng: "k \<in> {9..16} \<longleftrightarrow> 512 \<le> unat n \<and> unat n \<le> 65536" if "unat n = 2 ^ k" for k
  proof -
    have "(2::nat) ^ 9 \<le> 2 ^ k \<longleftrightarrow> 9 \<le> k" "(2::nat) ^ k \<le> 2 ^ 16 \<longleftrightarrow> k \<le> 16"
      by (simp_all only: power_increasing_iff one_less_numeral_iff semiring_norm)
    with that show ?thesis by simp
  qed
  show ?thesis
  proof (cases "512 \<le> unat n \<and> unat n \<le> 65536")
    case True
    then have "validatePageSize n = Inr () \<longleftrightarrow> n AND (n - 1) = 0"
      by (simp add: validatePageSize_def word_less_nat_alt)
    with pow True rng show ?thesis by blast
  next
    case False
    then have "validatePageSize n \<noteq> Inr ()"
      by (auto simp: validatePageSize_def word_less_nat_alt)
    with False rng show ?thesis by blast
  qed
qed

end
