(* ===== verification/Pages.thy ===== *)
theory Pages
  imports Format Complex_Main
begin

unbundle bit_operations_syntax

text \<open>
  Typed pages (src/include/quartz/pages, src/src/pages): the six payload layouts as records with
  their packed images, the base page, one group of operations per page class, the page factory,
  the page validator and the page statistics. A typed page is a page of Storage.thy whose payload
  bytes are read through a layout; the locale \<open>payload_layout\<close> holds what reading and writing
  through a layout have in common and is interpreted on each of the six.
\<close>

section \<open>Layout types\<close>

type_synonym PageLayoutType = u8

abbreviation PageLayoutType_Invalid :: PageLayoutType where "PageLayoutType_Invalid \<equiv> 0"
abbreviation PageLayoutType_Header :: PageLayoutType where "PageLayoutType_Header \<equiv> 1"
abbreviation PageLayoutType_Metadata :: PageLayoutType where "PageLayoutType_Metadata \<equiv> 2"
abbreviation PageLayoutType_FreeList :: PageLayoutType where "PageLayoutType_FreeList \<equiv> 3"
abbreviation PageLayoutType_Data :: PageLayoutType where "PageLayoutType_Data \<equiv> 4"
abbreviation PageLayoutType_Index :: PageLayoutType where "PageLayoutType_Index \<equiv> 5"
abbreviation PageLayoutType_Overflow :: PageLayoutType where "PageLayoutType_Overflow \<equiv> 6"

definition isValidLayoutType :: "PageLayoutType \<Rightarrow> bool" where
  "isValidLayoutType t \<longleftrightarrow> t \<ge> PageLayoutType_Header \<and> t \<le> PageLayoutType_Overflow"

definition toPageLayoutType :: "PageType \<Rightarrow> PageLayoutType" where
  "toPageLayoutType t =
     (if t = PageType_Header then PageLayoutType_Header
      else if t = PageType_Metadata then PageLayoutType_Metadata
      else if t = PageType_FreeList then PageLayoutType_FreeList
      else if t = PageType_Data then PageLayoutType_Data
      else if t = PageType_Index then PageLayoutType_Index
      else if t = PageType_Overflow then PageLayoutType_Overflow
      else PageLayoutType_Invalid)"

definition toStoragePageType :: "PageLayoutType \<Rightarrow> PageType" where
  "toStoragePageType t =
     (if t = PageLayoutType_Header then PageType_Header
      else if t = PageLayoutType_Metadata then PageType_Metadata
      else if t = PageLayoutType_FreeList then PageType_FreeList
      else if t = PageLayoutType_Data then PageType_Data
      else if t = PageLayoutType_Index then PageType_Index
      else if t = PageLayoutType_Overflow then PageType_Overflow
      else PageType_Invalid)"

section \<open>Payload layouts\<close>

record header_layout =
  hl_databaseHeader :: database_header
  hl_superblockPageId :: PageId
  hl_flags :: u64
  hl_formatVersion :: u32
  hl_reserved :: "u64 list"

abbreviation header_layout_isValid :: "header_layout \<Rightarrow> bool" where
  "header_layout_isValid l \<equiv> DatabaseHeader_isValid (hl_databaseHeader l) \<and> hl_formatVersion l > 0"

definition header_layout_image :: "header_layout \<Rightarrow> u8 list" where
  "header_layout_image l =
     database_header_image (hl_databaseHeader l) @ mem (hl_superblockPageId l) @ mem (hl_flags l) @
     mem (hl_formatVersion l) @ words_image (hl_reserved l)"

definition header_layout_of :: "u8 list \<Rightarrow> header_layout" where
  "header_layout_of bs =
     \<lparr>hl_databaseHeader = database_header_of bs, hl_superblockPageId = unmem (take 4 (drop 128 bs)),
      hl_flags = unmem (take 8 (drop 132 bs)), hl_formatVersion = unmem (take 4 (drop 140 bs)),
      hl_reserved = words_of 486 (drop 144 bs)\<rparr>"

record freelist_layout =
  fl_freeCount :: u32
  fl_capacity :: u32
  fl_reserved :: "u64 list"
  fl_freePages :: "PageId list"

definition freelist_layout_isValid :: "freelist_layout \<Rightarrow> bool" where
  "freelist_layout_isValid l \<longleftrightarrow> fl_capacity l > 0 \<and> fl_freeCount l \<le> fl_capacity l"

definition freelist_layout_image :: "freelist_layout \<Rightarrow> u8 list" where
  "freelist_layout_image l =
     mem (fl_freeCount l) @ mem (fl_capacity l) @ words_image (fl_reserved l) @ words_image (fl_freePages l)"

definition freelist_layout_of :: "u8 list \<Rightarrow> freelist_layout" where
  "freelist_layout_of bs =
     \<lparr>fl_freeCount = unmem (take 4 bs), fl_capacity = unmem (take 4 (drop 4 bs)),
      fl_reserved = words_of 3 (drop 8 bs), fl_freePages = words_of 1000 (drop 32 bs)\<rparr>"

record data_layout =
  dl_freeSpaceOffset :: u16
  dl_slotCount :: u16
  dl_reserved1 :: u32
  dl_reserved2 :: "u64 list"
  dl_data :: "u8 list"

abbreviation data_layout_isValid :: "data_layout \<Rightarrow> bool" where
  "data_layout_isValid l \<equiv> unat (dl_freeSpaceOffset l) \<le> 4008"

text \<open>\<^verbatim>\<open>sizeof(data) - freeSpaceOffset\<close> in \<^verbatim>\<open>std::size_t\<close>, which wraps.\<close>

abbreviation data_layout_availableSpace :: "data_layout \<Rightarrow> u64" where
  "data_layout_availableSpace l \<equiv> 4008 - ucast (dl_freeSpaceOffset l)"

definition data_layout_image :: "data_layout \<Rightarrow> u8 list" where
  "data_layout_image l =
     mem (dl_freeSpaceOffset l) @ mem (dl_slotCount l) @ mem (dl_reserved1 l) @
     words_image (dl_reserved2 l) @ dl_data l"

definition data_layout_of :: "u8 list \<Rightarrow> data_layout" where
  "data_layout_of bs =
     \<lparr>dl_freeSpaceOffset = unmem (take 2 bs), dl_slotCount = unmem (take 2 (drop 2 bs)),
      dl_reserved1 = unmem (take 4 (drop 4 bs)), dl_reserved2 = words_of 2 (drop 8 bs),
      dl_data = take 4008 (drop 24 bs)\<rparr>"

record overflow_layout =
  ol_nextPageId :: PageId
  ol_payloadSize :: u32
  ol_reserved :: "u64 list"
  ol_data :: "u8 list"

abbreviation overflow_layout_isValid :: "overflow_layout \<Rightarrow> bool" where
  "overflow_layout_isValid l \<equiv> unat (ol_payloadSize l) \<le> 4008"

abbreviation overflow_layout_remainingCapacity :: "overflow_layout \<Rightarrow> u64" where
  "overflow_layout_remainingCapacity l \<equiv> 4008 - ucast (ol_payloadSize l)"

definition overflow_layout_image :: "overflow_layout \<Rightarrow> u8 list" where
  "overflow_layout_image l =
     mem (ol_nextPageId l) @ mem (ol_payloadSize l) @ words_image (ol_reserved l) @ ol_data l"

definition overflow_layout_of :: "u8 list \<Rightarrow> overflow_layout" where
  "overflow_layout_of bs =
     \<lparr>ol_nextPageId = unmem (take 4 bs), ol_payloadSize = unmem (take 4 (drop 4 bs)),
      ol_reserved = words_of 2 (drop 8 bs), ol_data = take 4008 (drop 24 bs)\<rparr>"

record index_layout =
  il_nodeType :: u32
  il_keyCount :: u32
  il_capacity :: u32
  il_flags :: u32
  il_reserved :: "u64 list"
  il_data :: "u8 list"

definition index_layout_isValid :: "index_layout \<Rightarrow> bool" where
  "index_layout_isValid l \<longleftrightarrow> il_capacity l > 0 \<and> il_keyCount l \<le> il_capacity l"

definition index_layout_image :: "index_layout \<Rightarrow> u8 list" where
  "index_layout_image l =
     mem (il_nodeType l) @ mem (il_keyCount l) @ mem (il_capacity l) @ mem (il_flags l) @
     words_image (il_reserved l) @ il_data l"

definition index_layout_of :: "u8 list \<Rightarrow> index_layout" where
  "index_layout_of bs =
     \<lparr>il_nodeType = unmem (take 4 bs), il_keyCount = unmem (take 4 (drop 4 bs)),
      il_capacity = unmem (take 4 (drop 8 bs)), il_flags = unmem (take 4 (drop 12 bs)),
      il_reserved = words_of 3 (drop 16 bs), il_data = take 3992 (drop 40 bs)\<rparr>"

record metadata_layout =
  ml_entryCount :: u32
  ml_version :: u32
  ml_reserved :: "u64 list"
  ml_data :: "u8 list"

abbreviation metadata_layout_isValid :: "metadata_layout \<Rightarrow> bool" where
  "metadata_layout_isValid l \<equiv> ml_version l > 0"

definition metadata_layout_image :: "metadata_layout \<Rightarrow> u8 list" where
  "metadata_layout_image l =
     mem (ml_entryCount l) @ mem (ml_version l) @ words_image (ml_reserved l) @ ml_data l"

definition metadata_layout_of :: "u8 list \<Rightarrow> metadata_layout" where
  "metadata_layout_of bs =
     \<lparr>ml_entryCount = unmem (take 4 bs), ml_version = unmem (take 4 (drop 4 bs)),
      ml_reserved = words_of 3 (drop 8 bs), ml_data = take 4000 (drop 32 bs)\<rparr>"

text \<open>
  The \<^verbatim>\<open>reinterpret_cast\<close> of the payload: reading a layout and storing one. A member
  function that assigns one field stores the layout with that field changed.
\<close>

definition get_layout :: "(u8 list \<Rightarrow> 'l) \<Rightarrow> page \<Rightarrow> 'l" where
  "get_layout of_bytes p = of_bytes (Page_payload p)"

definition put_layout :: "('l \<Rightarrow> u8 list) \<Rightarrow> 'l \<Rightarrow> page \<Rightarrow> page" where
  "put_layout img l p = p\<lparr>pg_data := overlay kPageHeaderSize (img l) (pg_data p)\<rparr>"

section \<open>The base page\<close>

definition BasePage_layoutType :: "page \<Rightarrow> PageLayoutType" where
  "BasePage_layoutType p = toPageLayoutType (Page_type p)"

definition BasePage_serialize :: "page \<Rightarrow> (writer, unit) op" where
  "BasePage_serialize p = writeBytes (pg_data p)"

definition BasePage_deserialize :: "(reader \<times> page, unit) op" where
  "BasePage_deserialize s =
     (case s of (r, p) \<Rightarrow>
        case readBytes kPageSize r of
          (Inl st, r') \<Rightarrow> (Inl st, (r', p))
        | (Inr bs, r') \<Rightarrow> (Inr (), (r', p\<lparr>pg_data := bs, pg_header := page_header_of bs\<rparr>)))"

text \<open>The layout type is cast to a storage page type by its number.\<close>

definition BasePage_reset :: "PageId \<Rightarrow> page \<Rightarrow> page" where
  "BasePage_reset newId p = Page_reset newId (BasePage_layoutType p) p"

definition BasePage_clear :: "page \<Rightarrow> page" where
  "BasePage_clear p = Page_zeroFill p"

section \<open>Page classes\<close>

subsection \<open>HeaderPage\<close>

abbreviation HeaderPage_new :: page where "HeaderPage_new \<equiv> Page_new 0 PageType_Header"

abbreviation HeaderPage_clone :: "page \<Rightarrow> page" where
  "HeaderPage_clone p \<equiv> (Page_new (Page_id p) PageType_Header)\<lparr>pg_data := pg_data p\<rparr>"

abbreviation HeaderPage_layout :: "page \<Rightarrow> header_layout" where
  "HeaderPage_layout p \<equiv> get_layout header_layout_of p"

definition HeaderPage_store :: "header_layout \<Rightarrow> page \<Rightarrow> page" where
  "HeaderPage_store l p = put_layout header_layout_image l p"

definition initFromFormat :: "database_header \<Rightarrow> page \<Rightarrow> page" where
  "initFromFormat dbHeader p =
     HeaderPage_store ((HeaderPage_layout p)\<lparr>hl_databaseHeader := dbHeader, hl_superblockPageId := 1,
       hl_flags := 0, hl_formatVersion := encodeVersion kMajorVersion kMinorVersion\<rparr>) p"

definition HeaderPage_setSuperblockPageId :: "PageId \<Rightarrow> page \<Rightarrow> page" where
  "HeaderPage_setSuperblockPageId pid p = HeaderPage_store ((HeaderPage_layout p)\<lparr>hl_superblockPageId := pid\<rparr>) p"

definition HeaderPage_setFlags :: "u64 \<Rightarrow> page \<Rightarrow> page" where
  "HeaderPage_setFlags f p = HeaderPage_store ((HeaderPage_layout p)\<lparr>hl_flags := f\<rparr>) p"

definition HeaderPage_setFormatVersion :: "u32 \<Rightarrow> page \<Rightarrow> page" where
  "HeaderPage_setFormatVersion v p = HeaderPage_store ((HeaderPage_layout p)\<lparr>hl_formatVersion := v\<rparr>) p"

definition HeaderPage_validate :: "page \<Rightarrow> status + unit" where
  "HeaderPage_validate p =
     (if \<not> header_layout_isValid (HeaderPage_layout p) then Inl (corruption ''HeaderPage: invalid layout'') else Inr ())"

definition HeaderPage_reset :: "PageId \<Rightarrow> page \<Rightarrow> page" where
  "HeaderPage_reset newId p =
     HeaderPage_store \<lparr>hl_databaseHeader = DatabaseHeader_zero, hl_superblockPageId = 0, hl_flags = 0,
       hl_formatVersion = 0, hl_reserved = replicate 486 0\<rparr> (BasePage_reset newId p)"

definition HeaderPage_create :: "u32 \<Rightarrow> u32 \<Rightarrow> u64 \<Rightarrow> page" where
  "HeaderPage_create majorVersion minorVersion featureFlags =
     (let l = HeaderPage_layout HeaderPage_new
      in HeaderPage_store
           (l\<lparr>hl_databaseHeader := (hl_databaseHeader l)\<lparr>dh_magic := kDatabaseMagic,
                dh_majorVersion := majorVersion, dh_minorVersion := minorVersion,
                dh_pageSize := of_nat kPageSize\<rparr>,
              hl_superblockPageId := 1, hl_flags := featureFlags,
              hl_formatVersion := encodeVersion majorVersion minorVersion\<rparr>) HeaderPage_new)"

subsection \<open>FreeListPage\<close>

definition FreeListPage_new :: page where "FreeListPage_new = Page_new 0 PageType_FreeList"

abbreviation FreeListPage_clone :: "page \<Rightarrow> page" where
  "FreeListPage_clone p \<equiv> (Page_new (Page_id p) PageType_FreeList)\<lparr>pg_data := pg_data p\<rparr>"

definition FreeListPage_layout :: "page \<Rightarrow> freelist_layout" where
  "FreeListPage_layout p = get_layout freelist_layout_of p"

definition FreeListPage_store :: "freelist_layout \<Rightarrow> page \<Rightarrow> page" where
  "FreeListPage_store l p = put_layout freelist_layout_image l p"

definition FreeListPage_freeCount :: "page \<Rightarrow> u32" where
  "FreeListPage_freeCount p = fl_freeCount (FreeListPage_layout p)"

definition FreeListPage_capacity :: "page \<Rightarrow> u32" where
  "FreeListPage_capacity p = fl_capacity (FreeListPage_layout p)"

abbreviation FreeListPage_isFull :: "page \<Rightarrow> bool" where
  "FreeListPage_isFull p \<equiv> FreeListPage_freeCount p \<ge> FreeListPage_capacity p"

abbreviation FreeListPage_isEmpty :: "page \<Rightarrow> bool" where
  "FreeListPage_isEmpty p \<equiv> FreeListPage_freeCount p = 0"

text \<open>
  Access to \<^verbatim>\<open>freePages[i]\<close> outside the array of 1000 identifiers is undefined in C++ and
  \<open>None\<close> here.
\<close>

definition FreeListPage_freePage :: "nat \<Rightarrow> page \<Rightarrow> PageId option" where
  "FreeListPage_freePage index p =
     (if index \<ge> unat (FreeListPage_freeCount p) then Some kInvalidPageId
      else if index < 1000 then Some (fl_freePages (FreeListPage_layout p) ! index) else None)"

definition setFreePage :: "nat \<Rightarrow> PageId \<Rightarrow> page \<Rightarrow> ((status + unit) \<times> page) option" where
  "setFreePage index pid p =
     (if index \<ge> unat (FreeListPage_capacity p)
      then Some (Inl (invalidArgument ''FreeListPage: index out of range''), p)
      else if index < 1000
      then let l = FreeListPage_layout p
           in Some (Inr (), FreeListPage_store (l\<lparr>fl_freePages := (fl_freePages l)[index := pid]\<rparr>) p)
      else None)"

definition addFreePage :: "PageId \<Rightarrow> page \<Rightarrow> ((status + unit) \<times> page) option" where
  "addFreePage pid p =
     (let l = FreeListPage_layout p
      in if fl_freeCount l \<ge> fl_capacity l
         then Some (Inl (invalidArgument ''FreeListPage: free list is full''), p)
         else if unat (fl_freeCount l) < 1000
         then Some (Inr (), FreeListPage_store
                (l\<lparr>fl_freePages := (fl_freePages l)[unat (fl_freeCount l) := pid],
                   fl_freeCount := fl_freeCount l + 1\<rparr>) p)
         else None)"

definition clearFreePages :: "page \<Rightarrow> page" where
  "clearFreePages p = FreeListPage_store ((FreeListPage_layout p)\<lparr>fl_freeCount := 0\<rparr>) p"

definition FreeListPage_validate :: "page \<Rightarrow> status + unit" where
  "FreeListPage_validate p =
     (if \<not> freelist_layout_isValid (FreeListPage_layout p) then Inl (corruption ''FreeListPage: invalid layout'') else Inr ())"

definition FreeListPage_reset :: "PageId \<Rightarrow> page \<Rightarrow> page" where
  "FreeListPage_reset newId p =
     FreeListPage_store \<lparr>fl_freeCount = 0, fl_capacity = 1000, fl_reserved = replicate 3 0,
       fl_freePages = replicate 1000 0\<rparr> (BasePage_reset newId p)"

definition FreeListPage_create :: "PageId \<Rightarrow> page" where
  "FreeListPage_create pid = FreeListPage_reset pid FreeListPage_new"

subsection \<open>DataPage\<close>

abbreviation DataPage_new :: page where "DataPage_new \<equiv> Page_new 0 PageType_Data"

abbreviation DataPage_clone :: "page \<Rightarrow> page" where
  "DataPage_clone p \<equiv> (Page_new (Page_id p) PageType_Data)\<lparr>pg_data := pg_data p\<rparr>"

abbreviation DataPage_layout :: "page \<Rightarrow> data_layout" where
  "DataPage_layout p \<equiv> get_layout data_layout_of p"

definition DataPage_store :: "data_layout \<Rightarrow> page \<Rightarrow> page" where
  "DataPage_store l p = put_layout data_layout_image l p"

definition setFreeSpaceOffset :: "u16 \<Rightarrow> page \<Rightarrow> page" where
  "setFreeSpaceOffset off p = DataPage_store ((DataPage_layout p)\<lparr>dl_freeSpaceOffset := off\<rparr>) p"

definition setSlotCount :: "u16 \<Rightarrow> page \<Rightarrow> page" where
  "setSlotCount n p = DataPage_store ((DataPage_layout p)\<lparr>dl_slotCount := n\<rparr>) p"

abbreviation DataPage_availableSpace :: "page \<Rightarrow> u64" where
  "DataPage_availableSpace p \<equiv> data_layout_availableSpace (DataPage_layout p)"

definition DataPage_validate :: "page \<Rightarrow> status + unit" where
  "DataPage_validate p =
     (if \<not> data_layout_isValid (DataPage_layout p) then Inl (corruption ''DataPage: invalid layout'') else Inr ())"

definition DataPage_reset :: "PageId \<Rightarrow> page \<Rightarrow> page" where
  "DataPage_reset newId p =
     DataPage_store \<lparr>dl_freeSpaceOffset = 0, dl_slotCount = 0, dl_reserved1 = 0,
       dl_reserved2 = replicate 2 0, dl_data = replicate 4008 0\<rparr> (BasePage_reset newId p)"

definition DataPage_create :: "PageId \<Rightarrow> page" where
  "DataPage_create pid = DataPage_reset pid DataPage_new"

subsection \<open>OverflowPage\<close>

definition OverflowPage_new :: page where "OverflowPage_new = Page_new 0 PageType_Overflow"

abbreviation OverflowPage_clone :: "page \<Rightarrow> page" where
  "OverflowPage_clone p \<equiv> (Page_new (Page_id p) PageType_Overflow)\<lparr>pg_data := pg_data p\<rparr>"

abbreviation OverflowPage_layout :: "page \<Rightarrow> overflow_layout" where
  "OverflowPage_layout p \<equiv> get_layout overflow_layout_of p"

definition OverflowPage_store :: "overflow_layout \<Rightarrow> page \<Rightarrow> page" where
  "OverflowPage_store l p = put_layout overflow_layout_image l p"

definition setNextPageId :: "PageId \<Rightarrow> page \<Rightarrow> page" where
  "setNextPageId pid p = OverflowPage_store ((OverflowPage_layout p)\<lparr>ol_nextPageId := pid\<rparr>) p"

abbreviation hasNextPage :: "page \<Rightarrow> bool" where
  "hasNextPage p \<equiv> ol_nextPageId (OverflowPage_layout p) \<noteq> kInvalidPageId"

definition OverflowPage_setPayloadSize :: "u32 \<Rightarrow> page \<Rightarrow> page" where
  "OverflowPage_setPayloadSize n p = OverflowPage_store ((OverflowPage_layout p)\<lparr>ol_payloadSize := n\<rparr>) p"

abbreviation OverflowPage_remainingCapacity :: "page \<Rightarrow> u64" where
  "OverflowPage_remainingCapacity p \<equiv> overflow_layout_remainingCapacity (OverflowPage_layout p)"

definition OverflowPage_validate :: "page \<Rightarrow> status + unit" where
  "OverflowPage_validate p =
     (if \<not> overflow_layout_isValid (OverflowPage_layout p) then Inl (corruption ''OverflowPage: invalid layout'') else Inr ())"

definition OverflowPage_reset :: "PageId \<Rightarrow> page \<Rightarrow> page" where
  "OverflowPage_reset newId p =
     OverflowPage_store \<lparr>ol_nextPageId = kInvalidPageId, ol_payloadSize = 0, ol_reserved = replicate 2 0,
       ol_data = replicate 4008 0\<rparr> (BasePage_reset newId p)"

definition OverflowPage_create :: "PageId \<Rightarrow> page" where
  "OverflowPage_create pid = OverflowPage_reset pid OverflowPage_new"

subsection \<open>IndexPage\<close>

definition IndexPage_new :: page where "IndexPage_new = Page_new 0 PageType_Index"

abbreviation IndexPage_clone :: "page \<Rightarrow> page" where
  "IndexPage_clone p \<equiv> (Page_new (Page_id p) PageType_Index)\<lparr>pg_data := pg_data p\<rparr>"

definition IndexPage_layout :: "page \<Rightarrow> index_layout" where
  "IndexPage_layout p = get_layout index_layout_of p"

definition IndexPage_store :: "index_layout \<Rightarrow> page \<Rightarrow> page" where
  "IndexPage_store l p = put_layout index_layout_image l p"

definition setNodeType :: "u32 \<Rightarrow> page \<Rightarrow> page" where
  "setNodeType t p = IndexPage_store ((IndexPage_layout p)\<lparr>il_nodeType := t\<rparr>) p"

definition setKeyCount :: "u32 \<Rightarrow> page \<Rightarrow> page" where
  "setKeyCount n p = IndexPage_store ((IndexPage_layout p)\<lparr>il_keyCount := n\<rparr>) p"

definition setCapacity :: "u32 \<Rightarrow> page \<Rightarrow> page" where
  "setCapacity c p = IndexPage_store ((IndexPage_layout p)\<lparr>il_capacity := c\<rparr>) p"

definition IndexPage_setFlags :: "u32 \<Rightarrow> page \<Rightarrow> page" where
  "IndexPage_setFlags f p = IndexPage_store ((IndexPage_layout p)\<lparr>il_flags := f\<rparr>) p"

definition IndexPage_validate :: "page \<Rightarrow> status + unit" where
  "IndexPage_validate p =
     (if \<not> index_layout_isValid (IndexPage_layout p) then Inl (corruption ''IndexPage: invalid layout'') else Inr ())"

definition IndexPageLayout_zero :: index_layout where
  "IndexPageLayout_zero = \<lparr>il_nodeType = 0, il_keyCount = 0, il_capacity = 0, il_flags = 0,
     il_reserved = replicate 3 0, il_data = replicate 3992 0\<rparr>"

definition IndexPage_reset :: "PageId \<Rightarrow> page \<Rightarrow> page" where
  "IndexPage_reset newId p = IndexPage_store IndexPageLayout_zero (BasePage_reset newId p)"

definition IndexPage_create :: "PageId \<Rightarrow> page" where
  "IndexPage_create pid = IndexPage_reset pid IndexPage_new"

subsection \<open>MetadataPage\<close>

abbreviation MetadataPage_new :: page where "MetadataPage_new \<equiv> Page_new 0 PageType_Metadata"

abbreviation MetadataPage_clone :: "page \<Rightarrow> page" where
  "MetadataPage_clone p \<equiv> (Page_new (Page_id p) PageType_Metadata)\<lparr>pg_data := pg_data p\<rparr>"

abbreviation MetadataPage_layout :: "page \<Rightarrow> metadata_layout" where
  "MetadataPage_layout p \<equiv> get_layout metadata_layout_of p"

definition MetadataPage_store :: "metadata_layout \<Rightarrow> page \<Rightarrow> page" where
  "MetadataPage_store l p = put_layout metadata_layout_image l p"

definition setEntryCount :: "u32 \<Rightarrow> page \<Rightarrow> page" where
  "setEntryCount n p = MetadataPage_store ((MetadataPage_layout p)\<lparr>ml_entryCount := n\<rparr>) p"

definition MetadataPage_setVersion :: "u32 \<Rightarrow> page \<Rightarrow> page" where
  "MetadataPage_setVersion v p = MetadataPage_store ((MetadataPage_layout p)\<lparr>ml_version := v\<rparr>) p"

definition MetadataPage_validate :: "page \<Rightarrow> status + unit" where
  "MetadataPage_validate p =
     (if \<not> metadata_layout_isValid (MetadataPage_layout p) then Inl (corruption ''MetadataPage: invalid layout'') else Inr ())"

definition MetadataPage_reset :: "PageId \<Rightarrow> page \<Rightarrow> page" where
  "MetadataPage_reset newId p =
     MetadataPage_store \<lparr>ml_entryCount = 0, ml_version = 0, ml_reserved = replicate 3 0,
       ml_data = replicate 4000 0\<rparr> (BasePage_reset newId p)"

definition MetadataPage_create :: "PageId \<Rightarrow> page" where
  "MetadataPage_create pid = MetadataPage_reset pid MetadataPage_new"

section \<open>Factory and validator\<close>

text \<open>A typed page: the class and the page it holds.\<close>

datatype typed_page =
  HeaderPage page | FreeListPage page | DataPage page | IndexPage page | OverflowPage page |
  MetadataPage page

fun untyped :: "typed_page \<Rightarrow> page" where
  "untyped (HeaderPage p) = p" | "untyped (FreeListPage p) = p" | "untyped (DataPage p) = p"
| "untyped (IndexPage p) = p" | "untyped (OverflowPage p) = p" | "untyped (MetadataPage p) = p"

fun retyped :: "typed_page \<Rightarrow> page \<Rightarrow> typed_page" where
  "retyped (HeaderPage p) q = HeaderPage q" | "retyped (FreeListPage p) q = FreeListPage q"
| "retyped (DataPage p) q = DataPage q" | "retyped (IndexPage p) q = IndexPage q"
| "retyped (OverflowPage p) q = OverflowPage q" | "retyped (MetadataPage p) q = MetadataPage q"

fun page_validate :: "typed_page \<Rightarrow> status + unit" where
  "page_validate (HeaderPage p) = HeaderPage_validate p"
| "page_validate (FreeListPage p) = FreeListPage_validate p"
| "page_validate (DataPage p) = DataPage_validate p"
| "page_validate (IndexPage p) = IndexPage_validate p"
| "page_validate (OverflowPage p) = OverflowPage_validate p"
| "page_validate (MetadataPage p) = MetadataPage_validate p"

definition createPage_wrap :: "page \<Rightarrow> typed_page option" where
  "createPage_wrap p =
     (let type = toPageLayoutType (Page_type p)
      in if type = PageLayoutType_Header then Some (HeaderPage p)
         else if type = PageLayoutType_FreeList then Some (FreeListPage p)
         else if type = PageLayoutType_Data then Some (DataPage p)
         else if type = PageLayoutType_Index then Some (IndexPage p)
         else if type = PageLayoutType_Overflow then Some (OverflowPage p)
         else if type = PageLayoutType_Metadata then Some (MetadataPage p)
         else None)"

definition createPage :: "PageLayoutType \<Rightarrow> PageId \<Rightarrow> typed_page option" where
  "createPage type pid =
     (if type = PageLayoutType_Header then Some (HeaderPage (Page_new pid PageType_Header))
      else if type = PageLayoutType_FreeList then Some (FreeListPage (Page_new pid PageType_FreeList))
      else if type = PageLayoutType_Data then Some (DataPage (Page_new pid PageType_Data))
      else if type = PageLayoutType_Index then Some (IndexPage (Page_new pid PageType_Index))
      else if type = PageLayoutType_Overflow then Some (OverflowPage (Page_new pid PageType_Overflow))
      else if type = PageLayoutType_Metadata then Some (MetadataPage (Page_new pid PageType_Metadata))
      else None)"

definition PageFactory_deserialize :: "PageLayoutType \<Rightarrow> reader \<Rightarrow> typed_page option \<times> reader" where
  "PageFactory_deserialize type r =
     (case createPage type kInvalidPageId of
        None \<Rightarrow> (None, r)
      | Some t \<Rightarrow>
          (case BasePage_deserialize (r, untyped t) of
             (Inl st, (r', p)) \<Rightarrow> (None, r')
           | (Inr _, (r', p)) \<Rightarrow> (Some (retyped t p), r')))"

abbreviation isSupportedType :: "PageLayoutType \<Rightarrow> bool" where
  "isSupportedType t \<equiv> t \<ge> PageLayoutType_Header \<and> t \<le> PageLayoutType_Overflow"

definition validateLayoutType :: "PageLayoutType \<Rightarrow> status + unit" where
  "validateLayoutType t =
     (if \<not> isValidLayoutType t then Inl (invalidArgument ''PageValidator: unsupported page layout type'') else Inr ())"

definition validatePage :: "typed_page \<Rightarrow> status + unit" where
  "validatePage t =
     (case validateLayoutType (BasePage_layoutType (untyped t)) of
        Inl st \<Rightarrow> Inl st
      | Inr _ \<Rightarrow>
          if \<not> PageHeader_isValid (pg_header (untyped t)) then Inl (corruption ''Page: invalid page header'')
          else page_validate t)"

definition validateReserved_header :: "header_layout \<Rightarrow> status + unit" where
  "validateReserved_header l =
     (if \<exists>r \<in> set (hl_reserved l). r \<noteq> 0 then Inl (corruption ''HeaderPage: reserved field non-zero'') else Inr ())"

definition validateReserved_freelist :: "freelist_layout \<Rightarrow> status + unit" where
  "validateReserved_freelist l =
     (if \<exists>r \<in> set (fl_reserved l). r \<noteq> 0 then Inl (corruption ''FreeListPage: reserved field non-zero'') else Inr ())"

definition validateReserved_data :: "data_layout \<Rightarrow> status + unit" where
  "validateReserved_data l =
     (if dl_reserved1 l \<noteq> 0 then Inl (corruption ''DataPage: reserved1 field non-zero'')
      else if \<exists>r \<in> set (dl_reserved2 l). r \<noteq> 0 then Inl (corruption ''DataPage: reserved2 field non-zero'') else Inr ())"

definition validateReserved_overflow :: "overflow_layout \<Rightarrow> status + unit" where
  "validateReserved_overflow l =
     (if \<exists>r \<in> set (ol_reserved l). r \<noteq> 0 then Inl (corruption ''OverflowPage: reserved field non-zero'') else Inr ())"

definition validateReserved_index :: "index_layout \<Rightarrow> status + unit" where
  "validateReserved_index l =
     (if \<exists>r \<in> set (il_reserved l). r \<noteq> 0 then Inl (corruption ''IndexPage: reserved field non-zero'') else Inr ())"

definition validateReserved_metadata :: "metadata_layout \<Rightarrow> status + unit" where
  "validateReserved_metadata l =
     (if \<exists>r \<in> set (ml_reserved l). r \<noteq> 0 then Inl (corruption ''MetadataPage: reserved field non-zero'') else Inr ())"

section \<open>Page statistics\<close>

text \<open>Sizes are 64-bit words; the utilization is an exact real.\<close>

record page_stats =
  ps_totalSize :: u64
  ps_headerOverhead :: u64
  ps_payloadSize :: u64
  ps_reservedBytes :: u64
  ps_usedBytes :: u64
  ps_utilizationPercent :: real
  ps_freeBytes :: u64

definition computeBase :: "page \<Rightarrow> page_stats" where
  "computeBase p =
     \<lparr>ps_totalSize = of_nat kPageSize, ps_headerOverhead = of_nat kPageHeaderSize,
      ps_payloadSize = ucast (ph_payloadSize (pg_header p)), ps_reservedBytes = 0, ps_usedBytes = 0,
      ps_utilizationPercent = 0, ps_freeBytes = 0\<rparr>"

abbreviation utilization :: "page_stats \<Rightarrow> page_stats" where
  "utilization s \<equiv>
     s\<lparr>ps_utilizationPercent := real (unat (ps_usedBytes s)) / real (unat (ps_payloadSize s)) * 100\<rparr>"

definition compute_base_page :: "page \<Rightarrow> page_stats" where
  "compute_base_page p = (computeBase p)\<lparr>ps_freeBytes := ucast (ph_payloadSize (pg_header p))\<rparr>"

definition compute_header :: "page \<Rightarrow> page_stats" where
  "compute_header p =
     utilization ((computeBase p)\<lparr>ps_reservedBytes := 3888, ps_usedBytes := 128 + 4 + 8 + 4, ps_freeBytes := 3888\<rparr>)"

definition compute_freelist :: "page \<Rightarrow> page_stats" where
  "compute_freelist p =
     (let l = FreeListPage_layout p
      in utilization ((computeBase p)\<lparr>ps_reservedBytes := 24,
           ps_usedBytes := 4 + 4 + ucast (fl_freeCount l) * 4,
           ps_freeBytes := ucast (fl_capacity l - fl_freeCount l) * 4\<rparr>))"

definition compute_data :: "page \<Rightarrow> page_stats" where
  "compute_data p =
     utilization ((computeBase p)\<lparr>ps_reservedBytes := 4 + 16, ps_usedBytes := 2 + 2,
       ps_freeBytes := data_layout_availableSpace (DataPage_layout p)\<rparr>)"

definition compute_overflow :: "page \<Rightarrow> page_stats" where
  "compute_overflow p =
     (let l = OverflowPage_layout p
      in utilization ((computeBase p)\<lparr>ps_reservedBytes := 16, ps_usedBytes := 4 + 4 + ucast (ol_payloadSize l),
           ps_freeBytes := overflow_layout_remainingCapacity l\<rparr>))"

definition compute_index :: "page \<Rightarrow> page_stats" where
  "compute_index p =
     (let s = computeBase p
      in utilization (s\<lparr>ps_reservedBytes := 24, ps_usedBytes := 4 + 4 + 4 + 4,
           ps_freeBytes := ps_payloadSize s - 16 - 24\<rparr>))"

definition compute_metadata :: "page \<Rightarrow> page_stats" where
  "compute_metadata p =
     (let s = computeBase p
      in utilization (s\<lparr>ps_reservedBytes := 24, ps_usedBytes := 4 + 4,
           ps_freeBytes := ps_payloadSize s - 8 - 24\<rparr>))"

section \<open>Reading and writing through a layout\<close>

definition payload_wf :: "page \<Rightarrow> bool" where
  "payload_wf p \<longleftrightarrow> length (pg_data p) = kPageSize"

lemma payload_wf_new [simp]: "payload_wf (Page_new pid t)"
  by (simp add: payload_wf_def Page_new_def)

lemma payload_wf_reset: "payload_wf p \<Longrightarrow> payload_wf (Page_reset pid t p)"
  by (simp add: payload_wf_def Page_reset_def Let_def)

lemma payload_wf_base_reset: "payload_wf p \<Longrightarrow> payload_wf (BasePage_reset pid p)"
  by (simp add: BasePage_reset_def payload_wf_reset)

lemma length_payload: "payload_wf p \<Longrightarrow> length (Page_payload p) = 4032"
  by (simp add: payload_wf_def Page_payload_def size_consts)

locale payload_layout =
  fixes img :: "'l \<Rightarrow> u8 list"
    and of_bytes :: "u8 list \<Rightarrow> 'l"
    and wf :: "'l \<Rightarrow> bool"
  assumes length_img: "wf l \<Longrightarrow> length (img l) = 4032"
    and of_img: "wf l \<Longrightarrow> of_bytes (img l) = l"
    and wf_of: "length bs = 4032 \<Longrightarrow> wf (of_bytes bs)"
begin

lemma wf_get: "payload_wf p \<Longrightarrow> wf (get_layout of_bytes p)"
  by (simp add: get_layout_def wf_of length_payload)

lemma payload_put: "payload_wf p \<Longrightarrow> wf l \<Longrightarrow> Page_payload (put_layout img l p) = img l"
  by (simp add: put_layout_def Page_payload_def overlay_def payload_wf_def size_consts length_img)

lemma get_put: "payload_wf p \<Longrightarrow> wf l \<Longrightarrow> get_layout of_bytes (put_layout img l p) = l"
  by (simp add: get_layout_def payload_put of_img)

lemma payload_wf_put: "payload_wf p \<Longrightarrow> wf l \<Longrightarrow> payload_wf (put_layout img l p)"
  by (simp add: put_layout_def payload_wf_def size_consts)

lemma put_put: "payload_wf p \<Longrightarrow> wf l \<Longrightarrow> wf l' \<Longrightarrow>
    put_layout img l' (put_layout img l p) = put_layout img l' p"
  by (simp add: put_layout_def overlay_def payload_wf_def size_consts length_img)

end

lemma header_put [simp]: "pg_header (put_layout img l p) = pg_header p"
  by (simp add: put_layout_def)

lemma id_put [simp]: "Page_id (put_layout img l p) = Page_id p" "Page_type (put_layout img l p) = Page_type p"
  by (simp_all add: Page_id_def Page_type_def)

interpretation header_pl: payload_layout header_layout_image header_layout_of
  "\<lambda>l. database_header_wf (hl_databaseHeader l) \<and> length (hl_reserved l) = 486"
  by unfold_locales (auto simp: header_layout_image_def header_layout_of_def database_header_of_wf)

interpretation freelist_pl: payload_layout freelist_layout_image freelist_layout_of
  "\<lambda>l. length (fl_reserved l) = 3 \<and> length (fl_freePages l) = 1000"
  by unfold_locales (auto simp: freelist_layout_image_def freelist_layout_of_def)

interpretation data_pl: payload_layout data_layout_image data_layout_of
  "\<lambda>l. length (dl_reserved2 l) = 2 \<and> length (dl_data l) = 4008"
  by unfold_locales (auto simp: data_layout_image_def data_layout_of_def)

interpretation overflow_pl: payload_layout overflow_layout_image overflow_layout_of
  "\<lambda>l. length (ol_reserved l) = 2 \<and> length (ol_data l) = 4008"
  by unfold_locales (auto simp: overflow_layout_image_def overflow_layout_of_def)

definition index_layout_wf :: "index_layout \<Rightarrow> bool" where
  "index_layout_wf l \<longleftrightarrow> length (il_reserved l) = 3 \<and> length (il_data l) = 3992"

interpretation index_pl: payload_layout index_layout_image index_layout_of index_layout_wf
  by unfold_locales (auto simp: index_layout_image_def index_layout_of_def index_layout_wf_def)

interpretation metadata_pl: payload_layout metadata_layout_image metadata_layout_of
  "\<lambda>l. length (ml_reserved l) = 3 \<and> length (ml_data l) = 4000"
  by unfold_locales (auto simp: metadata_layout_image_def metadata_layout_of_def)

section \<open>The free list page\<close>

text \<open>The identifiers a free list page holds, in the order of the array.\<close>

definition free_pages :: "page \<Rightarrow> PageId list" where
  "free_pages p = take (unat (FreeListPage_freeCount p)) (fl_freePages (FreeListPage_layout p))"

definition freelist_wf :: "page \<Rightarrow> bool" where
  "freelist_wf p \<longleftrightarrow> payload_wf p \<and> unat (FreeListPage_capacity p) \<le> 1000 \<and>
     FreeListPage_freeCount p \<le> FreeListPage_capacity p"

lemma freelist_layout_put:
  "payload_wf p \<Longrightarrow> length (fl_reserved l) = 3 \<Longrightarrow> length (fl_freePages l) = 1000 \<Longrightarrow>
     FreeListPage_layout (FreeListPage_store l p) = l \<and> payload_wf (FreeListPage_store l p)"
  by (simp add: FreeListPage_layout_def FreeListPage_store_def freelist_pl.get_put freelist_pl.payload_wf_put)

lemma freelist_layout_lengths:
  "payload_wf p \<Longrightarrow> length (fl_reserved (FreeListPage_layout p)) = 3 \<and>
     length (fl_freePages (FreeListPage_layout p)) = 1000"
  using freelist_pl.wf_get [of p] by (simp add: FreeListPage_layout_def)

lemmas freelist_ops = FreeListPage_freeCount_def FreeListPage_capacity_def freelist_wf_def free_pages_def

lemma freelist_create:
  "freelist_wf (FreeListPage_create pid)" "free_pages (FreeListPage_create pid) = []"
  "FreeListPage_capacity (FreeListPage_create pid) = 1000"
proof -
  have p: "payload_wf (BasePage_reset pid FreeListPage_new)"
    by (simp add: payload_wf_base_reset FreeListPage_new_def)
  note q = freelist_layout_put [OF p]
  show "freelist_wf (FreeListPage_create pid)" "free_pages (FreeListPage_create pid) = []"
    "FreeListPage_capacity (FreeListPage_create pid) = 1000"
    using q by (simp_all add: FreeListPage_create_def FreeListPage_reset_def freelist_ops)
qed

lemma length_free_pages: "freelist_wf p \<Longrightarrow> length (free_pages p) = unat (FreeListPage_freeCount p)"
  using freelist_layout_lengths [of p] by (auto simp: freelist_ops word_le_nat_alt)

lemma addFreePage_room:
  assumes "freelist_wf p" "length (free_pages p) < unat (FreeListPage_capacity p)"
  shows "\<exists>p'. addFreePage pid p = Some (Inr (), p') \<and> freelist_wf p' \<and> free_pages p' = free_pages p @ [pid] \<and>
    FreeListPage_capacity p' = FreeListPage_capacity p"
proof -
  define l where "l = FreeListPage_layout p"
  define l' where "l' = l\<lparr>fl_freePages := (fl_freePages l)[unat (fl_freeCount l) := pid],
    fl_freeCount := fl_freeCount l + 1\<rparr>"
  have wf: "payload_wf p" "unat (fl_capacity l) \<le> 1000" and lt: "unat (fl_freeCount l) < unat (fl_capacity l)"
    using assms length_free_pages [OF assms(1)] by (simp_all add: freelist_ops l_def)
  have len: "length (fl_reserved l) = 3" "length (fl_freePages l) = 1000"
    using freelist_layout_lengths [OF wf(1)] by (simp_all add: l_def)
  have suc: "unat (fl_freeCount l + 1) = Suc (unat (fl_freeCount l))"
    using lt wf(2) by (simp add: unat_u32_plus)
  have st: "FreeListPage_layout (FreeListPage_store l' p) = l'" "payload_wf (FreeListPage_store l' p)"
    using freelist_layout_put [OF wf(1), of l'] len by (simp_all add: l'_def)
  have "addFreePage pid p = Some (Inr (), FreeListPage_store l' p)"
    using lt wf(2) by (simp add: addFreePage_def Let_def l_def [symmetric] l'_def word_le_nat_alt)
  moreover have "freelist_wf (FreeListPage_store l' p)"
    using st wf(2) lt suc by (simp add: freelist_ops l'_def word_le_nat_alt)
  moreover have "free_pages (FreeListPage_store l' p) = free_pages p @ [pid]"
    using st suc lt wf(2) len(2)
    by (simp add: free_pages_def FreeListPage_freeCount_def l'_def l_def [symmetric] take_Suc_conv_app_nth)
  moreover have "FreeListPage_capacity (FreeListPage_store l' p) = FreeListPage_capacity p"
    using st by (simp add: FreeListPage_capacity_def l'_def l_def)
  ultimately show ?thesis by blast
qed

text \<open>Adding identifiers one after the other; \<open>None\<close> if one access leaves the array.\<close>

fun addFreePages :: "PageId list \<Rightarrow> page \<Rightarrow> ((status + unit) \<times> page) option" where
  "addFreePages [] p = Some (Inr (), p)"
| "addFreePages (i # is) p =
     (case addFreePage i p of None \<Rightarrow> None
      | Some (Inl st, p') \<Rightarrow> Some (Inl st, p')
      | Some (Inr _, p') \<Rightarrow> addFreePages is p')"

lemma addFreePages_room:
  assumes "freelist_wf p" "length (free_pages p) + length is \<le> unat (FreeListPage_capacity p)"
  shows "\<exists>p'. addFreePages is p = Some (Inr (), p') \<and> freelist_wf p' \<and> free_pages p' = free_pages p @ is \<and>
    FreeListPage_capacity p' = FreeListPage_capacity p"
  using assms
proof (induction "is" arbitrary: p)
  case Nil
  then show ?case by simp
next
  case (Cons i "is")
  then obtain q where q: "addFreePage i p = Some (Inr (), q)" "freelist_wf q"
    "free_pages q = free_pages p @ [i]" "FreeListPage_capacity q = FreeListPage_capacity p"
    using addFreePage_room [of p i] by auto
  with Cons.IH [of q] Cons.prems show ?case by auto
qed

section \<open>Properties\<close>

text \<open>
  A free list page is a list of at most 1000 identifiers: adding up to 1000 identifiers to a
  new page succeeds without leaving the array, the page then holds them in order, every index
  reads its identifier and any index behind them the invalid one, the page is valid, and once
  1000 are held the next one is refused and changes nothing.
\<close>

theorem freelist_page_holds_list:
  assumes "length is \<le> 1000"
  shows "\<exists>p. addFreePages is (FreeListPage_create pid) = Some (Inr (), p) \<and> free_pages p = is \<and>
    (\<forall>i. FreeListPage_freePage i p = Some (if i < length is then is ! i else kInvalidPageId)) \<and>
    FreeListPage_validate p = Inr () \<and>
    (length is = 1000 \<longrightarrow>
       addFreePage j p = Some (Inl (invalidArgument ''FreeListPage: free list is full''), p))"
proof -
  obtain p where p: "addFreePages is (FreeListPage_create pid) = Some (Inr (), p)" "freelist_wf p"
    "free_pages p = is" "FreeListPage_capacity p = 1000"
    using addFreePages_room [OF freelist_create(1), of pid "is"] assms
    by (auto simp: freelist_create)
  have n: "unat (FreeListPage_freeCount p) = length is"
    using length_free_pages [OF p(2)] p(3) by simp
  have "FreeListPage_freePage i p = Some (if i < length is then is ! i else kInvalidPageId)" for i
    using n assms p(3) nth_take [of i "length is" "fl_freePages (FreeListPage_layout p)"]
    by (auto simp: FreeListPage_freePage_def free_pages_def)
  moreover have "FreeListPage_validate p = Inr ()"
    using p(2,4) by (simp add: FreeListPage_validate_def freelist_layout_isValid_def freelist_ops)
  moreover have "addFreePage j p = Some (Inl (invalidArgument ''FreeListPage: free list is full''), p)"
    if "length is = 1000"
    using that n p(4) by (simp add: addFreePage_def Let_def FreeListPage_freeCount_def
        FreeListPage_capacity_def word_le_nat_alt)
  ultimately show ?thesis using p(1,3) by blast
qed

text \<open>
  C39. Resetting a page keeps its type exactly for the types whose two enumerations agree: a
  page of a known type keeps it iff it is a header, metadata, free list or data page. An index
  page that is created has the type of an overflow page and is opened as one, and a created
  overflow page has the type of an index page.
\<close>

theorem reset_keeps_type_iff:
  assumes "isValidLayoutType (BasePage_layoutType p)"
  shows "(Page_type (BasePage_reset pid p) = Page_type p \<longleftrightarrow>
      Page_type p \<in> {PageType_Header, PageType_Metadata, PageType_FreeList, PageType_Data}) \<and>
    Page_type (IndexPage_create pid) = PageType_Overflow \<and>
    createPage_wrap (IndexPage_create pid) = Some (OverflowPage (IndexPage_create pid)) \<and>
    Page_type (OverflowPage_create pid) = PageType_Index"
proof -
  have r: "Page_type (BasePage_reset i q) = toPageLayoutType (Page_type q)" for i q
    by (simp add: BasePage_reset_def BasePage_layoutType_def Page_reset_def Let_def Page_type_def PageHeader_make_def)
  have n: "Page_type (Page_new i t) = t" for i t
    by (simp add: Page_type_def Page_new_def PageHeader_make_def)
  have t: "Page_type (IndexPage_create pid) = PageType_Overflow" "Page_type (OverflowPage_create pid) = PageType_Index"
    by (simp_all add: IndexPage_create_def IndexPage_reset_def IndexPage_store_def IndexPage_new_def
        OverflowPage_create_def OverflowPage_reset_def OverflowPage_store_def OverflowPage_new_def r n
        toPageLayoutType_def)
  have "Page_type p \<in> {1, 2, 3, 4, 5, 6}"
    using assms by (simp add: isValidLayoutType_def BasePage_layoutType_def toPageLayoutType_def
        split: if_splits)
  then have "toPageLayoutType (Page_type p) = Page_type p \<longleftrightarrow> Page_type p \<in> {1, 2, 3, 4}"
    by (auto simp: toPageLayoutType_def)
  with t show ?thesis
    by (simp add: r createPage_wrap_def toPageLayoutType_def)
qed

theorem reset_keeps_type_iff_witness:
  "isValidLayoutType (BasePage_layoutType (Page_new 9 PageType_Index)) \<and>
   Page_type (BasePage_reset 9 (Page_new 9 PageType_Index)) \<noteq> PageType_Index"
proof -
  have v: "isValidLayoutType (BasePage_layoutType (Page_new 9 PageType_Index))"
    and t: "Page_type (Page_new 9 PageType_Index) = PageType_Index"
    by (simp_all add: isValidLayoutType_def BasePage_layoutType_def Page_type_def Page_new_def
        PageHeader_make_def toPageLayoutType_def)
  show ?thesis using reset_keeps_type_iff [OF v, of 9] v t by simp
qed

end
