(* ===== verification/MapStore.thy ===== *)
theory MapStore
  imports Prelude
begin

text \<open>
  The contract of a store of key/value pairs with unique keys: insertion and removal either
  succeed with the effect on a finite map or fail and leave it as it was. Every run of requests
  on a store with this contract is a run of the abstract map.
\<close>

datatype ('k, 'v) request = Put 'k 'v | Remove 'k

fun request_key :: "('k, 'v) request \<Rightarrow> 'k" where
  "request_key (Put k v) = k" | "request_key (Remove k) = k"

text \<open>A run of requests: which of them succeeded, and the state at the end.\<close>

fun map_run :: "('k \<Rightarrow> 'v \<Rightarrow> ('s, unit) op) \<Rightarrow> ('k \<Rightarrow> ('s, unit) op) \<Rightarrow>
    ('k, 'v) request list \<Rightarrow> 's \<Rightarrow> bool list \<times> 's" where
  "map_run ins del [] s = ([], s)"
| "map_run ins del (Put k v # rs) s =
     (case ins k v s of (res, s') \<Rightarrow> case map_run ins del rs s' of (bs, s'') \<Rightarrow>
        ((case res of Inl _ \<Rightarrow> False | Inr _ \<Rightarrow> True) # bs, s''))"
| "map_run ins del (Remove k # rs) s =
     (case del k s of (res, s') \<Rightarrow> case map_run ins del rs s' of (bs, s'') \<Rightarrow>
        ((case res of Inl _ \<Rightarrow> False | Inr _ \<Rightarrow> True) # bs, s''))"

text \<open>
  The specification: a map folded over the requests and their answers, \<open>None\<close> if an answer is
  not one the map allows. A failed insertion is allowed at any time; a removal succeeds exactly
  on the keys that are present.
\<close>

fun map_spec :: "('k \<rightharpoonup> 'v) \<Rightarrow> ('k, 'v) request list \<Rightarrow> bool list \<Rightarrow> ('k \<rightharpoonup> 'v) option" where
  "map_spec m [] [] = Some m"
| "map_spec m (Put k v # rs) (b # bs) =
     (if b then (if m k = None then map_spec (m(k \<mapsto> v)) rs bs else None) else map_spec m rs bs)"
| "map_spec m (Remove k # rs) (b # bs) =
     (if b \<longleftrightarrow> m k \<noteq> None then map_spec (m(k := None)) rs bs else None)"
| "map_spec m _ _ = None"

locale map_store =
  fixes ins :: "'k \<Rightarrow> 'v \<Rightarrow> ('s, unit) op"
    and del :: "'k \<Rightarrow> ('s, unit) op"
    and view :: "'s \<Rightarrow> 'k \<rightharpoonup> 'v"
    and inv :: "'s \<Rightarrow> bool"
    and key_ok :: "'k \<Rightarrow> bool"
  assumes ins_ok: "inv s \<Longrightarrow> key_ok k \<Longrightarrow> ins k v s = (Inr u, s') \<Longrightarrow>
      inv s' \<and> view s k = None \<and> view s' = (view s)(k \<mapsto> v)"
    and ins_error: "inv s \<Longrightarrow> key_ok k \<Longrightarrow> ins k v s = (Inl st, s') \<Longrightarrow> inv s' \<and> view s' = view s"
    and del_ok: "inv s \<Longrightarrow> key_ok k \<Longrightarrow> del k s = (Inr u, s') \<Longrightarrow>
      inv s' \<and> view s k \<noteq> None \<and> view s' = (view s)(k := None)"
    and del_error: "inv s \<Longrightarrow> key_ok k \<Longrightarrow> del k s = (Inl st, s') \<Longrightarrow>
      inv s' \<and> view s k = None \<and> view s' = view s"
begin

lemma run_spec:
  assumes "inv s" "\<forall>r \<in> set rs. key_ok (request_key r)" "map_run ins del rs s = (bs, s')"
  shows "inv s' \<and> map_spec (view s) rs bs = Some (view s')"
  using assms
proof (induction rs arbitrary: s bs)
  case Nil
  then show ?case by simp
next
  case (Cons r rs)
  have ok: "key_ok (request_key r)" and oks: "\<forall>r \<in> set rs. key_ok (request_key r)"
    using Cons.prems(2) by simp_all
  show ?case
  proof (cases r)
    case (Put k v)
    obtain res t where i: "ins k v s = (res, t)" by (cases "ins k v s")
    obtain cs where u: "map_run ins del rs t = (cs, s')"
      and bs: "bs = (case res of Inl _ \<Rightarrow> False | Inr _ \<Rightarrow> True) # cs"
      using Cons.prems(3) i Put by (auto split: prod.splits)
    have k: "key_ok k" using ok Put by simp
    show ?thesis
    proof (cases res)
      case (Inl st)
      with ins_error [OF Cons.prems(1) k] i have "inv t" "view t = view s" by blast+
      with Cons.IH [OF \<open>inv t\<close> oks u] bs Inl Put show ?thesis by simp
    next
      case (Inr a)
      with ins_ok [OF Cons.prems(1) k] i have "inv t" "view s k = None" "view t = (view s)(k \<mapsto> v)" by blast+
      with Cons.IH [OF \<open>inv t\<close> oks u] bs Inr Put show ?thesis by (simp del: fun_upd_apply)
    qed
  next
    case (Remove k)
    obtain res t where i: "del k s = (res, t)" by (cases "del k s")
    obtain cs where u: "map_run ins del rs t = (cs, s')"
      and bs: "bs = (case res of Inl _ \<Rightarrow> False | Inr _ \<Rightarrow> True) # cs"
      using Cons.prems(3) i Remove by (auto split: prod.splits)
    have k: "key_ok k" using ok Remove by simp
    show ?thesis
    proof (cases res)
      case (Inl st)
      with del_error [OF Cons.prems(1) k] i have t: "inv t" "view t = view s" "view s k = None" by blast+
      then have "(view s)(k := None) = view s" by (simp add: fun_upd_idem)
      with Cons.IH [OF t(1) oks u] bs Inl Remove t show ?thesis by (simp del: fun_upd_apply)
    next
      case (Inr a)
      with del_ok [OF Cons.prems(1) k] i have "inv t" "view s k \<noteq> None" "view t = (view s)(k := None)" by blast+
      with Cons.IH [OF \<open>inv t\<close> oks u] bs Inr Remove show ?thesis by (simp del: fun_upd_apply)
    qed
  qed
qed

lemma run_keeps_inv:
  "inv s \<Longrightarrow> \<forall>r \<in> set rs. key_ok (request_key r) \<Longrightarrow> map_run ins del rs s = (bs, s') \<Longrightarrow> inv s'"
  using run_spec by blast

end

end
