(* ===== verification/Nodes.thy ===== *)
theory Nodes
  imports Key Pages MapStore
begin

unbundle bit_operations_syntax

text \<open>
  Nodes of the B-tree (BTreeNode, LeafNode, InternalNode, NodeValidator, SplitMergePlanner,
  BTreeStatistics under src/include/quartz/btree and src/src/btree). A node holds an index page,
  its configuration, its parent and its entries in memory; the derived classes extend the record
  of the base class. Every operation that changes the entries also writes them to the page
  through the binary writer.
\<close>

section \<open>BTreeNode\<close>

record btree_node =
  nd_page :: page
  nd_config :: node_config
  nd_parent :: page_ref

definition kBodyHeaderSize :: nat where
  "kBodyHeaderSize = 4 + PageReference_kSize + 4 + 1 + 1 + 2"

definition maxBodyBytes :: nat where "maxBodyBytes = 3992"

definition keyWireSize :: "node_config \<Rightarrow> nat" where
  "keyWireSize config =
     (if keyType config = KeyType_UInt32 then 1 + 4
      else if keyType config = KeyType_UInt64 then 1 + 8
      else if keyType config = KeyType_Binary then 1 + 2 + unat (binaryKeySize config)
      else 0)"

definition entrySize :: "node_config \<Rightarrow> NodeType \<Rightarrow> nat" where
  "entrySize config type =
     (let keySize = keyWireSize config
      in if type = NodeType_Leaf then keySize + PageReference_kSize else keySize + PageReference_kSize)"

definition computeCapacity :: "node_config \<Rightarrow> NodeType \<Rightarrow> u32" where
  "computeCapacity config type =
     (let entry = entrySize config type
      in if entry = 0 then 0
         else let available = (if maxBodyBytes > kBodyHeaderSize then maxBodyBytes - kBodyHeaderSize else 0)
              in if type = NodeType_Internal
                 then if available \<le> PageReference_kSize then 0
                      else of_nat ((available - PageReference_kSize) div entry)
                 else of_nat (available div entry))"

text \<open>Accessors read the layout of the page.\<close>

definition node_layout :: "'a btree_node_scheme \<Rightarrow> index_layout" where
  "node_layout n = IndexPage_layout (nd_page n)"

definition node_store :: "index_layout \<Rightarrow> 'a btree_node_scheme \<Rightarrow> 'a btree_node_scheme" where
  "node_store l n = n\<lparr>nd_page := IndexPage_store l (nd_page n)\<rparr>"

definition node_pageId :: "'a btree_node_scheme \<Rightarrow> PageId" where "node_pageId n = Page_id (nd_page n)"
definition node_nodeType :: "'a btree_node_scheme \<Rightarrow> NodeType" where "node_nodeType n = il_nodeType (node_layout n)"
definition node_keyCount :: "'a btree_node_scheme \<Rightarrow> u32" where "node_keyCount n = il_keyCount (node_layout n)"
definition node_capacity :: "'a btree_node_scheme \<Rightarrow> u32" where "node_capacity n = il_capacity (node_layout n)"
definition node_flags :: "'a btree_node_scheme \<Rightarrow> u32" where "node_flags n = il_flags (node_layout n)"

definition hasNodeFlag :: "u32 \<Rightarrow> u32 \<Rightarrow> bool" where
  "hasNodeFlag flags flag \<longleftrightarrow> flags AND flag = flag"

definition node_setParent :: "page_ref \<Rightarrow> 'a btree_node_scheme \<Rightarrow> 'a btree_node_scheme" where
  "node_setParent p n = n\<lparr>nd_parent := p\<rparr>"

definition node_setLevel :: "u32 \<Rightarrow> 'a btree_node_scheme \<Rightarrow> 'a btree_node_scheme" where
  "node_setLevel lv n =
     (let n1 = n\<lparr>nd_config := (nd_config n)\<lparr>level := lv\<rparr>\<rparr>; l = node_layout n1
      in node_store (l\<lparr>il_reserved := (il_reserved l)[0 := ucast lv]\<rparr>) n1)"

definition freeSlots :: "'a btree_node_scheme \<Rightarrow> nat" where
  "freeSlots n =
     (if node_capacity n > node_keyCount n then unat (node_capacity n - node_keyCount n) else 0)"

definition occupancyPercent :: "'a btree_node_scheme \<Rightarrow> real" where
  "occupancyPercent n =
     (if node_capacity n = 0 then 0
      else real (unat (node_keyCount n)) / real (unat (node_capacity n)) * 100)"

definition freeSpaceBytes :: "'a btree_node_scheme \<Rightarrow> nat" where
  "freeSpaceBytes n =
     (let used = unat (node_keyCount n) * entrySize (nd_config n) (node_nodeType n);
          total = (if maxBodyBytes > kBodyHeaderSize then maxBodyBytes - kBodyHeaderSize else 0)
      in if total > used then total - used else 0)"

record btree_statistics =
  bs_keyCount :: u32
  bs_capacity :: u32
  bs_freeSlots :: u32
  bs_level :: u32
  bs_occupancyPercent :: real
  bs_estimatedUtilization :: real
  bs_usedBytes :: nat
  bs_freeBytes :: nat
  bs_nodeType :: NodeType

definition node_statistics :: "'a btree_node_scheme \<Rightarrow> btree_statistics" where
  "node_statistics n =
     (let used = unat (node_keyCount n) * entrySize (nd_config n) (node_nodeType n) + kBodyHeaderSize
      in \<lparr>bs_keyCount = node_keyCount n, bs_capacity = node_capacity n, bs_freeSlots = of_nat (freeSlots n),
          bs_level = level (nd_config n), bs_occupancyPercent = occupancyPercent n,
          bs_estimatedUtilization = (if maxBodyBytes > 0 then real used / real maxBodyBytes * 100 else 0),
          bs_usedBytes = used, bs_freeBytes = freeSpaceBytes n, bs_nodeType = node_nodeType n\<rparr>)"

text \<open>
  The body header: written field by field to a new buffer and copied over the start of the data
  area. The layout is a pointer into the page and is never null.
\<close>

definition write_body_header :: "page_ref \<Rightarrow> node_config \<Rightarrow> (writer, unit) op" where
  "write_body_header parent config =
     thenS (write_word kNodeBodyMagic) (thenS (write_ref parent) (thenS (write_word (level config))
       (thenS (write_word (keyType config))
         (thenS (write_word (if allowDuplicates config then 1 else 0 :: u8))
           (write_word (binaryKeySize config))))))"

definition syncHeader :: "('a btree_node_scheme, unit) op" where
  "syncHeader n =
     (case write_body_header (nd_parent n) (nd_config n) (mkWriter emptyBuffer Little) of
        (Inl st, w) \<Rightarrow> (Inl st, n)
      | (Inr _, w) \<Rightarrow>
          let l = node_layout n
          in if woffset w > length (il_data l)
             then (Inl (corruption ''BTreeNode: body header exceeds data area''), n)
             else (Inr (), node_store (l\<lparr>il_data := overlay 0 (take (woffset w) (bytes (wbuf w))) (il_data l),
                     il_reserved := (il_reserved l)[0 := ucast (level (nd_config n))]\<rparr>) n))"

definition initializeHeader :: "NodeType \<Rightarrow> node_config \<Rightarrow> 'a btree_node_scheme \<Rightarrow> 'a btree_node_scheme" where
  "initializeHeader type config n =
     (let p1 = setNodeType type (nd_page n);
          p2 = setKeyCount 0 p1;
          p3 = setCapacity (computeCapacity config type) p2;
          p4 = IndexPage_setFlags (if allowDuplicates config then NodeFlags_AllowDuplicates else 0) p3;
          n1 = n\<lparr>nd_page := p4, nd_config := config, nd_parent := PageReference_invalid\<rparr>;
          l = node_layout n1
      in snd (syncHeader (node_store (l\<lparr>il_reserved := (il_reserved l)[0 := ucast (level config), 1 := 0, 2 := 0],
                il_data := replicate 3992 0\<rparr>) n1)))"

definition loadHeader :: "('a btree_node_scheme, unit) op" where
  "loadHeader n =
     (let l = node_layout n
      in case (read_word :: (reader, u32) op) (mkReader (il_data l) Little) of
           (Inl st, _) \<Rightarrow> (Inl st, n)
         | (Inr magic, r1) \<Rightarrow>
             if magic \<noteq> kNodeBodyMagic \<and> magic \<noteq> 0 then (Inl (corruption ''BTreeNode: invalid body magic''), n)
             else if magic = 0
             then (Inr (), n\<lparr>nd_config := (nd_config n)\<lparr>level := ucast (il_reserved l ! 0)\<rparr>,
                             nd_parent := PageReference_invalid\<rparr>)
             else (case read_ref r1 of
                 (Inl st, _) \<Rightarrow> (Inl st, n)
               | (Inr p, r2) \<Rightarrow> let n2 = n\<lparr>nd_parent := p\<rparr> in
             (case read_word r2 of
                 (Inl st, _) \<Rightarrow> (Inl st, n2)
               | (Inr lv, r3) \<Rightarrow> let n3 = n2\<lparr>nd_config := (nd_config n2)\<lparr>level := lv\<rparr>\<rparr> in
             (case read_word r3 of
                 (Inl st, _) \<Rightarrow> (Inl st, n3)
               | (Inr kt, r4) \<Rightarrow> let n4 = n3\<lparr>nd_config := (nd_config n3)\<lparr>keyType := kt\<rparr>\<rparr> in
             (case (read_word :: (reader, u8) op) r4 of
                 (Inl st, _) \<Rightarrow> (Inl st, n4)
               | (Inr dup, r5) \<Rightarrow> let n5 = n4\<lparr>nd_config := (nd_config n4)\<lparr>allowDuplicates := (dup \<noteq> 0)\<rparr>\<rparr> in
             (case read_word r5 of
                 (Inl st, _) \<Rightarrow> (Inl st, n5)
               | (Inr bsz, r6) \<Rightarrow> (Inr (), n5\<lparr>nd_config := (nd_config n5)\<lparr>binaryKeySize := bsz\<rparr>\<rparr>)))))))"

definition node_validate :: "'a btree_node_scheme \<Rightarrow> status + unit" where
  "node_validate n = IndexPage_validate (nd_page n)"

definition node_serialize :: "'a btree_node_scheme \<Rightarrow> (writer, unit) op" where
  "node_serialize n = BasePage_serialize (nd_page n)"

definition node_deserialize :: "(reader \<times> 'a btree_node_scheme, unit) op" where
  "node_deserialize s =
     (case s of (r, n) \<Rightarrow>
        case BasePage_deserialize (r, nd_page n) of
          (Inl st, (r', p)) \<Rightarrow> (Inl st, (r', n\<lparr>nd_page := p\<rparr>))
        | (Inr _, (r', p)) \<Rightarrow>
            (case loadHeader (n\<lparr>nd_page := p\<rparr>) of (res, n') \<Rightarrow> (res, (r', n'))))"

section \<open>Entries\<close>

definition entryAreaSize :: nat where "entryAreaSize = 3992 - kBodyHeaderSize"

definition entryArea :: "index_layout \<Rightarrow> u8 list" where
  "entryArea l = drop kBodyHeaderSize (il_data l)"

text \<open>\<^verbatim>\<open>std::vector::insert\<close> and \<^verbatim>\<open>erase\<close> at a position inside the vector.\<close>

definition insert_at :: "nat \<Rightarrow> 'a \<Rightarrow> 'a list \<Rightarrow> 'a list" where
  "insert_at i x xs = take i xs @ x # drop i xs"

definition erase_at :: "nat \<Rightarrow> 'a list \<Rightarrow> 'a list" where
  "erase_at i xs = take i xs @ drop (Suc i) xs"

fun write_entries :: "(key \<times> page_ref) list \<Rightarrow> (writer, unit) op" where
  "write_entries [] = ret ()"
| "write_entries ((k, r) # es) = thenS (key_serialize k) (thenS (write_ref r) (write_entries es))"

text \<open>The reading loop: its status, the entries read before it ended, and the reader.\<close>

fun read_entries :: "nat \<Rightarrow> u16 \<Rightarrow> reader \<Rightarrow> (status + unit) \<times> (key \<times> page_ref) list \<times> reader" where
  "read_entries 0 bsz r = (Inr (), [], r)"
| "read_entries (Suc i) bsz r =
     (case key_deserialize bsz r of
        (Inl st, r1) \<Rightarrow> (Inl st, [], r1)
      | (Inr k, r1) \<Rightarrow>
          (case read_ref r1 of
             (Inl st, r2) \<Rightarrow> (Inl st, [], r2)
           | (Inr ref, r2) \<Rightarrow>
               (case read_entries i bsz r2 of (res, es, r3) \<Rightarrow> (res, (k, ref) # es, r3))))"

fun keysOrdered :: "bool \<Rightarrow> key list \<Rightarrow> bool" where
  "keysOrdered dup (a # b # ks) \<longleftrightarrow>
     (if \<not> key_less a b then (if \<not> dup \<or> \<not> key_equal a b then False else keysOrdered dup (b # ks))
      else keysOrdered dup (b # ks))"
| "keysOrdered dup _ \<longleftrightarrow> True"

section \<open>LeafNode\<close>

record leaf_node = btree_node +
  lf_keys :: "key list"
  lf_refs :: "page_ref list"

text \<open>The tail of \<^verbatim>\<open>syncEntries\<close>: the buffer replaces the entry area, and the key count is stored.\<close>

definition store_entries :: "writer \<Rightarrow> nat \<Rightarrow> 'a btree_node_scheme \<Rightarrow> 'a btree_node_scheme" where
  "store_entries w count n =
     (let l = node_layout n;
          area = overlay 0 (take (woffset w) (bytes (wbuf w))) (replicate entryAreaSize 0)
      in node_store (l\<lparr>il_data := take kBodyHeaderSize (il_data l) @ area, il_keyCount := of_nat count\<rparr>) n)"

definition leaf_syncEntries :: "(leaf_node, unit) op" where
  "leaf_syncEntries n =
     (case syncHeader n of
        (Inl st, n1) \<Rightarrow> (Inl st, n1)
      | (Inr _, n1) \<Rightarrow>
          (case write_entries (zip (lf_keys n1) (lf_refs n1)) (mkWriter emptyBuffer Little) of
             (Inl st, w) \<Rightarrow> (Inl st, n1)
           | (Inr _, w) \<Rightarrow>
               if woffset w > entryAreaSize
               then (Inl (corruption ''LeafNode: entry data exceeds page capacity''), n1)
               else (Inr (), store_entries w (length (lf_keys n1)) n1)))"

definition leaf_loadEntries :: "(leaf_node, unit) op" where
  "leaf_loadEntries n =
     (case loadHeader (n\<lparr>lf_keys := [], lf_refs := []\<rparr>) of
        (Inl st, n1) \<Rightarrow> (Inl st, n1)
      | (Inr _, n1) \<Rightarrow>
          (case read_entries (unat (node_keyCount n1)) (binaryKeySize (nd_config n1))
                  (mkReader (entryArea (node_layout n1)) Little) of
             (res, es, r) \<Rightarrow> (res, n1\<lparr>lf_keys := map fst es, lf_refs := map snd es\<rparr>)))"

definition leaf_fromPage :: "page \<Rightarrow> leaf_node" where
  "leaf_fromPage p =
     snd (leaf_loadEntries (snd (loadHeader
       \<lparr>nd_page = p, nd_config = BTreeNodeConfig, nd_parent = PageReference_invalid, lf_keys = [], lf_refs = []\<rparr>)))"

definition leaf_create :: "PageId \<Rightarrow> node_config \<Rightarrow> leaf_node" where
  "leaf_create pid config = initializeHeader NodeType_Leaf config (leaf_fromPage (IndexPage_create pid))"

definition leaf_contains :: "key \<Rightarrow> leaf_node \<Rightarrow> bool" where
  "leaf_contains k n \<longleftrightarrow> findKey (lf_keys n) k < length (lf_keys n)"

definition leaf_insert :: "key \<Rightarrow> page_ref \<Rightarrow> (leaf_node, unit) op" where
  "leaf_insert k ref n =
     (if \<not> PageReference_isValid ref then (Inl (invalidArgument ''LeafNode: invalid page reference''), n)
      else if node_keyCount n \<ge> node_capacity n then (Inl (invalidArgument ''LeafNode: node is full''), n)
      else let pos = lowerBound (lf_keys n) k
           in if \<not> hasNodeFlag (node_flags n) NodeFlags_AllowDuplicates \<and> pos < length (lf_keys n) \<and>
                 key_equal (lf_keys n ! pos) k
              then (Inl (invalidArgument ''LeafNode: duplicate key''), n)
              else let ks = insert_at pos k (lf_keys n)
                   in leaf_syncEntries (n\<lparr>lf_keys := ks, lf_refs := insert_at pos ref (lf_refs n),
                        nd_page := setKeyCount (of_nat (length ks)) (nd_page n)\<rparr>))"

definition leaf_eraseAt :: "nat \<Rightarrow> (leaf_node, unit) op" where
  "leaf_eraseAt index n =
     (if index \<ge> length (lf_keys n) then (Inl (invalidArgument ''LeafNode: index out of range''), n)
      else let ks = erase_at index (lf_keys n)
           in leaf_syncEntries (n\<lparr>lf_keys := ks, lf_refs := erase_at index (lf_refs n),
                nd_page := setKeyCount (of_nat (length ks)) (nd_page n)\<rparr>))"

definition leaf_erase :: "key \<Rightarrow> (leaf_node, unit) op" where
  "leaf_erase k n =
     (let pos = findKey (lf_keys n) k
      in if pos \<ge> length (lf_keys n) then (Inl (invalidArgument ''LeafNode: key not found''), n)
         else leaf_eraseAt pos n)"

text \<open>\<^verbatim>\<open>at\<close> throws outside the vector, which is \<open>None\<close>.\<close>

definition leaf_keyAt :: "nat \<Rightarrow> leaf_node \<Rightarrow> key option" where
  "leaf_keyAt i n = (if i < length (lf_keys n) then Some (lf_keys n ! i) else None)"

definition leaf_referenceAt :: "nat \<Rightarrow> leaf_node \<Rightarrow> page_ref option" where
  "leaf_referenceAt i n = (if i < length (lf_refs n) then Some (lf_refs n ! i) else None)"

definition leaf_assignEntries :: "key list \<Rightarrow> page_ref list \<Rightarrow> (leaf_node, unit) op" where
  "leaf_assignEntries ks refs n =
     (if length ks \<noteq> length refs then (Inl (invalidArgument ''LeafNode: key/reference size mismatch''), n)
      else if length ks > unat (node_capacity n) then (Inl (invalidArgument ''LeafNode: exceeds capacity''), n)
      else leaf_syncEntries (n\<lparr>lf_keys := ks, lf_refs := refs,
             nd_page := setKeyCount (of_nat (length ks)) (nd_page n)\<rparr>))"

definition leaf_validate :: "leaf_node \<Rightarrow> status + unit" where
  "leaf_validate n =
     (case node_validate n of
        Inl st \<Rightarrow> Inl st
      | Inr _ \<Rightarrow>
          if node_nodeType n \<noteq> NodeType_Leaf then Inl (corruption ''LeafNode: wrong node type'')
          else if length (lf_keys n) \<noteq> length (lf_refs n)
          then Inl (corruption ''LeafNode: key/reference count mismatch'')
          else if length (lf_keys n) \<noteq> unat (node_keyCount n)
          then Inl (corruption ''LeafNode: header key count mismatch'')
          else if \<not> keysOrdered (hasNodeFlag (node_flags n) NodeFlags_AllowDuplicates) (lf_keys n)
          then Inl (corruption ''LeafNode: keys not sorted'')
          else Inr ())"

definition leaf_serializeBody :: "leaf_node \<Rightarrow> (writer, unit) op" where
  "leaf_serializeBody n = write_entries (zip (lf_keys n) (lf_refs n))"

definition leaf_deserializeBody :: "(reader \<times> leaf_node, unit) op" where
  "leaf_deserializeBody s =
     (case s of (r, n) \<Rightarrow>
        case read_entries (unat (node_keyCount n)) (binaryKeySize (nd_config n)) r of
          (res, es, r') \<Rightarrow> (res, (r', n\<lparr>lf_keys := map fst es, lf_refs := map snd es\<rparr>)))"

section \<open>InternalNode\<close>

record internal_node = btree_node +
  in_keys :: "key list"
  in_children :: "page_ref list"

definition internal_serializeBody :: "internal_node \<Rightarrow> (writer, unit) op" where
  "internal_serializeBody n =
     thenS (write_ref (if in_children n \<noteq> [] then hd (in_children n) else PageReference_invalid))
       (write_entries (zip (in_keys n) (tl (in_children n))))"

definition internal_syncEntries :: "(internal_node, unit) op" where
  "internal_syncEntries n =
     (case syncHeader n of
        (Inl st, n1) \<Rightarrow> (Inl st, n1)
      | (Inr _, n1) \<Rightarrow>
          (case thenS (write_ref (if in_children n1 \<noteq> [] then hd (in_children n1) else PageReference_invalid))
                  (write_entries (zip (in_keys n1) (tl (in_children n1)))) (mkWriter emptyBuffer Little) of
             (Inl st, w) \<Rightarrow> (Inl st, n1)
           | (Inr _, w) \<Rightarrow>
               if woffset w > entryAreaSize
               then (Inl (corruption ''InternalNode: entry data exceeds page capacity''), n1)
               else (Inr (), store_entries w (length (in_keys n1)) n1)))"

definition internal_loadEntries :: "(internal_node, unit) op" where
  "internal_loadEntries n =
     (case loadHeader (n\<lparr>in_keys := [], in_children := []\<rparr>) of
        (Inl st, n1) \<Rightarrow> (Inl st, n1)
      | (Inr _, n1) \<Rightarrow>
          (case read_ref (mkReader (entryArea (node_layout n1)) Little) of
             (Inl st, r1) \<Rightarrow> (Inl st, n1)
           | (Inr leftChild, r1) \<Rightarrow>
               if node_keyCount n1 = 0 then (Inr (), n1\<lparr>in_children := [leftChild]\<rparr>)
               else (case read_entries (unat (node_keyCount n1)) (binaryKeySize (nd_config n1)) r1 of
                       (res, es, r2) \<Rightarrow>
                         (res, n1\<lparr>in_keys := map fst es, in_children := leftChild # map snd es\<rparr>))))"

definition internal_fromPage :: "page \<Rightarrow> internal_node" where
  "internal_fromPage p =
     snd (internal_loadEntries (snd (loadHeader
       \<lparr>nd_page = p, nd_config = BTreeNodeConfig, nd_parent = PageReference_invalid, in_keys = [], in_children = []\<rparr>)))"

definition internal_create :: "PageId \<Rightarrow> node_config \<Rightarrow> internal_node" where
  "internal_create pid config =
     (initializeHeader NodeType_Internal config (internal_fromPage (IndexPage_create pid)))
       \<lparr>in_children := [PageReference_invalid]\<rparr>"

definition internal_insert :: "nat \<Rightarrow> key \<Rightarrow> page_ref \<Rightarrow> (internal_node, unit) op" where
  "internal_insert index k rightChild n =
     (if \<not> PageReference_isValid rightChild
      then (Inl (invalidArgument ''InternalNode: invalid right child reference''), n)
      else if index > length (in_keys n) then (Inl (invalidArgument ''InternalNode: index out of range''), n)
      else if length (in_keys n) \<ge> unat (node_capacity n) then (Inl (invalidArgument ''InternalNode: node is full''), n)
      else if \<not> hasNodeFlag (node_flags n) NodeFlags_AllowDuplicates \<and> (\<exists>existing \<in> set (in_keys n). key_equal existing k)
      then (Inl (invalidArgument ''InternalNode: duplicate key''), n)
      else let ks = insert_at index k (in_keys n)
           in internal_syncEntries (n\<lparr>in_keys := ks, in_children := insert_at (index + 1) rightChild (in_children n),
                nd_page := setKeyCount (of_nat (length ks)) (nd_page n)\<rparr>))"

definition internal_eraseAt :: "nat \<Rightarrow> (internal_node, unit) op" where
  "internal_eraseAt index n =
     (if index \<ge> length (in_keys n) then (Inl (invalidArgument ''InternalNode: index out of range''), n)
      else let ks = erase_at index (in_keys n)
           in internal_syncEntries (n\<lparr>in_keys := ks, in_children := erase_at (index + 1) (in_children n),
                nd_page := setKeyCount (of_nat (length ks)) (nd_page n)\<rparr>))"

definition internal_keyAt :: "nat \<Rightarrow> internal_node \<Rightarrow> key option" where
  "internal_keyAt i n = (if i < length (in_keys n) then Some (in_keys n ! i) else None)"

definition internal_childAt :: "nat \<Rightarrow> internal_node \<Rightarrow> page_ref option" where
  "internal_childAt i n = (if i < length (in_children n) then Some (in_children n ! i) else None)"

definition internal_setKeyAt :: "nat \<Rightarrow> key \<Rightarrow> (internal_node, unit) op" where
  "internal_setKeyAt index k n =
     (if index \<ge> length (in_keys n) then (Inl (invalidArgument ''InternalNode: key index out of range''), n)
      else internal_syncEntries (n\<lparr>in_keys := (in_keys n)[index := k]\<rparr>))"

definition internal_assignEntries :: "key list \<Rightarrow> page_ref list \<Rightarrow> (internal_node, unit) op" where
  "internal_assignEntries ks children n =
     (if length children \<noteq> length ks + 1 then (Inl (invalidArgument ''InternalNode: child count mismatch''), n)
      else if length ks > unat (node_capacity n) then (Inl (invalidArgument ''InternalNode: exceeds capacity''), n)
      else internal_syncEntries (n\<lparr>in_keys := ks, in_children := children,
             nd_page := setKeyCount (of_nat (length ks)) (nd_page n)\<rparr>))"

definition internal_validate :: "internal_node \<Rightarrow> status + unit" where
  "internal_validate n =
     (case node_validate n of
        Inl st \<Rightarrow> Inl st
      | Inr _ \<Rightarrow>
          if node_nodeType n \<noteq> NodeType_Internal then Inl (corruption ''InternalNode: wrong node type'')
          else if length (in_children n) \<noteq> length (in_keys n) + 1
          then Inl (corruption ''InternalNode: child count mismatch'')
          else if length (in_keys n) \<noteq> unat (node_keyCount n)
          then Inl (corruption ''InternalNode: header key count mismatch'')
          else if \<not> keysOrdered (hasNodeFlag (node_flags n) NodeFlags_AllowDuplicates) (in_keys n)
          then Inl (corruption ''InternalNode: keys not sorted'')
          else Inr ())"

definition internal_deserializeBody :: "(reader \<times> internal_node, unit) op" where
  "internal_deserializeBody s =
     (case s of (r, n) \<Rightarrow>
        case read_ref r of
          (Inl st, r1) \<Rightarrow> (Inl st, (r1, n\<lparr>in_keys := [], in_children := []\<rparr>))
        | (Inr leftChild, r1) \<Rightarrow>
            (case read_entries (unat (node_keyCount n)) (binaryKeySize (nd_config n)) r1 of
               (res, es, r2) \<Rightarrow>
                 (res, (r2, n\<lparr>in_keys := map fst es, in_children := leftChild # map snd es\<rparr>))))"

section \<open>Validator and planner\<close>

definition validateSerializedBody :: "node_config \<Rightarrow> NodeType \<Rightarrow> u32 \<Rightarrow> (reader, unit) op" where
  "validateSerializedBody config type keyCount r =
     (if type = NodeType_Leaf
      then (case read_entries (unat keyCount) (binaryKeySize config) r of (res, es, r') \<Rightarrow> (res, r'))
      else (case read_ref r of
              (Inl st, r1) \<Rightarrow> (Inl st, r1)
            | (Inr leftChild, r1) \<Rightarrow>
                (case read_entries (unat keyCount) (binaryKeySize config) r1 of (res, es, r') \<Rightarrow> (res, r'))))"

record split_plan =
  sp_feasible :: bool
  sp_splitPosition :: u32
  sp_promotedKey :: key
  sp_leftOccupancy :: real
  sp_rightOccupancy :: real

definition SplitPlan :: split_plan where
  "SplitPlan = \<lparr>sp_feasible = False, sp_splitPosition = 0, sp_promotedKey = UInt32 0,
     sp_leftOccupancy = 0, sp_rightOccupancy = 0\<rparr>"

record merge_plan =
  mp_feasible :: bool
  mp_combinedOccupancy :: real
  mp_resultingKeyCount :: u32

definition makeSplitPlan :: "u32 \<Rightarrow> u32 \<Rightarrow> key \<Rightarrow> u32 \<Rightarrow> split_plan" where
  "makeSplitPlan keyCount capacity promoted splitPos =
     (if keyCount = 0 \<or> capacity = 0 then SplitPlan
      else \<lparr>sp_feasible = (splitPos > 0 \<and> splitPos < keyCount), sp_splitPosition = splitPos,
            sp_promotedKey = promoted,
            sp_leftOccupancy = real (unat splitPos) / real (unat capacity) * 100,
            sp_rightOccupancy = real (unat (keyCount - splitPos)) / real (unat capacity) * 100\<rparr>)"

text \<open>Half of a 32-bit count in double precision, truncated, is the integer half of the count.\<close>

definition planLeafSplit :: "leaf_node \<Rightarrow> split_plan option" where
  "planLeafSplit n =
     (let count = node_keyCount n; cap = node_capacity n
      in if count = 0 \<or> cap = 0 then Some SplitPlan
         else let splitPos = count div 2; pos = (if splitPos > 0 then splitPos else 1)
              in case leaf_keyAt (unat pos) n of
                   None \<Rightarrow> None
                 | Some promoted \<Rightarrow> Some (makeSplitPlan count cap promoted pos))"

definition planInternalSplit :: "internal_node \<Rightarrow> split_plan option" where
  "planInternalSplit n =
     (let count = node_keyCount n; cap = node_capacity n
      in if count = 0 \<or> cap = 0 then Some SplitPlan
         else let splitPos = count div 2; pos = (if splitPos > 0 then splitPos else 1)
              in case internal_keyAt (unat pos) n of
                   None \<Rightarrow> None
                 | Some promoted \<Rightarrow> Some (makeSplitPlan count cap promoted pos))"

definition planLeafMerge :: "leaf_node \<Rightarrow> leaf_node \<Rightarrow> merge_plan" where
  "planLeafMerge left right =
     (let combined = node_keyCount left + node_keyCount right; cap = node_capacity left
      in \<lparr>mp_feasible = (combined \<le> cap),
          mp_combinedOccupancy = (if cap > 0 then real (unat combined) / real (unat cap) * 100 else 0),
          mp_resultingKeyCount = combined\<rparr>)"

definition planInternalMerge :: "internal_node \<Rightarrow> internal_node \<Rightarrow> merge_plan" where
  "planInternalMerge left right =
     (let combined = node_keyCount left + node_keyCount right; cap = node_capacity left
      in \<lparr>mp_feasible = (combined \<le> cap),
          mp_combinedOccupancy = (if cap > 0 then real (unat combined) / real (unat cap) * 100 else 0),
          mp_resultingKeyCount = combined\<rparr>)"

section \<open>What the writer appends\<close>

text \<open>\<open>appends m n\<close>: on a writer at the end of its buffer, \<open>m\<close> succeeds and adds \<open>n\<close> zero bytes.\<close>

definition appends :: "(writer, unit) op \<Rightarrow> nat \<Rightarrow> bool" where
  "appends m n \<longleftrightarrow> (\<forall>w. at_end w \<longrightarrow> (\<exists>w'. m w = (Inr (), w') \<and> at_end w' \<and>
     bytes (wbuf w') = bytes (wbuf w) @ replicate n 0))"

named_theorems appends_rules \<open>what the serialisers append\<close>

lemma appends_writeBytes [appends_rules]: "appends (writeBytes src) (length src)"
  using writeBytes_at_end by (auto simp: appends_def)

lemma appends_word [appends_rules]: "appends (write_word (w :: 'a::len word)) (LENGTH('a) div 8)"
  using appends_writeBytes [of "mem w"] by (simp add: write_word_def)

lemma appends_ref [appends_rules]: "appends (write_ref r) 20"
  using appends_writeBytes [of "page_ref_image r"] by (simp add: write_ref_def)

lemma appends_ret [appends_rules]: "appends (ret ()) 0"
  by (simp add: appends_def)

lemma appends_thenS [appends_rules]:
  assumes "appends a n" "appends b m"
  shows "appends (thenS a b) (n + m)"
  unfolding appends_def
proof (intro allI impI)
  fix w assume "at_end w"
  then obtain w1 where w1: "a w = (Inr (), w1)" "at_end w1" "bytes (wbuf w1) = bytes (wbuf w) @ replicate n 0"
    using assms(1) unfolding appends_def by blast
  then obtain w2 where "b w1 = (Inr (), w2)" "at_end w2" "bytes (wbuf w2) = bytes (wbuf w1) @ replicate m 0"
    using assms(2) unfolding appends_def by blast
  with w1 show "\<exists>w'. thenS a b w = (Inr (), w') \<and> at_end w' \<and> bytes (wbuf w') = bytes (wbuf w) @ replicate (n + m) 0"
    by (simp add: replicate_add)
qed

lemma appends_key [appends_rules]: "appends (key_serialize k) (serializedSize k)"
proof (cases k)
  case (UInt32 v)
  with appends_thenS [OF appends_word [of "key_type k"] appends_word [of v]] show ?thesis
    by (simp add: key_serialize_def serializedSize_def)
next
  case (UInt64 v)
  with appends_thenS [OF appends_word [of "key_type k"] appends_word [of v]] show ?thesis
    by (simp add: key_serialize_def serializedSize_def)
next
  case (Binary bs)
  have "appends (if length bs > 0 then writeBytes bs else ret ()) (length bs)"
    using appends_writeBytes [of bs] appends_ret by simp
  from appends_thenS [OF appends_word [of "key_type k"]
      appends_thenS [OF appends_word [of "of_nat (length bs) :: u16"] this]] Binary
  show ?thesis by (simp add: key_serialize_def serializedSize_def)
qed

definition entries_size :: "key list \<Rightarrow> nat" where
  "entries_size ks = (\<Sum>k\<leftarrow>ks. serializedSize k + 20)"

lemma appends_entries [appends_rules]: "appends (write_entries es) (entries_size (map fst es))"
proof (induction es rule: write_entries.induct)
  case 1
  then show ?case by (simp add: appends_def entries_size_def)
next
  case (2 k r es)
  from appends_thenS [OF appends_key [of k] appends_thenS [OF appends_ref [of r] 2]]
  show ?case by (simp add: entries_size_def algebra_simps)
qed

lemma appends_body_header: "appends (write_body_header p c) 32"
proof -
  have u8: "appends (write_word (x :: u8)) 1" and u16: "appends (write_word (y :: u16)) 2"
    and u32: "appends (write_word (z :: u32)) 4" for x y z
    using appends_word [of x] appends_word [of y] appends_word [of z] by simp_all
  have "appends (write_body_header p c) (4 + (20 + (4 + (1 + (1 + 2)))))"
    unfolding write_body_header_def by (intro appends_thenS appends_ref u8 u16 u32)
  then show ?thesis by simp
qed

lemma appends_new:
  assumes "appends m n"
  obtains w where "m (mkWriter emptyBuffer Little) = (Inr (), w)" "woffset w = n" "bytes (wbuf w) = replicate n 0"
proof -
  have "at_end (mkWriter emptyBuffer Little)" by simp
  with assms obtain w where "m (mkWriter emptyBuffer Little) = (Inr (), w)" "at_end w"
    "bytes (wbuf w) = bytes (wbuf (mkWriter emptyBuffer Little)) @ replicate n 0"
    unfolding appends_def by blast
  then show thesis using that by (simp add: at_end_def mkWriter_def emptyBuffer_def)
qed

section \<open>Effect of writing a node to its page\<close>

definition node_wf :: "'a btree_node_scheme \<Rightarrow> bool" where
  "node_wf n \<longleftrightarrow> payload_wf (nd_page n)"

lemma layout_store:
  "node_wf n \<Longrightarrow> index_layout_wf l \<Longrightarrow> node_layout (node_store l n) = l"
  "node_wf n \<Longrightarrow> index_layout_wf l \<Longrightarrow> node_wf (node_store l n)"
  by (simp_all add: node_wf_def node_layout_def node_store_def IndexPage_layout_def IndexPage_store_def
      index_pl.get_put index_pl.payload_wf_put)

lemma layout_wf: "node_wf n \<Longrightarrow> index_layout_wf (node_layout n)"
  using index_pl.wf_get by (simp add: node_wf_def node_layout_def IndexPage_layout_def)

lemma store_store:
  "node_wf n \<Longrightarrow> index_layout_wf l \<Longrightarrow> index_layout_wf l' \<Longrightarrow>
     node_store l' (node_store l n) = node_store l' n"
  by (simp add: node_wf_def node_store_def IndexPage_store_def index_pl.put_put)

lemma store_frame [simp]:
  "nd_config (node_store l n) = nd_config n" "nd_parent (node_store l n) = nd_parent n"
  "node_pageId (node_store l n) = node_pageId n"
  by (simp_all add: node_store_def node_pageId_def IndexPage_store_def)

text \<open>The layout after the header was written: its first 32 bytes are zero.\<close>

definition header_synced :: "u32 \<Rightarrow> index_layout \<Rightarrow> index_layout" where
  "header_synced lv l =
     l\<lparr>il_data := replicate 32 0 @ drop 32 (il_data l), il_reserved := (il_reserved l)[0 := ucast lv]\<rparr>"

lemma header_synced_wf: "index_layout_wf l \<Longrightarrow> index_layout_wf (header_synced lv l)"
  by (simp add: header_synced_def index_layout_wf_def)

lemma syncHeader_effect:
  assumes "node_wf n"
  shows "syncHeader n = (Inr (), node_store (header_synced (level (nd_config n)) (node_layout n)) n)"
proof -
  obtain w where w: "write_body_header (nd_parent n) (nd_config n) (mkWriter emptyBuffer Little) = (Inr (), w)"
    "woffset w = 32" "bytes (wbuf w) = replicate 32 0"
    using appends_new [OF appends_body_header] by blast
  have "length (il_data (node_layout n)) = 3992"
    using layout_wf [OF assms] by (simp add: index_layout_wf_def)
  with w show ?thesis
    by (simp add: syncHeader_def Let_def header_synced_def overlay_def)
qed

text \<open>The layout after the entries were written: the whole data area is zero.\<close>

definition entries_synced :: "u32 \<Rightarrow> nat \<Rightarrow> index_layout \<Rightarrow> index_layout" where
  "entries_synced lv count l =
     l\<lparr>il_data := replicate 3992 0, il_reserved := (il_reserved l)[0 := ucast lv], il_keyCount := of_nat count\<rparr>"

lemma entries_synced_wf: "index_layout_wf l \<Longrightarrow> index_layout_wf (entries_synced lv count l)"
  by (simp add: entries_synced_def index_layout_wf_def)

lemma area_consts: "entryAreaSize = 3960" "kBodyHeaderSize = 32"
  by (simp_all add: entryAreaSize_def kBodyHeaderSize_def PageReference_kSize_def)

lemma store_entries_effect:
  assumes "node_wf n" "woffset w = m" "bytes (wbuf w) = replicate m 0" "m \<le> 3960"
  shows "store_entries w count (node_store (header_synced lv (node_layout n)) n) =
    node_store (entries_synced lv count (node_layout n)) n"
proof -
  note wf = layout_wf [OF assms(1)]
  have "replicate 32 0 @ overlay 0 (replicate m 0) (replicate 3960 0) = replicate 3992 (0 :: u8)"
    using assms(4) by (simp add: overlay_def replicate_add [symmetric])
  then have "(header_synced lv (node_layout n))\<lparr>il_data := take 32 (il_data (header_synced lv (node_layout n))) @
      overlay 0 (take (woffset w) (bytes (wbuf w))) (replicate 3960 0), il_keyCount := of_nat count\<rparr> =
      entries_synced lv count (node_layout n)"
    using assms(2,3) by (simp add: header_synced_def entries_synced_def)
  with layout_store [OF assms(1) header_synced_wf [OF wf]]
    store_store [OF assms(1) header_synced_wf [OF wf] entries_synced_wf [OF wf]]
  show ?thesis by (simp add: store_entries_def Let_def area_consts)
qed

lemma leaf_sync_effect:
  assumes "node_wf n" "length (lf_keys n) = length (lf_refs n)" "entries_size (lf_keys n) \<le> 3960"
  shows "leaf_syncEntries n =
    (Inr (), node_store (entries_synced (level (nd_config n)) (length (lf_keys n)) (node_layout n)) n)"
proof -
  obtain w where w: "write_entries (zip (lf_keys n) (lf_refs n)) (mkWriter emptyBuffer Little) = (Inr (), w)"
    "woffset w = entries_size (lf_keys n)" "bytes (wbuf w) = replicate (entries_size (lf_keys n)) 0"
    using appends_new [OF appends_entries [of "zip (lf_keys n) (lf_refs n)"]] assms(2) by auto
  have f: "lf_keys (node_store l n) = lf_keys n" "lf_refs (node_store l n) = lf_refs n" for l
    by (simp_all add: node_store_def)
  show ?thesis
    using syncHeader_effect [OF assms(1)] w assms(3) store_entries_effect [OF assms(1) w(2,3) assms(3)]
    by (simp add: leaf_syncEntries_def f area_consts)
qed

lemma internal_sync_effect:
  assumes "node_wf n" "length (in_children n) = Suc (length (in_keys n))" "20 + entries_size (in_keys n) \<le> 3960"
  shows "internal_syncEntries n =
    (Inr (), node_store (entries_synced (level (nd_config n)) (length (in_keys n)) (node_layout n)) n)"
proof -
  obtain c cs where c: "in_children n = c # cs" using assms(2) by (cases "in_children n") auto
  have "appends (thenS (write_ref c) (write_entries (zip (in_keys n) cs))) (20 + entries_size (in_keys n))"
    using appends_thenS [OF appends_ref appends_entries [of "zip (in_keys n) cs"]] assms(2) c by simp
  then obtain w where w: "thenS (write_ref c) (write_entries (zip (in_keys n) cs)) (mkWriter emptyBuffer Little) = (Inr (), w)"
    "woffset w = 20 + entries_size (in_keys n)" "bytes (wbuf w) = replicate (20 + entries_size (in_keys n)) 0"
    using appends_new by blast
  have f: "in_keys (node_store l n) = in_keys n" "in_children (node_store l n) = c # cs" for l
    by (simp_all add: node_store_def c)
  show ?thesis
    using syncHeader_effect [OF assms(1)] w assms(3) store_entries_effect [OF assms(1) w(2,3) assms(3)]
    by (simp add: internal_syncEntries_def f area_consts)
qed

section \<open>Capacity\<close>

text \<open>The keys a node of a given configuration is meant to hold.\<close>

definition key_typed :: "node_config \<Rightarrow> key \<Rightarrow> bool" where
  "key_typed config k \<longleftrightarrow> key_type k = keyType config \<and>
     (case k of Binary bs \<Rightarrow> length bs = unat (binaryKeySize config) | _ \<Rightarrow> True)"

lemma serializedSize_typed: "key_typed config k \<Longrightarrow> serializedSize k = keyWireSize config"
  by (cases k) (auto simp: key_typed_def serializedSize_def keyWireSize_def key_type_def
      KeyType_UInt32_def KeyType_UInt64_def KeyType_Binary_def)

lemma entries_size_typed:
  "\<forall>k \<in> set ks. key_typed config k \<Longrightarrow> entries_size ks = length ks * (keyWireSize config + 20)"
  by (induction ks) (auto simp: entries_size_def serializedSize_typed)

lemma unat_computeCapacity:
  "unat (computeCapacity config NodeType_Leaf) = 3960 div (keyWireSize config + 20)"
  "unat (computeCapacity config NodeType_Internal) = 3940 div (keyWireSize config + 20)"
proof -
  have "3960 div (keyWireSize config + 20) \<le> 3960" "3940 div (keyWireSize config + 20) \<le> 3940"
    by (rule div_le_dividend)+
  then have "3960 div (keyWireSize config + 20) < 4294967296" "3940 div (keyWireSize config + 20) < 4294967296"
    by linarith+
  then show "unat (computeCapacity config NodeType_Leaf) = 3960 div (keyWireSize config + 20)"
    "unat (computeCapacity config NodeType_Internal) = 3940 div (keyWireSize config + 20)"
    by (simp_all add: computeCapacity_def entrySize_def maxBodyBytes_def area_consts PageReference_kSize_def
        NodeType_Leaf_def NodeType_Internal_def Let_def unat_of_nat)
qed

lemma capacity_iff:
  "n \<le> unat (computeCapacity config NodeType_Leaf) \<longleftrightarrow> n * (keyWireSize config + 20) \<le> 3960"
  "n \<le> unat (computeCapacity config NodeType_Internal) \<longleftrightarrow> 20 + n * (keyWireSize config + 20) \<le> 3960"
  by (simp_all only: unat_computeCapacity) (auto simp: less_eq_div_iff_mult_less_eq)

section \<open>Leaf operations\<close>

text \<open>A leaf with other entries, written to its page.\<close>

definition leaf_with :: "key list \<Rightarrow> page_ref list \<Rightarrow> leaf_node \<Rightarrow> leaf_node" where
  "leaf_with ks refs n =
     node_store (entries_synced (level (nd_config n)) (length ks) (node_layout n)) (n\<lparr>lf_keys := ks, lf_refs := refs\<rparr>)"

lemma leaf_with_sel [simp]:
  "lf_keys (leaf_with ks refs n) = ks" "lf_refs (leaf_with ks refs n) = refs"
  "nd_config (leaf_with ks refs n) = nd_config n" "nd_parent (leaf_with ks refs n) = nd_parent n"
  by (simp_all add: leaf_with_def node_store_def)

lemma leaf_with_layout:
  assumes "node_wf n"
  shows "node_layout (leaf_with ks refs n) = entries_synced (level (nd_config n)) (length ks) (node_layout n)"
    "node_wf (leaf_with ks refs n)" "node_pageId (leaf_with ks refs n) = node_pageId n"
proof -
  have a: "node_wf (n\<lparr>lf_keys := ks, lf_refs := refs\<rparr>)" using assms by (simp add: node_wf_def)
  note b = layout_store [OF a entries_synced_wf [OF layout_wf [OF assms]]]
  show "node_layout (leaf_with ks refs n) = entries_synced (level (nd_config n)) (length ks) (node_layout n)"
    "node_wf (leaf_with ks refs n)" by (simp_all add: leaf_with_def b)
  show "node_pageId (leaf_with ks refs n) = node_pageId n"
    by (simp add: leaf_with_def) (simp add: node_pageId_def)
qed

lemma leaf_with_fields:
  assumes "node_wf n"
  shows "node_capacity (leaf_with ks refs n) = node_capacity n" "node_flags (leaf_with ks refs n) = node_flags n"
    "node_nodeType (leaf_with ks refs n) = node_nodeType n" "node_keyCount (leaf_with ks refs n) = of_nat (length ks)"
  by (simp_all add: node_capacity_def node_flags_def node_nodeType_def node_keyCount_def
      leaf_with_layout [OF assms] entries_synced_def)

lemma setKeyCount_store:
  "n\<lparr>nd_page := setKeyCount c (nd_page n)\<rparr> = node_store ((node_layout n)\<lparr>il_keyCount := c\<rparr>) n"
  by (simp add: setKeyCount_def node_store_def node_layout_def)

lemma leaf_sync_with:
  assumes "node_wf n" "length ks = length refs" "entries_size ks \<le> 3960"
  shows "leaf_syncEntries (n\<lparr>lf_keys := ks, lf_refs := refs, nd_page := setKeyCount c (nd_page n)\<rparr>) =
    (Inr (), leaf_with ks refs n)"
proof -
  let ?m = "n\<lparr>lf_keys := ks, lf_refs := refs\<rparr>"
  let ?l = "(node_layout n)\<lparr>il_keyCount := c\<rparr>"
  have m: "node_wf ?m" "node_layout ?m = node_layout n" using assms(1) by (simp_all add: node_wf_def node_layout_def)
  have l: "index_layout_wf ?l" using layout_wf [OF assms(1)] by (simp add: index_layout_wf_def)
  have eq: "n\<lparr>lf_keys := ks, lf_refs := refs, nd_page := setKeyCount c (nd_page n)\<rparr> = node_store ?l ?m"
    using setKeyCount_store [where n = ?m and c = c] m(2) by simp
  have f: "lf_keys (node_store ?l ?m) = ks" "lf_refs (node_store ?l ?m) = refs"
    by (simp_all add: node_store_def)
  have "leaf_syncEntries (node_store ?l ?m) = (Inr (), node_store
      (entries_synced (level (nd_config n)) (length ks) ?l) (node_store ?l ?m))"
    using leaf_sync_effect [OF layout_store(2) [OF m(1) l]] f assms(2,3) layout_store(1) [OF m(1) l] by simp
  also have "node_store (entries_synced (level (nd_config n)) (length ks) ?l) (node_store ?l ?m) =
      leaf_with ks refs n"
    using store_store [OF m(1) l entries_synced_wf [OF l]] by (simp add: leaf_with_def entries_synced_def)
  finally show ?thesis unfolding eq .
qed

lemma length_insert_at [simp]: "i \<le> length xs \<Longrightarrow> length (insert_at i x xs) = Suc (length xs)"
  by (simp add: insert_at_def)

lemma length_erase_at [simp]: "i < length xs \<Longrightarrow> length (erase_at i xs) = length xs - 1"
  by (simp add: erase_at_def)

lemma set_insert_at: "set (insert_at i x xs) = insert x (set xs)"
proof -
  have "set xs = set (take i xs) \<union> set (drop i xs)" by (metis append_take_drop_id set_append)
  then show ?thesis by (auto simp: insert_at_def)
qed

lemma set_erase_at: "set (erase_at i xs) \<subseteq> set xs"
  by (auto simp: erase_at_def dest: in_set_takeD in_set_dropD)

definition leaf_ordered :: "bool \<Rightarrow> key list \<Rightarrow> bool" where
  "leaf_ordered dup ks \<longleftrightarrow> sorted ks \<and> (dup \<or> distinct ks)"

lemma leaf_ordered_Cons2:
  "leaf_ordered dup (a # b # ks) \<longleftrightarrow> (a < b \<or> dup \<and> a = b) \<and> leaf_ordered dup (b # ks)"
proof (cases "sorted (b # ks)")
  case True
  then have "a \<notin> set (b # ks)" if "a < b" using that by auto
  with True show ?thesis by (auto simp: leaf_ordered_def)
qed (auto simp: leaf_ordered_def)

lemma keysOrdered_iff: "keysOrdered dup ks \<longleftrightarrow> leaf_ordered dup ks"
proof (induction dup ks rule: keysOrdered.induct)
  case (1 dup a b ks)
  then show ?case by (cases "a < b"; cases dup; cases "a = b") (simp_all add: leaf_ordered_Cons2)
qed (auto simp: leaf_ordered_def)

text \<open>The invariant of a leaf.\<close>

definition leaf_wf :: "leaf_node \<Rightarrow> bool" where
  "leaf_wf n \<longleftrightarrow> node_wf n \<and> node_nodeType n = NodeType_Leaf \<and>
     node_capacity n = computeCapacity (nd_config n) NodeType_Leaf \<and> 0 < node_capacity n \<and>
     hasNodeFlag (node_flags n) NodeFlags_AllowDuplicates = allowDuplicates (nd_config n) \<and>
     length (lf_keys n) = length (lf_refs n) \<and> unat (node_keyCount n) = length (lf_keys n) \<and>
     length (lf_keys n) \<le> unat (node_capacity n) \<and>
     leaf_ordered (allowDuplicates (nd_config n)) (lf_keys n) \<and>
     (\<forall>k \<in> set (lf_keys n). key_typed (nd_config n) k)"

lemma leaf_fits:
  assumes "leaf_wf n" "length ks \<le> unat (node_capacity n)" "\<forall>k \<in> set ks. key_typed (nd_config n) k"
  shows "entries_size ks \<le> 3960"
  using assms capacity_iff(1) [of "length ks" "nd_config n"] by (simp add: leaf_wf_def entries_size_typed)

lemma leaf_with_wf:
  assumes "leaf_wf n" "length ks = length refs" "length ks \<le> unat (node_capacity n)"
    "leaf_ordered (allowDuplicates (nd_config n)) ks" "\<forall>k \<in> set ks. key_typed (nd_config n) k"
  shows "leaf_wf (leaf_with ks refs n)"
proof -
  have wf: "node_wf n" using assms(1) by (simp add: leaf_wf_def)
  have "unat (node_capacity n) \<le> 4294967295" by simp
  with assms(3) have "length ks < 4294967296" by linarith
  then have "unat (of_nat (length ks) :: u32) = length ks" by (simp add: unat_of_nat)
  moreover have "0 < node_capacity n" "node_nodeType n = NodeType_Leaf"
    "node_capacity n = computeCapacity (nd_config n) NodeType_Leaf"
    "hasNodeFlag (node_flags n) NodeFlags_AllowDuplicates = allowDuplicates (nd_config n)"
    using assms(1) by (auto simp: leaf_wf_def)
  ultimately show ?thesis
    using assms(2-5) leaf_with_layout(2) [OF wf] by (simp add: leaf_wf_def leaf_with_fields [OF wf])
qed

lemma ordered_insert_at:
  assumes "leaf_ordered dup ks" "dup \<or> k \<notin> set ks"
  shows "leaf_ordered dup (insert_at (lowerBound ks k) k ks)"
proof -
  have s: "sorted ks" using assms(1) by (simp add: leaf_ordered_def)
  let ?a = "take (lowerBound ks k) ks" and ?b = "drop (lowerBound ks k) ks"
  have "sorted (?a @ ?b)" "distinct (?a @ ?b) \<longleftrightarrow> distinct ks" "set (?a @ ?b) = set ks"
    using s by simp_all
  with lowerBound_split [OF s, of k] assms show ?thesis
    unfolding leaf_ordered_def insert_at_def sorted_append distinct_append
    by (auto simp del: append_take_drop_id simp: sorted_append intro: less_imp_le order_trans)
qed

lemma erase_at_split:
  assumes "i < length xs"
  obtains a x b where "xs = a @ x # b" "erase_at i xs = a @ b" "xs ! i = x"
  using that [of "take i xs" "xs ! i" "drop (Suc i) xs"] id_take_nth_drop [OF assms]
  by (simp add: erase_at_def)

lemma ordered_erase_at:
  assumes "leaf_ordered dup ks" "i < length ks"
  shows "leaf_ordered dup (erase_at i ks)"
proof -
  obtain a x b where e: "ks = a @ x # b" "erase_at i ks = a @ b" using erase_at_split [OF assms(2)] by metis
  with assms(1) have "leaf_ordered dup (a @ x # b)" by simp
  then show ?thesis unfolding e(2) by (auto simp: leaf_ordered_def sorted_append)
qed

lemma zip_insert_at: "length xs = length ys \<Longrightarrow> i \<le> length xs \<Longrightarrow>
    zip (insert_at i x xs) (insert_at i y ys) = insert_at i (x, y) (zip xs ys)"
  by (simp add: insert_at_def take_zip drop_zip)

lemma zip_erase_at: "length xs = length ys \<Longrightarrow> zip (erase_at i xs) (erase_at i ys) = erase_at i (zip xs ys)"
  by (simp add: erase_at_def take_zip drop_zip)

lemma map_of_insert_at:
  assumes "k \<notin> fst ` set (take i ps)"
  shows "map_of (insert_at i (k, r) ps) = (map_of ps)(k \<mapsto> r)"
proof -
  have "map_of (take i ps) k = None" using assms by (simp add: map_of_eq_None_iff)
  then have "map_of (insert_at i (k, r) ps) = (map_of (drop i ps) ++ map_of (take i ps))(k \<mapsto> r)"
    by (auto simp: insert_at_def map_add_def fun_eq_iff split: option.splits)
  also have "map_of (drop i ps) ++ map_of (take i ps) = map_of ps"
    by (metis append_take_drop_id map_of_append)
  finally show ?thesis .
qed

lemma map_of_erase_at:
  assumes "i < length ps" "distinct (map fst ps)" "fst (ps ! i) = k"
  shows "map_of (erase_at i ps) = (map_of ps)(k := None)"
proof -
  obtain a x b where ps: "ps = a @ x # b" "erase_at i ps = a @ b" "ps ! i = x"
    using erase_at_split [OF assms(1)] by metis
  obtain r where x: "x = (k, r)" using assms(3) ps(3) by (cases x) auto
  have "map_of a k = None" "map_of b k = None"
    using assms(2) ps(1) x by (auto simp: map_of_eq_None_iff)
  then show ?thesis using ps x by (auto simp: map_add_def fun_eq_iff split: option.splits)
qed

text \<open>The operations on every branch.\<close>

lemma leaf_insert_cases:
  assumes "leaf_wf n" "key_typed (nd_config n) k"
  shows "leaf_insert k ref n =
    (if \<not> PageReference_isValid ref then (Inl (invalidArgument ''LeafNode: invalid page reference''), n)
     else if length (lf_keys n) \<ge> unat (node_capacity n) then (Inl (invalidArgument ''LeafNode: node is full''), n)
     else if \<not> allowDuplicates (nd_config n) \<and> k \<in> set (lf_keys n)
     then (Inl (invalidArgument ''LeafNode: duplicate key''), n)
     else (Inr (), leaf_with (insert_at (lowerBound (lf_keys n) k) k (lf_keys n))
             (insert_at (lowerBound (lf_keys n) k) ref (lf_refs n)) n))"
proof -
  let ?p = "lowerBound (lf_keys n) k"
  have s: "sorted (lf_keys n)" using assms(1) by (simp add: leaf_wf_def leaf_ordered_def)
  have wf: "node_wf n" "length (lf_keys n) = length (lf_refs n)"
    "unat (node_keyCount n) = length (lf_keys n)"
    "hasNodeFlag (node_flags n) NodeFlags_AllowDuplicates = allowDuplicates (nd_config n)"
    using assms(1) by (auto simp: leaf_wf_def)
  have p: "?p \<le> length (lf_keys n)" using lowerBound_spec(1) [OF s] .
  have dup: "?p < length (lf_keys n) \<and> lf_keys n ! ?p = k \<longleftrightarrow> k \<in> set (lf_keys n)"
    using findKey_iff [OF s, of k] nth_mem_eq by metis
  have sync: "leaf_syncEntries (n\<lparr>lf_keys := insert_at ?p k (lf_keys n), lf_refs := insert_at ?p ref (lf_refs n),
        nd_page := setKeyCount c (nd_page n)\<rparr>) =
      (Inr (), leaf_with (insert_at ?p k (lf_keys n)) (insert_at ?p ref (lf_refs n)) n)"
    if "length (lf_keys n) < unat (node_capacity n)" for c
  proof (rule leaf_sync_with [OF wf(1)])
    show "length (insert_at ?p k (lf_keys n)) = length (insert_at ?p ref (lf_refs n))" using p wf(2) by simp
    show "entries_size (insert_at ?p k (lf_keys n)) \<le> 3960"
      using assms that p by (intro leaf_fits [OF assms(1)]) (auto simp: set_insert_at leaf_wf_def)
  qed
  show ?thesis
    using sync dup wf by (auto simp: leaf_insert_def Let_def word_le_nat_alt)
qed

lemma leaf_eraseAt_cases:
  assumes "leaf_wf n"
  shows "leaf_eraseAt i n =
    (if i \<ge> length (lf_keys n) then (Inl (invalidArgument ''LeafNode: index out of range''), n)
     else (Inr (), leaf_with (erase_at i (lf_keys n)) (erase_at i (lf_refs n)) n))"
proof (cases "i < length (lf_keys n)")
  case True
  have wf: "node_wf n" "length (lf_keys n) = length (lf_refs n)" "length (lf_keys n) \<le> unat (node_capacity n)"
    "\<forall>k \<in> set (lf_keys n). key_typed (nd_config n) k"
    using assms by (auto simp: leaf_wf_def)
  have "length (erase_at i (lf_keys n)) = length (erase_at i (lf_refs n))" using True wf(2) by simp
  moreover have "entries_size (erase_at i (lf_keys n)) \<le> 3960"
    using wf(3,4) True set_erase_at [of i "lf_keys n"] by (intro leaf_fits [OF assms]) auto
  ultimately show ?thesis
    using True leaf_sync_with [OF wf(1)] by (simp add: leaf_eraseAt_def Let_def)
qed (simp add: leaf_eraseAt_def)

lemma leaf_erase_cases:
  assumes "leaf_wf n"
  shows "leaf_erase k n =
    (if k \<notin> set (lf_keys n) then (Inl (invalidArgument ''LeafNode: key not found''), n)
     else (Inr (), leaf_with (erase_at (findKey (lf_keys n) k) (lf_keys n))
             (erase_at (findKey (lf_keys n) k) (lf_refs n)) n))"
proof -
  have "sorted (lf_keys n)" using assms by (simp add: leaf_wf_def leaf_ordered_def)
  from findKey_iff(1) [OF this, of k] show ?thesis
    by (auto simp: leaf_erase_def Let_def leaf_eraseAt_cases [OF assms])
qed

lemma leaf_insert_wf:
  assumes "leaf_wf n" "key_typed (nd_config n) k" "leaf_insert k ref n = (res, n')"
  shows "leaf_wf n' \<and> nd_config n' = nd_config n"
proof -
  have s: "sorted (lf_keys n)" using assms(1) by (simp add: leaf_wf_def leaf_ordered_def)
  have p: "lowerBound (lf_keys n) k \<le> length (lf_keys n)" using lowerBound_spec(1) [OF s] .
  have wf: "length (lf_keys n) = length (lf_refs n)" "leaf_ordered (allowDuplicates (nd_config n)) (lf_keys n)"
    "\<forall>k \<in> set (lf_keys n). key_typed (nd_config n) k"
    using assms(1) by (auto simp: leaf_wf_def)
  show ?thesis
  proof (cases "n' = n")
    case False
    then have eq: "n' = leaf_with (insert_at (lowerBound (lf_keys n) k) k (lf_keys n))
             (insert_at (lowerBound (lf_keys n) k) ref (lf_refs n)) n"
      and c: "length (lf_keys n) < unat (node_capacity n)" "allowDuplicates (nd_config n) \<or> k \<notin> set (lf_keys n)"
      using assms(3) leaf_insert_cases [OF assms(1,2), of ref] by (auto split: if_splits)
    have "leaf_wf n'"
      unfolding eq using p wf c assms(2)
      by (intro leaf_with_wf [OF assms(1)] ordered_insert_at) (auto simp: set_insert_at)
    then show ?thesis by (simp add: eq)
  qed (simp add: assms(1))
qed

lemma leaf_erase_wf:
  assumes "leaf_wf n" "leaf_erase k n = (res, n')"
  shows "leaf_wf n' \<and> nd_config n' = nd_config n"
proof (cases "k \<in> set (lf_keys n)")
  case True
  have s: "sorted (lf_keys n)" using assms by (simp add: leaf_wf_def leaf_ordered_def)
  have i: "findKey (lf_keys n) k < length (lf_keys n)" using findKey_iff(1) [OF s] True by simp
  have eq: "n' = leaf_with (erase_at (findKey (lf_keys n) k) (lf_keys n)) (erase_at (findKey (lf_keys n) k) (lf_refs n)) n"
    using assms(2) True leaf_erase_cases [OF assms(1), of k] by simp
  have wf: "length (lf_keys n) = length (lf_refs n)" "length (lf_keys n) \<le> unat (node_capacity n)"
    "leaf_ordered (allowDuplicates (nd_config n)) (lf_keys n)" "\<forall>k \<in> set (lf_keys n). key_typed (nd_config n) k"
    using assms(1) by (auto simp: leaf_wf_def)
  have "leaf_wf n'"
    unfolding eq using i wf set_erase_at [of "findKey (lf_keys n) k" "lf_keys n"]
    by (intro leaf_with_wf [OF assms(1)] ordered_erase_at) auto
  then show ?thesis by (simp add: eq)
qed (use assms leaf_erase_cases [OF assms(1), of k] in simp)

section \<open>A leaf is a map\<close>

definition leaf_map :: "leaf_node \<Rightarrow> key \<rightharpoonup> page_ref" where
  "leaf_map n = map_of (zip (lf_keys n) (lf_refs n))"

lemma leaf_map_None: "leaf_wf n \<Longrightarrow> leaf_map n k = None \<longleftrightarrow> k \<notin> set (lf_keys n)"
  by (simp add: leaf_map_def leaf_wf_def map_of_zip_is_None)

interpretation leafmap: map_store leaf_insert leaf_erase leaf_map
  "\<lambda>n. leaf_wf n \<and> nd_config n = config \<and> \<not> allowDuplicates config" "key_typed config" for config
proof unfold_locales
  fix n k v u n'
  assume inv: "leaf_wf n \<and> nd_config n = config \<and> \<not> allowDuplicates config" and k: "key_typed config k"
    and i: "leaf_insert k v n = (Inr u, n')"
  have s: "sorted (lf_keys n)" and len: "length (lf_keys n) = length (lf_refs n)"
    using inv by (simp_all add: leaf_wf_def leaf_ordered_def)
  let ?p = "lowerBound (lf_keys n) k"
  have new: "k \<notin> set (lf_keys n)" and eq: "n' = leaf_with (insert_at ?p k (lf_keys n)) (insert_at ?p v (lf_refs n)) n"
    using i leaf_insert_cases [of n k v] inv k by (auto split: if_splits)
  have "k \<notin> fst ` set (take ?p (zip (lf_keys n) (lf_refs n)))"
    using new by (auto dest!: in_set_takeD set_zip_leftD)
  then have "leaf_map n' = (leaf_map n)(k \<mapsto> v)"
    using lowerBound_spec(1) [OF s, of k] len by (simp add: leaf_map_def eq zip_insert_at map_of_insert_at)
  with leaf_insert_wf [of n k v] inv k i new show "(leaf_wf n' \<and> nd_config n' = config \<and> \<not> allowDuplicates config) \<and>
      leaf_map n k = None \<and> leaf_map n' = (leaf_map n)(k \<mapsto> v)"
    by (simp add: leaf_map_None)
next
  fix n k v st n'
  assume inv: "leaf_wf n \<and> nd_config n = config \<and> \<not> allowDuplicates config" and k: "key_typed config k"
    and i: "leaf_insert k v n = (Inl st, n')"
  have "n' = n" using i leaf_insert_cases [of n k v] inv k by (auto split: if_splits)
  with inv show "(leaf_wf n' \<and> nd_config n' = config \<and> \<not> allowDuplicates config) \<and> leaf_map n' = leaf_map n"
    by simp
next
  fix n k u n'
  assume inv: "leaf_wf n \<and> nd_config n = config \<and> \<not> allowDuplicates config" and k: "key_typed config k"
    and d: "leaf_erase k n = (Inr u, n')"
  have s: "sorted (lf_keys n)" "distinct (lf_keys n)" and len: "length (lf_keys n) = length (lf_refs n)"
    using inv by (auto simp: leaf_wf_def leaf_ordered_def)
  let ?p = "findKey (lf_keys n) k"
  have old: "k \<in> set (lf_keys n)" and eq: "n' = leaf_with (erase_at ?p (lf_keys n)) (erase_at ?p (lf_refs n)) n"
    using d leaf_erase_cases [of n k] inv by (auto split: if_splits)
  have p: "?p < length (lf_keys n)" "lf_keys n ! ?p = k"
    using findKey_iff [OF s(1), of k] old by auto
  have "map_of (erase_at ?p (zip (lf_keys n) (lf_refs n))) = (map_of (zip (lf_keys n) (lf_refs n)))(k := None)"
    using p len s(2) by (intro map_of_erase_at) simp_all
  then have "leaf_map n' = (leaf_map n)(k := None)"
    using len by (simp add: leaf_map_def eq zip_erase_at)
  with leaf_erase_wf [of n k] inv d old show "(leaf_wf n' \<and> nd_config n' = config \<and> \<not> allowDuplicates config) \<and>
      leaf_map n k \<noteq> None \<and> leaf_map n' = (leaf_map n)(k := None)"
    by (simp add: leaf_map_None)
next
  fix n k st n'
  assume inv: "leaf_wf n \<and> nd_config n = config \<and> \<not> allowDuplicates config" and k: "key_typed config k"
    and d: "leaf_erase k n = (Inl st, n')"
  have "n' = n" "k \<notin> set (lf_keys n)" using d leaf_erase_cases [of n k] inv by (auto split: if_splits)
  with inv show "(leaf_wf n' \<and> nd_config n' = config \<and> \<not> allowDuplicates config) \<and>
      leaf_map n k = None \<and> leaf_map n' = leaf_map n"
    by (simp add: leaf_map_None)
qed

section \<open>New nodes\<close>

lemma index_layout_wf_update [simp]:
  "index_layout_wf (l\<lparr>il_nodeType := a\<rparr>) = index_layout_wf l" "index_layout_wf (l\<lparr>il_keyCount := b\<rparr>) = index_layout_wf l"
  "index_layout_wf (l\<lparr>il_capacity := c\<rparr>) = index_layout_wf l" "index_layout_wf (l\<lparr>il_flags := d\<rparr>) = index_layout_wf l"
  by (simp_all add: index_layout_wf_def)

lemma set_on_store:
  assumes "payload_wf p" "index_layout_wf l"
  shows "setKeyCount b (IndexPage_store l p) = IndexPage_store (l\<lparr>il_keyCount := b\<rparr>) p"
    "setCapacity c (IndexPage_store l p) = IndexPage_store (l\<lparr>il_capacity := c\<rparr>) p"
    "IndexPage_setFlags d (IndexPage_store l p) = IndexPage_store (l\<lparr>il_flags := d\<rparr>) p"
  using index_pl.get_put [OF assms] index_pl.put_put [OF assms(1,2)] assms(2)
  by (simp_all add: setKeyCount_def setCapacity_def IndexPage_setFlags_def IndexPage_store_def IndexPage_layout_def)

definition initial_layout :: "NodeType \<Rightarrow> node_config \<Rightarrow> index_layout" where
  "initial_layout type config =
     \<lparr>il_nodeType = type, il_keyCount = 0, il_capacity = computeCapacity config type,
      il_flags = (if allowDuplicates config then NodeFlags_AllowDuplicates else 0),
      il_reserved = [ucast (level config), 0, 0], il_data = replicate 3992 0\<rparr>"

lemma initial_layout_sel [simp]:
  "il_nodeType (initial_layout type config) = type" "il_keyCount (initial_layout type config) = 0"
  "il_capacity (initial_layout type config) = computeCapacity config type"
  "il_flags (initial_layout type config) = (if allowDuplicates config then NodeFlags_AllowDuplicates else 0)"
  "il_data (initial_layout type config) = replicate 3992 0"
  by (simp_all add: initial_layout_def)

lemma entries_store [simp]:
  "lf_keys (node_store l n) = lf_keys n" "lf_refs (node_store l n) = lf_refs n"
  "in_keys (node_store l m) = in_keys m" "in_children (node_store l m) = in_children m"
  by (simp_all add: node_store_def)

lemma initial_layout_wf: "index_layout_wf (initial_layout type config)"
  by (simp add: initial_layout_def index_layout_wf_def)

lemma initializeHeader_effect:
  assumes "node_wf n"
  shows "initializeHeader type config n = node_store (initial_layout type config)
      (n\<lparr>nd_config := config, nd_parent := PageReference_invalid\<rparr>)"
proof -
  let ?m = "n\<lparr>nd_config := config, nd_parent := PageReference_invalid\<rparr>"
  let ?l0 = "node_layout n"
  let ?l4 = "?l0\<lparr>il_nodeType := type, il_keyCount := 0, il_capacity := computeCapacity config type,
    il_flags := (if allowDuplicates config then NodeFlags_AllowDuplicates else 0)\<rparr>"
  have wf: "payload_wf (nd_page n)" "index_layout_wf ?l0" "node_wf ?m" and l4: "index_layout_wf ?l4"
    using assms layout_wf [OF assms] by (simp_all add: node_wf_def)
  have "setNodeType type (nd_page n) = IndexPage_store (?l0\<lparr>il_nodeType := type\<rparr>) (nd_page n)"
    by (simp add: setNodeType_def node_layout_def)
  then have p4: "IndexPage_setFlags (if allowDuplicates config then NodeFlags_AllowDuplicates else 0)
      (setCapacity (computeCapacity config type) (setKeyCount 0 (setNodeType type (nd_page n)))) =
      IndexPage_store ?l4 (nd_page n)"
    using wf by (simp add: set_on_store)
  have m: "n\<lparr>nd_page := IndexPage_store ?l4 (nd_page n), nd_config := config, nd_parent := PageReference_invalid\<rparr> =
      node_store ?l4 ?m" by (simp add: node_store_def)
  obtain a b c where r: "il_reserved ?l0 = [a, b, c]"
    using wf(2) by (auto simp: index_layout_wf_def numeral_3_eq_3 length_Suc_conv)
  let ?l5 = "?l4\<lparr>il_reserved := [ucast (level config), 0, 0], il_data := replicate 3992 0\<rparr>"
  have l5: "index_layout_wf ?l5" "?l5 = initial_layout type config"
    by (simp_all add: index_layout_wf_def initial_layout_def)
  have n5: "node_wf (node_store ?l5 ?m)" "node_layout (node_store ?l5 ?m) = ?l5"
    using layout_store [OF wf(3) l5(1)] by simp_all
  have "initializeHeader type config n = snd (syncHeader (node_store ?l5 (node_store ?l4 ?m)))"
    using layout_store(1) [OF wf(3) l4] r
    by (simp add: initializeHeader_def Let_def p4 m)
  also have "node_store ?l5 (node_store ?l4 ?m) = node_store ?l5 ?m"
    by (rule store_store [OF wf(3) l4 l5(1)])
  also have "snd (syncHeader (node_store ?l5 ?m)) = node_store (header_synced (level config) ?l5) (node_store ?l5 ?m)"
    using syncHeader_effect [OF n5(1)] n5(2) by simp
  also have "header_synced (level config) ?l5 = ?l5"
    by (simp add: header_synced_def replicate_add [symmetric])
  also have "node_store ?l5 (node_store ?l5 ?m) = node_store ?l5 ?m"
    by (rule store_store [OF wf(3) l5(1) l5(1)])
  finally show ?thesis unfolding l5(2) .
qed

lemma loadHeader_zero:
  assumes "node_wf n" "take 4 (il_data (node_layout n)) = replicate 4 0"
  shows "loadHeader n = (Inr (), n\<lparr>nd_config := (nd_config n)\<lparr>level := ucast (il_reserved (node_layout n) ! 0)\<rparr>,
      nd_parent := PageReference_invalid\<rparr>)"
proof -
  have len: "length (il_data (node_layout n)) = 3992"
    using layout_wf [OF assms(1)] by (simp add: index_layout_wf_def)
  have "(read_word :: (reader, u32) op) (mkReader (il_data (node_layout n)) Little) =
      (Inr 0, advance 4 (mkReader (il_data (node_layout n)) Little))"
    using read_word_bytes [where 'a = 32, of "mkReader (il_data (node_layout n)) Little"] len assms(2) by simp
  then show ?thesis by (simp add: loadHeader_def Let_def kNodeBodyMagic_def)
qed

lemma create_page:
  "payload_wf (IndexPage_create pid)" "IndexPage_layout (IndexPage_create pid) = IndexPageLayout_zero"
  "Page_id (IndexPage_create pid) = pid"
proof -
  have p: "payload_wf (BasePage_reset pid IndexPage_new)" by (simp add: payload_wf_base_reset IndexPage_new_def)
  have l: "index_layout_wf IndexPageLayout_zero" by (simp add: index_layout_wf_def IndexPageLayout_zero_def)
  show "payload_wf (IndexPage_create pid)" "IndexPage_layout (IndexPage_create pid) = IndexPageLayout_zero"
    using index_pl.get_put [OF p l] index_pl.payload_wf_put [OF p l]
    by (simp_all add: IndexPage_create_def IndexPage_reset_def IndexPage_store_def IndexPage_layout_def)
  show "Page_id (IndexPage_create pid) = pid"
    by (simp add: IndexPage_create_def IndexPage_reset_def IndexPage_store_def BasePage_reset_def Page_reset_def
        Let_def Page_id_def PageHeader_make_def put_layout_def)
qed

lemma leaf_fromPage_create:
  "leaf_fromPage (IndexPage_create pid) = \<lparr>nd_page = IndexPage_create pid, nd_config = BTreeNodeConfig,
     nd_parent = PageReference_invalid, lf_keys = [], lf_refs = []\<rparr>" (is "_ = ?n")
proof -
  have wf: "node_wf ?n" and l: "node_layout ?n = IndexPageLayout_zero"
    by (simp_all add: node_wf_def node_layout_def create_page)
  have "loadHeader ?n = (Inr (), ?n)"
    using loadHeader_zero [OF wf] l by (simp add: IndexPageLayout_zero_def BTreeNodeConfig_def)
  then show ?thesis
    using l by (simp add: leaf_fromPage_def leaf_loadEntries_def node_keyCount_def IndexPageLayout_zero_def)
qed

lemma leaf_create_new:
  assumes "keyWireSize config \<le> 3940"
  shows "leaf_wf (leaf_create pid config)" "lf_keys (leaf_create pid config) = []"
    "lf_refs (leaf_create pid config) = []"
    "nd_config (leaf_create pid config) = config" "nd_parent (leaf_create pid config) = PageReference_invalid"
    "node_pageId (leaf_create pid config) = pid"
    "node_capacity (leaf_create pid config) = computeCapacity config NodeType_Leaf"
proof -
  let ?n = "\<lparr>nd_page = IndexPage_create pid, nd_config = config, nd_parent = PageReference_invalid,
    lf_keys = [], lf_refs = []\<rparr>"
  have wf: "node_wf ?n" by (simp add: node_wf_def create_page)
  have e: "leaf_create pid config = node_store (initial_layout NodeType_Leaf config) ?n"
    by (simp add: leaf_create_def leaf_fromPage_create initializeHeader_effect node_wf_def create_page)
  note l = layout_store [OF wf initial_layout_wf]
  have "1 \<le> unat (computeCapacity config NodeType_Leaf)"
    using capacity_iff(1) [of 1 config] assms by simp
  then have "0 < computeCapacity config NodeType_Leaf" by (simp add: word_less_nat_alt)
  then show "leaf_wf (leaf_create pid config)"
    by (simp add: e leaf_wf_def l node_nodeType_def node_capacity_def node_flags_def node_keyCount_def
        hasNodeFlag_def NodeFlags_AllowDuplicates_def leaf_ordered_def)
  show "lf_keys (leaf_create pid config) = []" "lf_refs (leaf_create pid config) = []"
    "nd_config (leaf_create pid config) = config" "nd_parent (leaf_create pid config) = PageReference_invalid"
    "node_pageId (leaf_create pid config) = pid"
    by (simp_all add: e node_store_def node_pageId_def IndexPage_store_def create_page)
  show "node_capacity (leaf_create pid config) = computeCapacity config NodeType_Leaf"
    by (simp add: e node_capacity_def l)
qed

section \<open>Internal operations\<close>

definition internal_with :: "key list \<Rightarrow> page_ref list \<Rightarrow> internal_node \<Rightarrow> internal_node" where
  "internal_with ks cs n =
     node_store (entries_synced (level (nd_config n)) (length ks) (node_layout n)) (n\<lparr>in_keys := ks, in_children := cs\<rparr>)"

lemma internal_with_sel [simp]:
  "in_keys (internal_with ks cs n) = ks" "in_children (internal_with ks cs n) = cs"
  "nd_config (internal_with ks cs n) = nd_config n" "nd_parent (internal_with ks cs n) = nd_parent n"
  by (simp_all add: internal_with_def)

lemma internal_with_layout:
  assumes "node_wf n"
  shows "node_layout (internal_with ks cs n) = entries_synced (level (nd_config n)) (length ks) (node_layout n)"
    "node_wf (internal_with ks cs n)" "node_pageId (internal_with ks cs n) = node_pageId n"
proof -
  have a: "node_wf (n\<lparr>in_keys := ks, in_children := cs\<rparr>)" using assms by (simp add: node_wf_def)
  note b = layout_store [OF a entries_synced_wf [OF layout_wf [OF assms]]]
  show "node_layout (internal_with ks cs n) = entries_synced (level (nd_config n)) (length ks) (node_layout n)"
    "node_wf (internal_with ks cs n)" by (simp_all add: internal_with_def b)
  show "node_pageId (internal_with ks cs n) = node_pageId n"
    by (simp add: internal_with_def) (simp add: node_pageId_def)
qed

lemma internal_with_fields:
  assumes "node_wf n"
  shows "node_capacity (internal_with ks cs n) = node_capacity n" "node_flags (internal_with ks cs n) = node_flags n"
    "node_nodeType (internal_with ks cs n) = node_nodeType n" "node_keyCount (internal_with ks cs n) = of_nat (length ks)"
  by (simp_all add: node_capacity_def node_flags_def node_nodeType_def node_keyCount_def
      internal_with_layout [OF assms] entries_synced_def)

lemma internal_sync_store:
  assumes "node_wf n" "length cs = Suc (length ks)" "20 + entries_size ks \<le> 3960" "index_layout_wf l"
    "l = (node_layout n)\<lparr>il_keyCount := c\<rparr>"
  shows "internal_syncEntries (node_store l (n\<lparr>in_keys := ks, in_children := cs\<rparr>)) = (Inr (), internal_with ks cs n)"
proof -
  let ?m = "n\<lparr>in_keys := ks, in_children := cs\<rparr>"
  have m: "node_wf ?m" using assms(1) by (simp add: node_wf_def)
  have "internal_syncEntries (node_store l ?m) = (Inr (), node_store
      (entries_synced (level (nd_config n)) (length ks) l) (node_store l ?m))"
    using internal_sync_effect [OF layout_store(2) [OF m assms(4)]] assms(2,3) layout_store(1) [OF m assms(4)] by simp
  also have "node_store (entries_synced (level (nd_config n)) (length ks) l) (node_store l ?m) = internal_with ks cs n"
    using store_store [OF m assms(4) entries_synced_wf [OF assms(4)]]
    by (simp add: internal_with_def entries_synced_def assms(5))
  finally show ?thesis .
qed

lemma internal_sync_with:
  assumes "node_wf n" "length cs = Suc (length ks)" "20 + entries_size ks \<le> 3960"
  shows "internal_syncEntries (n\<lparr>in_keys := ks, in_children := cs, nd_page := setKeyCount c (nd_page n)\<rparr>) =
    (Inr (), internal_with ks cs n)"
proof -
  let ?m = "n\<lparr>in_keys := ks, in_children := cs\<rparr>"
  have "n\<lparr>in_keys := ks, in_children := cs, nd_page := setKeyCount c (nd_page n)\<rparr> =
      node_store ((node_layout n)\<lparr>il_keyCount := c\<rparr>) ?m"
    using setKeyCount_store [where n = ?m and c = c] by (simp add: node_layout_def)
  with internal_sync_store [OF assms _ refl, of c] layout_wf [OF assms(1)] show ?thesis by simp
qed

text \<open>The shape of an internal node; the order of its keys is up to the caller.\<close>

definition internal_wf :: "internal_node \<Rightarrow> bool" where
  "internal_wf n \<longleftrightarrow> node_wf n \<and> node_nodeType n = NodeType_Internal \<and>
     node_capacity n = computeCapacity (nd_config n) NodeType_Internal \<and> 0 < node_capacity n \<and>
     hasNodeFlag (node_flags n) NodeFlags_AllowDuplicates = allowDuplicates (nd_config n) \<and>
     length (in_children n) = Suc (length (in_keys n)) \<and> unat (node_keyCount n) = length (in_keys n) \<and>
     length (in_keys n) \<le> unat (node_capacity n) \<and> (\<forall>k \<in> set (in_keys n). key_typed (nd_config n) k)"

lemma internal_with_wf:
  assumes "internal_wf n" "length cs = Suc (length ks)" "length ks \<le> unat (node_capacity n)"
    "\<forall>k \<in> set ks. key_typed (nd_config n) k"
  shows "internal_wf (internal_with ks cs n)"
proof -
  have wf: "node_wf n" using assms(1) by (simp add: internal_wf_def)
  have "unat (node_capacity n) \<le> 4294967295" by simp
  with assms(3) have "length ks < 4294967296" by linarith
  then have "unat (of_nat (length ks) :: u32) = length ks" by (simp add: unat_of_nat)
  moreover have "0 < node_capacity n" "node_nodeType n = NodeType_Internal"
    "node_capacity n = computeCapacity (nd_config n) NodeType_Internal"
    "hasNodeFlag (node_flags n) NodeFlags_AllowDuplicates = allowDuplicates (nd_config n)"
    using assms(1) by (auto simp: internal_wf_def)
  ultimately show ?thesis
    using assms(2-4) internal_with_layout(2) [OF wf] by (simp add: internal_wf_def internal_with_fields [OF wf])
qed

lemma internal_fits:
  assumes "internal_wf n" "length ks \<le> unat (node_capacity n)" "\<forall>k \<in> set ks. key_typed (nd_config n) k"
  shows "20 + entries_size ks \<le> 3960"
  using assms capacity_iff(2) [of "length ks" "nd_config n"] by (simp add: internal_wf_def entries_size_typed)

lemma internal_assign_ok:
  assumes "internal_wf n" "length cs = Suc (length ks)" "length ks \<le> unat (node_capacity n)"
    "\<forall>k \<in> set ks. key_typed (nd_config n) k"
  shows "internal_assignEntries ks cs n = (Inr (), internal_with ks cs n)"
proof -
  have "node_wf n" using assms(1) by (simp add: internal_wf_def)
  with internal_sync_with [OF _ assms(2) internal_fits [OF assms(1,3,4)]] assms(2,3) show ?thesis
    by (simp add: internal_assignEntries_def)
qed

lemma leaf_assign_ok:
  assumes "leaf_wf n" "length ks = length refs" "length ks \<le> unat (node_capacity n)"
    "\<forall>k \<in> set ks. key_typed (nd_config n) k"
  shows "leaf_assignEntries ks refs n = (Inr (), leaf_with ks refs n)"
proof -
  have "node_wf n" using assms(1) by (simp add: leaf_wf_def)
  with leaf_sync_with [OF _ assms(2) leaf_fits [OF assms(1,3,4)]] assms(2,3) show ?thesis
    by (simp add: leaf_assignEntries_def)
qed

lemma internal_insert_ok:
  assumes "internal_wf n" "key_typed (nd_config n) k" "PageReference_isValid c" "i \<le> length (in_keys n)"
    "length (in_keys n) < unat (node_capacity n)" "allowDuplicates (nd_config n) \<or> k \<notin> set (in_keys n)"
  shows "internal_insert i k c n =
    (Inr (), internal_with (insert_at i k (in_keys n)) (insert_at (Suc i) c (in_children n)) n)"
proof -
  have wf: "node_wf n" "length (in_children n) = Suc (length (in_keys n))"
    "hasNodeFlag (node_flags n) NodeFlags_AllowDuplicates = allowDuplicates (nd_config n)"
    "\<forall>k \<in> set (in_keys n). key_typed (nd_config n) k"
    using assms(1) by (auto simp: internal_wf_def)
  have "20 + entries_size (insert_at i k (in_keys n)) \<le> 3960"
    using assms(2,4,5) wf(4) by (intro internal_fits [OF assms(1)]) (auto simp: set_insert_at)
  moreover have "length (insert_at (Suc i) c (in_children n)) = Suc (length (insert_at i k (in_keys n)))"
    using assms(4) wf(2) by simp
  ultimately show ?thesis
    using internal_sync_with [OF wf(1)] assms(3-6) wf(3)
    by (auto simp: internal_insert_def Let_def not_less)
qed

lemma internal_eraseAt_ok:
  assumes "internal_wf n" "i < length (in_keys n)"
  shows "internal_eraseAt i n =
    (Inr (), internal_with (erase_at i (in_keys n)) (erase_at (Suc i) (in_children n)) n)"
proof -
  have wf: "node_wf n" "length (in_children n) = Suc (length (in_keys n))"
    "length (in_keys n) \<le> unat (node_capacity n)" "\<forall>k \<in> set (in_keys n). key_typed (nd_config n) k"
    using assms(1) by (auto simp: internal_wf_def)
  have "20 + entries_size (erase_at i (in_keys n)) \<le> 3960"
    using assms(2) wf(3,4) set_erase_at [of i "in_keys n"] by (intro internal_fits [OF assms(1)]) auto
  moreover have "length (erase_at (Suc i) (in_children n)) = Suc (length (erase_at i (in_keys n)))"
    using assms(2) wf(2) by simp
  ultimately show ?thesis
    using internal_sync_with [OF wf(1)] assms(2) by (simp add: internal_eraseAt_def Let_def)
qed

lemma internal_setKeyAt_ok:
  assumes "internal_wf n" "i < length (in_keys n)" "key_typed (nd_config n) k"
  shows "internal_setKeyAt i k n = (Inr (), internal_with ((in_keys n)[i := k]) (in_children n) n)"
proof -
  have wf: "node_wf n" "length (in_children n) = Suc (length (in_keys n))"
    "length (in_keys n) \<le> unat (node_capacity n)" "\<forall>k \<in> set (in_keys n). key_typed (nd_config n) k"
    using assms(1) by (auto simp: internal_wf_def)
  have "20 + entries_size ((in_keys n)[i := k]) \<le> 3960"
    using wf(3,4) assms(3) by (intro internal_fits [OF assms(1)]) (auto dest!: set_update_subset_insert [THEN subsetD])
  moreover have "node_wf (n\<lparr>in_keys := (in_keys n)[i := k]\<rparr>)" using wf(1) by (simp add: node_wf_def)
  moreover have "n\<lparr>in_keys := (in_keys n)[i := k], in_children := in_children n\<rparr> = n\<lparr>in_keys := (in_keys n)[i := k]\<rparr>"
    by (cases n) simp
  ultimately show ?thesis
    using internal_sync_effect [of "n\<lparr>in_keys := (in_keys n)[i := k]\<rparr>"] wf(2) assms(2)
    by (simp add: internal_setKeyAt_def internal_with_def node_layout_def)
qed

lemma internal_fromPage_create:
  "internal_fromPage (IndexPage_create pid) = \<lparr>nd_page = IndexPage_create pid, nd_config = BTreeNodeConfig,
     nd_parent = PageReference_invalid, in_keys = [], in_children = [page_ref_of (replicate 20 0)]\<rparr>"
proof -
  let ?n = "\<lparr>nd_page = IndexPage_create pid, nd_config = BTreeNodeConfig, nd_parent = PageReference_invalid,
    in_keys = [], in_children = []\<rparr>"
  have wf: "node_wf ?n" and l: "node_layout ?n = IndexPageLayout_zero"
    by (simp_all add: node_wf_def node_layout_def create_page)
  have h: "loadHeader ?n = (Inr (), ?n)"
    using loadHeader_zero [OF wf] l by (simp add: IndexPageLayout_zero_def BTreeNodeConfig_def)
  have "read_ref (mkReader (replicate 3960 0) Little) =
      (Inr (page_ref_of (replicate 20 0)), advance 20 (mkReader (replicate 3960 0) Little))"
    using readBytes_ahead [of "mkReader (replicate 3960 0) Little" "replicate 20 0" "replicate 3940 0"]
    by (simp add: read_ref_def PageReference_kSize_def replicate_add [symmetric])
  then show ?thesis
    using l h by (simp add: internal_fromPage_def internal_loadEntries_def node_keyCount_def entryArea_def
        area_consts IndexPageLayout_zero_def)
qed

lemma internal_create_new:
  assumes "keyWireSize config \<le> 3920"
  shows "internal_wf (internal_create pid config)" "in_keys (internal_create pid config) = []"
    "in_children (internal_create pid config) = [PageReference_invalid]"
    "nd_config (internal_create pid config) = config" "nd_parent (internal_create pid config) = PageReference_invalid"
    "node_pageId (internal_create pid config) = pid"
    "node_capacity (internal_create pid config) = computeCapacity config NodeType_Internal"
proof -
  let ?m = "\<lparr>nd_page = IndexPage_create pid, nd_config = config, nd_parent = PageReference_invalid,
    in_keys = [], in_children = [PageReference_invalid]\<rparr>"
  have wf: "node_wf ?m" by (simp add: node_wf_def create_page)
  have e: "internal_create pid config = node_store (initial_layout NodeType_Internal config) ?m"
    by (simp add: internal_create_def internal_fromPage_create initializeHeader_effect node_wf_def create_page node_store_def)
  note l = layout_store [OF wf initial_layout_wf]
  have "1 \<le> unat (computeCapacity config NodeType_Internal)"
    using capacity_iff(2) [of 1 config] assms by simp
  then have "0 < computeCapacity config NodeType_Internal" by (simp add: word_less_nat_alt)
  then show "internal_wf (internal_create pid config)"
    by (simp add: e internal_wf_def l node_nodeType_def node_capacity_def node_flags_def node_keyCount_def
        hasNodeFlag_def NodeFlags_AllowDuplicates_def)
  show "in_keys (internal_create pid config) = []" "in_children (internal_create pid config) = [PageReference_invalid]"
    "nd_config (internal_create pid config) = config" "nd_parent (internal_create pid config) = PageReference_invalid"
    "node_pageId (internal_create pid config) = pid"
    by (simp_all add: e node_store_def node_pageId_def IndexPage_store_def create_page)
  show "node_capacity (internal_create pid config) = computeCapacity config NodeType_Internal"
    by (simp add: e node_capacity_def l)
qed

section \<open>Properties\<close>

lemma leaf_validate_wf: "leaf_wf n \<Longrightarrow> leaf_validate n = Inr ()"
  by (auto simp: leaf_validate_def leaf_wf_def node_validate_def IndexPage_validate_def index_layout_isValid_def
      keysOrdered_iff node_layout_def [symmetric] node_capacity_def node_keyCount_def word_le_nat_alt)

lemma internal_validate_wf:
  "internal_wf n \<Longrightarrow> internal_validate n = Inr () \<longleftrightarrow> leaf_ordered (allowDuplicates (nd_config n)) (in_keys n)"
  by (auto simp: internal_validate_def internal_wf_def node_validate_def IndexPage_validate_def index_layout_isValid_def
      keysOrdered_iff node_layout_def [symmetric] node_capacity_def node_keyCount_def word_le_nat_alt)

text \<open>
  C2. A leaf without duplicates is a finite map. After any run of insertions and erasures of
  keys of its type on a new leaf, the answers and the entries are those of the abstract map, the
  leaf validates, its key count is the size of the map and within the capacity, a key is found
  exactly when the map has it, and the next insertion succeeds exactly when the reference is
  valid, there is room, and the key is new.
\<close>

theorem leaf_refines_map:
  assumes "\<not> allowDuplicates config" "keyWireSize config \<le> 3940"
    "\<forall>r \<in> set rs. key_typed config (request_key r)"
    "map_run leaf_insert leaf_erase rs (leaf_create pid config) = (bs, n)"
  shows "map_spec Map.empty rs bs = Some (leaf_map n) \<and> leaf_validate n = Inr () \<and>
    card (dom (leaf_map n)) = unat (node_keyCount n) \<and>
    unat (node_keyCount n) \<le> unat (computeCapacity config NodeType_Leaf) \<and>
    (\<forall>k. leaf_contains k n \<longleftrightarrow> leaf_map n k \<noteq> None) \<and>
    (\<forall>k ref. key_typed config k \<longrightarrow>
       (fst (leaf_insert k ref n) = Inr () \<longleftrightarrow> PageReference_isValid ref \<and>
          card (dom (leaf_map n)) < unat (computeCapacity config NodeType_Leaf) \<and> leaf_map n k = None))"
proof -
  have "leaf_map (leaf_create pid config) = Map.empty"
    using leaf_create_new(2) [OF assms(2), of pid] by (simp add: leaf_map_def)
  then have run: "leaf_wf n" "nd_config n = config" "map_spec Map.empty rs bs = Some (leaf_map n)"
    using leafmap.run_spec [of "leaf_create pid config" config rs bs n] leaf_create_new [OF assms(2), of pid] assms
    by auto
  have f: "sorted (lf_keys n)" "distinct (lf_keys n)" "length (lf_keys n) = length (lf_refs n)"
    "unat (node_keyCount n) = length (lf_keys n)" "length (lf_keys n) \<le> unat (node_capacity n)"
    "node_capacity n = computeCapacity config NodeType_Leaf"
    using run(1,2) assms(1) by (auto simp: leaf_wf_def leaf_ordered_def)
  have "dom (leaf_map n) = set (lf_keys n)"
    using f(3) by (simp add: leaf_map_def dom_map_of_zip)
  then have card: "card (dom (leaf_map n)) = length (lf_keys n)"
    using f(2) by (simp add: distinct_card)
  moreover have "leaf_contains k n \<longleftrightarrow> leaf_map n k \<noteq> None" for k
    using findKey_iff(1) [OF f(1), of k] leaf_map_None [OF run(1), of k] by (simp add: leaf_contains_def)
  moreover have "fst (leaf_insert k ref n) = Inr () \<longleftrightarrow> PageReference_isValid ref \<and>
      length (lf_keys n) < unat (computeCapacity config NodeType_Leaf) \<and> leaf_map n k = None"
    if "key_typed config k" for k ref
    using leaf_insert_cases [OF run(1), of k ref] that run(2) assms(1) f(6) leaf_map_None [OF run(1), of k]
    by auto
  ultimately show ?thesis
    using run f leaf_validate_wf [OF run(1)] by simp
qed

theorem leaf_refines_map_witness:
  "\<exists>bs n. map_run leaf_insert leaf_erase [Put (UInt32 7) (PageReference_make 9 0 0), Remove (UInt32 8)]
      (leaf_create 8 BTreeNodeConfig) = (bs, n) \<and>
    map_spec Map.empty [Put (UInt32 7) (PageReference_make 9 0 0), Remove (UInt32 8)] bs = Some (leaf_map n)"
proof -
  let ?rs = "[Put (UInt32 7) (PageReference_make 9 0 0), Remove (UInt32 8)]"
  obtain bs n where r: "map_run leaf_insert leaf_erase ?rs (leaf_create 8 BTreeNodeConfig) = (bs, n)"
    by (cases "map_run leaf_insert leaf_erase ?rs (leaf_create 8 BTreeNodeConfig)")
  have h: "\<not> allowDuplicates BTreeNodeConfig" "keyWireSize BTreeNodeConfig \<le> 3940"
    "\<forall>r \<in> set ?rs. key_typed BTreeNodeConfig (request_key r)"
    by (simp_all add: BTreeNodeConfig_def keyWireSize_def key_typed_def key_type_def)
  show ?thesis using leaf_refines_map [OF h r] r by blast
qed


text \<open>
  C28. A leaf that was changed cannot be read back from its page. After a successful insertion
  into a well-formed leaf the key is in memory, but every byte of the page's data area is zero;
  reloading the entries fails with an unknown key type, and the leaf built from the page is empty.
\<close>

theorem leaf_page_unreadable:
  assumes "leaf_wf n" "key_typed (nd_config n) k" "leaf_insert k ref n = (Inr (), n')"
  shows "k \<in> set (lf_keys n') \<and> il_data (node_layout n') = replicate 3992 0 \<and>
    fst (leaf_loadEntries n') = Inl (corruption ''Key: unknown key type'') \<and>
    lf_keys (leaf_fromPage (nd_page n')) = []"
proof -
  have wf: "node_wf n" using assms(1) by (simp add: leaf_wf_def)
  obtain ks refs where n': "n' = leaf_with ks refs n" and k: "k \<in> set ks"
    using assms leaf_insert_cases [OF assms(1,2), of ref] by (auto simp: set_insert_at split: if_splits)
  have l: "node_layout n' = entries_synced (level (nd_config n)) (length ks) (node_layout n)"
    using leaf_with_layout(1) [OF wf] by (simp add: n')
  have wf': "leaf_wf n'" using leaf_insert_wf [OF assms] by simp
  then have cnt: "unat (il_keyCount (node_layout n')) = length ks" "node_wf n'"
    by (simp_all add: leaf_wf_def node_keyCount_def n')
  obtain i where i: "length ks = Suc i" using k by (cases ks) auto
  have d: "il_data (node_layout n') = replicate 3992 0" by (simp add: l entries_synced_def)
  have rd: "read_entries (Suc i) bsz (mkReader (replicate 3960 0) Little) =
      (Inl (corruption ''Key: unknown key type''), [], advance 1 (mkReader (replicate 3960 0) Little))" for bsz
    using read_word_bytes [where 'a = 8, of "mkReader (replicate 3960 0) Little"]
    by (simp add: key_deserialize_def KeyType_UInt32_def KeyType_UInt64_def KeyType_Binary_def unmem_def)
  have load: "leaf_loadEntries m = (Inl (corruption ''Key: unknown key type''),
      snd (loadHeader (m\<lparr>lf_keys := [], lf_refs := []\<rparr>)))" if "nd_page m = nd_page n'" for m
  proof -
    let ?m = "m\<lparr>lf_keys := [], lf_refs := []\<rparr>"
    have m: "node_wf ?m" "node_layout ?m = node_layout n'"
      using that cnt(2) by (simp_all add: node_wf_def node_layout_def)
    obtain m1 where m1: "loadHeader ?m = (Inr (), m1)" "node_layout m1 = node_layout n'" "lf_keys m1 = []" "lf_refs m1 = []"
      using loadHeader_zero [OF m(1)] m(2) d that by (simp add: node_layout_def)
    then show ?thesis
      using rd [of "binaryKeySize (nd_config m1)"] cnt(1) i d
      by (simp add: leaf_loadEntries_def node_keyCount_def entryArea_def area_consts)
  qed
  have empty: "lf_keys (snd (loadHeader (m\<lparr>lf_keys := [], lf_refs := []\<rparr>))) = []" if "nd_page m = nd_page n'" for m
    using loadHeader_zero [of "m\<lparr>lf_keys := [], lf_refs := []\<rparr>"] that cnt(2) d by (simp add: node_wf_def node_layout_def)
  have same: "nd_page (snd (loadHeader m)) = nd_page n'" if "nd_page m = nd_page n'" for m :: leaf_node
    using loadHeader_zero [of m] that cnt(2) d by (simp add: node_wf_def node_layout_def)
  define m0 where "m0 = \<lparr>nd_page = nd_page n', nd_config = BTreeNodeConfig, nd_parent = PageReference_invalid,
    lf_keys = [], lf_refs = []\<rparr>"
  have "nd_page (snd (loadHeader m0)) = nd_page n'" using same [of m0] by (simp add: m0_def)
  from load [OF this] empty [OF this] have "lf_keys (leaf_fromPage (nd_page n')) = []"
    by (simp add: leaf_fromPage_def m0_def [symmetric])
  with load [of n'] k d n' show ?thesis by simp
qed

theorem leaf_page_unreadable_witness:
  "\<exists>n'. leaf_insert (UInt32 7) (PageReference_make 9 0 0) (leaf_create 8 BTreeNodeConfig) = (Inr (), n') \<and>
     lf_keys (leaf_fromPage (nd_page n')) = []"
proof -
  have w: "keyWireSize BTreeNodeConfig \<le> 3940" by (simp add: BTreeNodeConfig_def keyWireSize_def)
  note c = leaf_create_new [OF w, of 8]
  have t: "key_typed (nd_config (leaf_create 8 BTreeNodeConfig)) (UInt32 7)"
    unfolding c(4) by (simp add: BTreeNodeConfig_def key_typed_def key_type_def)
  have "0 < unat (computeCapacity BTreeNodeConfig NodeType_Leaf)"
    using capacity_iff(1) [of 1 BTreeNodeConfig] w by simp
  then obtain n' where n': "leaf_insert (UInt32 7) (PageReference_make 9 0 0) (leaf_create 8 BTreeNodeConfig) = (Inr (), n')"
    using leaf_insert_cases [OF c(1) t, of "PageReference_make 9 0 0"] c(2,4,7)
    by (simp add: PageReference_isValid_def PageReference_make_def kInvalidPageId_def)
  from leaf_page_unreadable [OF c(1) t n'] n' show ?thesis by blast
qed



end
