(* ===== verification/BTree.thy ===== *)
theory BTree
  imports Nodes Space
begin

unbundle bit_operations_syntax

text \<open>
  The B-tree (BTree.h, BTree.cpp, Rebalance.cpp, SearchPath.cpp, TreeStatistics.h, BTreeWalSink.h):
  the tree's state with its two tables of nodes, descent, insertion with splits, erasure with
  borrowing and merging, and the snapshot. A reference to a node is the page identifier it is
  stored under; the write-ahead-log sink is a record of the functions of its interface, over a
  state of its own.
\<close>

section \<open>State\<close>

record tree_op_stats =
  ts_splitCount :: u64
  ts_mergeCount :: u64
  ts_rotationCount :: u64
  ts_allocationCount :: u64

definition TreeOperationStats :: tree_op_stats where
  "TreeOperationStats = \<lparr>ts_splitCount = 0, ts_mergeCount = 0, ts_rotationCount = 0, ts_allocationCount = 0\<rparr>"

record frame =
  fm_pageId :: PageId
  fm_childIndex :: u32
  fm_pageRef :: page_ref

text \<open>A search path is a stack of frames; its top is the head of the list.\<close>

type_synonym search_path = "frame list"

definition path_pop :: "search_path \<Rightarrow> search_path" where
  "path_pop p = (if p \<noteq> [] then tl p else p)"

definition path_parentEntry :: "search_path \<Rightarrow> status + frame" where
  "path_parentEntry p =
     (if length p < 2 then Inl (invalidArgument ''SearchPath: no parent frame'') else Inr (p ! 1))"

definition path_at :: "nat \<Rightarrow> search_path \<Rightarrow> frame option" where
  "path_at i p = (if i < length p then Some (rev p ! i) else None)"

record 'w wal_sink =
  onInsert :: "key \<Rightarrow> page_ref \<Rightarrow> ('w, unit) op"
  onErase :: "key \<Rightarrow> ('w, unit) op"
  onPageAllocate :: "PageId \<Rightarrow> ('w, unit) op"
  onPageDeallocate :: "PageId \<Rightarrow> ('w, unit) op"
  onNodeSplit :: "PageId \<Rightarrow> PageId \<Rightarrow> key \<Rightarrow> ('w, unit) op"
  onNodeMerge :: "PageId \<Rightarrow> PageId \<Rightarrow> ('w, unit) op"

record 'w btree =
  bt_space :: space_manager
  bt_config :: node_config
  bt_rootId :: PageId
  bt_size :: u64
  bt_height :: u32
  bt_opStats :: tree_op_stats
  bt_walSink :: "'w wal_sink option"
  bt_wal :: 'w
  bt_leaves :: "PageId \<rightharpoonup> leaf_node"
  bt_internals :: "PageId \<rightharpoonup> internal_node"

text \<open>
  What a member function of the tree can do: return success, return a status, throw out of
  \<^verbatim>\<open>at\<close>, or loop forever.
\<close>

datatype 'a outcome = Done 'a | Error status | Thrown | Diverges

type_synonym ('w, 'a) tree_op = "'w btree \<Rightarrow> 'a outcome \<times> 'w btree"

definition doneT :: "'a \<Rightarrow> ('w, 'a) tree_op" where "doneT x t = (Done x, t)"
definition errorT :: "status \<Rightarrow> ('w, 'a) tree_op" where "errorT st t = (Error st, t)"
definition thrownT :: "('w, 'a) tree_op" where "thrownT t = (Thrown, t)"

definition bindT :: "('w, 'a) tree_op \<Rightarrow> ('a \<Rightarrow> ('w, 'b) tree_op) \<Rightarrow> ('w, 'b) tree_op" where
  "bindT m f t =
     (case m t of
        (Done x, t') \<Rightarrow> f x t'
      | (Error st, t') \<Rightarrow> (Error st, t')
      | (Thrown, t') \<Rightarrow> (Thrown, t')
      | (Diverges, t') \<Rightarrow> (Diverges, t'))"

definition thenT :: "('w, unit) tree_op \<Rightarrow> ('w, 'b) tree_op \<Rightarrow> ('w, 'b) tree_op" where
  "thenT m k = bindT m (\<lambda>_. k)"

definition readT :: "('w btree \<Rightarrow> 'a) \<Rightarrow> ('w, 'a) tree_op" where "readT f t = (Done (f t), t)"
definition updateT :: "('w btree \<Rightarrow> 'w btree) \<Rightarrow> ('w, unit) tree_op" where "updateT f t = (Done (), f t)"

definition someT :: "'a option \<Rightarrow> ('w, 'a) tree_op" where
  "someT x = (case x of None \<Rightarrow> thrownT | Some y \<Rightarrow> doneT y)"

text \<open>\<^verbatim>\<open>leaf(id)\<close> and \<^verbatim>\<open>internal(id)\<close>, and a call of a member function on such a reference.\<close>

definition leafT :: "PageId \<Rightarrow> ('w, leaf_node) tree_op" where
  "leafT pid t = someT (bt_leaves t pid) t"

definition internalT :: "PageId \<Rightarrow> ('w, internal_node) tree_op" where
  "internalT pid t = someT (bt_internals t pid) t"

definition on_leaf :: "PageId \<Rightarrow> (leaf_node, unit) op \<Rightarrow> ('w, unit) tree_op" where
  "on_leaf pid f t =
     (case bt_leaves t pid of
        None \<Rightarrow> (Thrown, t)
      | Some n \<Rightarrow>
          (case f n of (res, n') \<Rightarrow>
             ((case res of Inl st \<Rightarrow> Error st | Inr _ \<Rightarrow> Done ()), t\<lparr>bt_leaves := (bt_leaves t)(pid \<mapsto> n')\<rparr>)))"

definition on_internal :: "PageId \<Rightarrow> (internal_node, unit) op \<Rightarrow> ('w, unit) tree_op" where
  "on_internal pid f t =
     (case bt_internals t pid of
        None \<Rightarrow> (Thrown, t)
      | Some n \<Rightarrow>
          (case f n of (res, n') \<Rightarrow>
             ((case res of Inl st \<Rightarrow> Error st | Inr _ \<Rightarrow> Done ()), t\<lparr>bt_internals := (bt_internals t)(pid \<mapsto> n')\<rparr>)))"

text \<open>A call of the sink; without one the call succeeds.\<close>

definition walT :: "('w wal_sink \<Rightarrow> ('w, unit) op) \<Rightarrow> ('w, unit) tree_op" where
  "walT call t =
     (case bt_walSink t of
        None \<Rightarrow> (Done (), t)
      | Some sink \<Rightarrow>
          (case call sink (bt_wal t) of (res, w') \<Rightarrow>
             ((case res of Inl st \<Rightarrow> Error st | Inr _ \<Rightarrow> Done ()), t\<lparr>bt_wal := w'\<rparr>)))"

definition walOnInsert :: "key \<Rightarrow> page_ref \<Rightarrow> ('w, unit) tree_op" where
  "walOnInsert k v = walT (\<lambda>s. onInsert s k v)"

definition walOnErase :: "key \<Rightarrow> ('w, unit) tree_op" where
  "walOnErase k = walT (\<lambda>s. onErase s k)"

definition walOnPageAllocate :: "PageId \<Rightarrow> ('w, unit) tree_op" where
  "walOnPageAllocate pid = walT (\<lambda>s. onPageAllocate s pid)"

definition walOnPageDeallocate :: "PageId \<Rightarrow> ('w, unit) tree_op" where
  "walOnPageDeallocate pid = walT (\<lambda>s. onPageDeallocate s pid)"

definition walOnNodeSplit :: "PageId \<Rightarrow> PageId \<Rightarrow> key \<Rightarrow> ('w, unit) tree_op" where
  "walOnNodeSplit l r k = walT (\<lambda>s. onNodeSplit s l r k)"

definition walOnNodeMerge :: "PageId \<Rightarrow> PageId \<Rightarrow> ('w, unit) tree_op" where
  "walOnNodeMerge a b = walT (\<lambda>s. onNodeMerge s a b)"

definition recordSplit :: "('w, unit) tree_op" where
  "recordSplit = updateT (\<lambda>t. t\<lparr>bt_opStats := (bt_opStats t)\<lparr>ts_splitCount := ts_splitCount (bt_opStats t) + 1\<rparr>\<rparr>)"

definition recordMerge :: "('w, unit) tree_op" where
  "recordMerge = updateT (\<lambda>t. t\<lparr>bt_opStats := (bt_opStats t)\<lparr>ts_mergeCount := ts_mergeCount (bt_opStats t) + 1\<rparr>\<rparr>)"

definition recordRotation :: "('w, unit) tree_op" where
  "recordRotation = updateT (\<lambda>t. t\<lparr>bt_opStats := (bt_opStats t)\<lparr>ts_rotationCount := ts_rotationCount (bt_opStats t) + 1\<rparr>\<rparr>)"

definition setRoot :: "PageId \<Rightarrow> ('w, unit) tree_op" where
  "setRoot pid = updateT (\<lambda>t. t\<lparr>bt_rootId := pid\<rparr>)"

definition setHeight :: "u32 \<Rightarrow> ('w, unit) tree_op" where
  "setHeight h = updateT (\<lambda>t. t\<lparr>bt_height := h\<rparr>)"

definition makeIndexRef :: "PageId \<Rightarrow> page_ref" where
  "makeIndexRef pid = PageReference_make pid 1 PageType_Index"

definition tree_new :: "space_manager \<Rightarrow> node_config \<Rightarrow> 'w \<Rightarrow> 'w btree" where
  "tree_new sp config w =
     \<lparr>bt_space = sp, bt_config = config, bt_rootId = kInvalidPageId, bt_size = 0, bt_height = 0,
      bt_opStats = TreeOperationStats, bt_walSink = None, bt_wal = w, bt_leaves = Map.empty,
      bt_internals = Map.empty\<rparr>"

definition tree_empty :: "'w btree \<Rightarrow> bool" where
  "tree_empty t \<longleftrightarrow> bt_rootId t = kInvalidPageId"

definition isLeaf :: "PageId \<Rightarrow> 'w btree \<Rightarrow> bool" where "isLeaf pid t \<longleftrightarrow> bt_leaves t pid \<noteq> None"
definition isInternal :: "PageId \<Rightarrow> 'w btree \<Rightarrow> bool" where "isInternal pid t \<longleftrightarrow> bt_internals t pid \<noteq> None"

definition setWalSink :: "'w wal_sink option \<Rightarrow> 'w btree \<Rightarrow> 'w btree" where
  "setWalSink s t = t\<lparr>bt_walSink := s\<rparr>"

section \<open>Nodes and pages\<close>

definition allocateLeaf :: "u32 \<Rightarrow> ('w, PageId) tree_op" where
  "allocateLeaf lv t =
     (case allocatePage (bt_space t) of (pid, sp) \<Rightarrow>
        let t1 = t\<lparr>bt_space := sp\<rparr>
        in if pid = kInvalidPageId then (Error (outOfMemory ''BTree: failed to allocate leaf page''), t1)
           else let t2 = t1\<lparr>bt_opStats := (bt_opStats t1)\<lparr>ts_allocationCount := ts_allocationCount (bt_opStats t1) + 1\<rparr>\<rparr>;
                    nodeConfig = (bt_config t2)\<lparr>level := lv\<rparr>
                in if bt_leaves t2 pid \<noteq> None then (Error (corruption ''BTree: duplicate leaf page id''), t2)
                   else thenT (walOnPageAllocate pid) (doneT pid)
                          (t2\<lparr>bt_leaves := (bt_leaves t2)(pid \<mapsto> leaf_create pid nodeConfig)\<rparr>))"

definition allocateInternal :: "u32 \<Rightarrow> ('w, PageId) tree_op" where
  "allocateInternal lv t =
     (case allocatePage (bt_space t) of (pid, sp) \<Rightarrow>
        let t1 = t\<lparr>bt_space := sp\<rparr>
        in if pid = kInvalidPageId then (Error (outOfMemory ''BTree: failed to allocate internal page''), t1)
           else let t2 = t1\<lparr>bt_opStats := (bt_opStats t1)\<lparr>ts_allocationCount := ts_allocationCount (bt_opStats t1) + 1\<rparr>\<rparr>;
                    nodeConfig = (bt_config t2)\<lparr>level := lv\<rparr>
                in if bt_internals t2 pid \<noteq> None then (Error (corruption ''BTree: duplicate internal page id''), t2)
                   else thenT (walOnPageAllocate pid) (doneT pid)
                          (t2\<lparr>bt_internals := (bt_internals t2)(pid \<mapsto> internal_create pid nodeConfig)\<rparr>))"

text \<open>The status of the sink is dropped.\<close>

definition releaseNode :: "PageId \<Rightarrow> ('w, unit) tree_op" where
  "releaseNode pid t =
     (let t1 = snd (walOnPageDeallocate pid t);
          t2 = (if isLeaf pid t1 then t1\<lparr>bt_leaves := (bt_leaves t1)(pid := None)\<rparr>
                else if isInternal pid t1 then t1\<lparr>bt_internals := (bt_internals t1)(pid := None)\<rparr>
                else t1)
      in (Done (), t2\<lparr>bt_space := snd (freePage pid (bt_space t2))\<rparr>))"

text \<open>
  The tables are unordered; the order their entries are visited in is an argument.
\<close>

fun free_all :: "PageId list \<Rightarrow> space_manager \<Rightarrow> space_manager" where
  "free_all [] sp = sp"
| "free_all (p # ps) sp = free_all ps (snd (freePage p sp))"

definition tree_clear :: "(PageId set \<Rightarrow> PageId list) \<Rightarrow> 'w btree \<Rightarrow> 'w btree" where
  "tree_clear ord t =
     t\<lparr>bt_space := free_all (ord (dom (bt_internals t))) (free_all (ord (dom (bt_leaves t))) (bt_space t)),
       bt_leaves := Map.empty, bt_internals := Map.empty, bt_rootId := kInvalidPageId, bt_size := 0,
       bt_height := 0, bt_opStats := TreeOperationStats\<rparr>"

section \<open>Descent\<close>

text \<open>\<open>None\<close> is a descent that never ends; the path is returned with its top at the head.\<close>

partial_function (option) descendLoop ::
    "'w btree \<Rightarrow> key \<Rightarrow> bool \<Rightarrow> PageId \<Rightarrow> search_path \<Rightarrow> (PageId \<times> nat \<times> search_path) outcome option" where
  "descendLoop t k exactMatch current path =
     (case bt_leaves t current of
        Some lf \<Rightarrow>
          Some (if exactMatch
                then let index = findKey (lf_keys lf) k
                     in if index \<ge> unat (node_keyCount lf) then Error (invalidArgument ''BTree: key not found'')
                        else (case leaf_keyAt index lf of
                                None \<Rightarrow> Thrown
                              | Some k' \<Rightarrow>
                                  if \<not> key_equal k' k then Error (invalidArgument ''BTree: key not found'')
                                  else Done (current, index, path))
                else Done (current, lowerBound (lf_keys lf) k, path))
      | None \<Rightarrow>
          (case bt_internals t current of
             None \<Rightarrow> Some Thrown
           | Some node \<Rightarrow>
               let childIndex = lowerBound (in_keys node) k
               in case internal_childAt childIndex node of
                    None \<Rightarrow> Some Thrown
                  | Some childRef \<Rightarrow>
                      if \<not> PageReference_isValid childRef
                      then Some (Error (corruption ''BTree: invalid child reference''))
                      else descendLoop t k exactMatch (pr_pageId childRef)
                             (\<lparr>fm_pageId = current, fm_childIndex = of_nat childIndex,
                               fm_pageRef = makeIndexRef current\<rparr> # path)))"

definition descendToLeaf :: "key \<Rightarrow> bool \<Rightarrow> ('w, PageId \<times> nat \<times> search_path) tree_op" where
  "descendToLeaf k exactMatch t =
     (if tree_empty t then (Error (invalidArgument ''BTree: tree is empty''), t)
      else (case descendLoop t k exactMatch (bt_rootId t) [] of None \<Rightarrow> Diverges | Some r \<Rightarrow> r, t))"

definition descendForInsert :: "key \<Rightarrow> ('w, PageId \<times> nat \<times> search_path) tree_op" where
  "descendForInsert k =
     bindT (descendToLeaf k False) (\<lambda>(lf, index, path).
     bindT (leafT lf) (\<lambda>n.
     bindT (readT bt_config) (\<lambda>config.
       if \<not> allowDuplicates config \<and> index < unat (node_keyCount n)
       then bindT (someT (leaf_keyAt index n)) (\<lambda>k'.
              if key_equal k' k then errorT (invalidArgument ''BTree: duplicate key'')
              else doneT (lf, index, path))
       else doneT (lf, index, path))))"

definition tree_find :: "key \<Rightarrow> ('w, page_ref) tree_op" where
  "tree_find k =
     bindT (descendToLeaf k True) (\<lambda>(lf, index, path).
     bindT (leafT lf) (\<lambda>n. someT (leaf_referenceAt index n)))"

definition tree_contains :: "key \<Rightarrow> ('w, bool) tree_op" where
  "tree_contains k t =
     (case tree_find k t of
        (Done _, t') \<Rightarrow> (Done True, t')
      | (Error _, t') \<Rightarrow> (Done False, t')
      | (Thrown, t') \<Rightarrow> (Thrown, t')
      | (Diverges, t') \<Rightarrow> (Diverges, t'))"

end
