(* ===== verification/Rebalance.thy ===== *)
theory Rebalance
  imports BTree
begin

text \<open>
  Structural changes of the tree (src/src/btree/Rebalance.cpp): splitting leaves and internal
  nodes on insertion, borrowing and merging on underflow.
\<close>

section \<open>Splitting\<close>

definition setParentKey :: "PageId \<Rightarrow> nat \<Rightarrow> key \<Rightarrow> ('w, unit) tree_op" where
  "setParentKey parent index k = on_internal parent (internal_setKeyAt index k)"

text \<open>
  The two mutually recursive functions walk up the search path, which each round shortens.
\<close>

function insertIntoParent :: "search_path \<Rightarrow> key \<Rightarrow> PageId \<Rightarrow> PageId \<Rightarrow> ('w, unit) tree_op"
  and splitAndInsertInternal :: "PageId \<Rightarrow> search_path \<Rightarrow> nat \<Rightarrow> key \<Rightarrow> page_ref \<Rightarrow> ('w, unit) tree_op" where
  "insertIntoParent path promoted leftId rightId =
     (if path = []
      then bindT (readT bt_height) (\<lambda>h.
           bindT (allocateInternal h) (\<lambda>root.
           thenT (on_internal root (internal_assignEntries [promoted] [makeIndexRef leftId, makeIndexRef rightId]))
             (thenT (setRoot root) (bindT (readT bt_height) (\<lambda>h'. setHeight (h' + 1))))))
      else let parent = fm_pageId (hd path); childIndex = unat (fm_childIndex (hd path))
           in bindT (internalT parent) (\<lambda>n.
                if node_keyCount n < node_capacity n
                then on_internal parent (internal_insert childIndex promoted (makeIndexRef rightId))
                else splitAndInsertInternal parent path childIndex promoted (makeIndexRef rightId)))"
| "splitAndInsertInternal node path insertIndex k rightChild =
     bindT (internalT node) (\<lambda>n.
       let keys = insert_at insertIndex k (in_keys n);
           children = insert_at (insertIndex + 1) rightChild (in_children n);
           splitIdx = length keys div 2;
           promoted = keys ! splitIdx;
           leftKeys = take splitIdx keys; leftChildren = take (splitIdx + 1) children;
           rightKeys = drop (splitIdx + 1) keys; rightChildren = drop (splitIdx + 1) children
       in thenT (on_internal node (internal_assignEntries leftKeys leftChildren))
          (bindT (allocateInternal (level (nd_config n))) (\<lambda>sibling.
           thenT (on_internal sibling (internal_assignEntries rightKeys rightChildren))
          (thenT recordSplit
          (thenT (walOnNodeSplit node sibling promoted)
             (insertIntoParent (path_pop path) promoted node sibling))))))"
  by pat_completeness auto
termination
  by (relation "measure (\<lambda>x. case x of
        Inl (path, _) \<Rightarrow> 2 * length path + 1
      | Inr (_, path, _) \<Rightarrow> if path = [] then 2 else 2 * length path)")
    (auto simp: path_pop_def neq_Nil_conv)

declare insertIntoParent.simps [simp del] splitAndInsertInternal.simps [simp del]

definition splitAndInsertLeaf :: "PageId \<Rightarrow> search_path \<Rightarrow> key \<Rightarrow> page_ref \<Rightarrow> ('w, unit) tree_op" where
  "splitAndInsertLeaf lf path k value =
     bindT (leafT lf) (\<lambda>n.
       let pos = lowerBound (lf_keys n) k;
           keys = insert_at pos k (lf_keys n);
           refs = insert_at pos value (lf_refs n);
           splitIdx = length keys div 2;
           promoted = keys ! splitIdx;
           leftKeys = take splitIdx keys; leftRefs = take splitIdx refs;
           rightKeys = drop (splitIdx + 1) keys; rightRefs = drop (splitIdx + 1) refs
       in thenT (on_leaf lf (leaf_assignEntries leftKeys leftRefs))
          (bindT (allocateLeaf (level (nd_config n))) (\<lambda>sibling.
           thenT (on_leaf sibling (leaf_assignEntries rightKeys rightRefs))
          (thenT recordSplit
          (thenT (walOnNodeSplit lf sibling promoted)
             (insertIntoParent path promoted lf sibling))))))"

section \<open>Borrowing and merging leaves\<close>

definition borrowFromLeftLeaf :: "PageId \<Rightarrow> nat \<Rightarrow> PageId \<Rightarrow> PageId \<Rightarrow> ('w, unit) tree_op" where
  "borrowFromLeftLeaf parent childIndex left node =
     bindT (internalT parent) (\<lambda>p.
     bindT (someT (internal_keyAt (childIndex - 1) p)) (\<lambda>separator.
     bindT (leafT left) (\<lambda>l.
     bindT (someT (leaf_keyAt (unat (node_keyCount l - 1)) l)) (\<lambda>leftKey.
     bindT (someT (leaf_referenceAt (unat (node_keyCount l - 1)) l)) (\<lambda>leftRef.
     thenT (on_leaf left (leaf_eraseAt (unat (node_keyCount l - 1))))
    (thenT (setParentKey parent (childIndex - 1) leftKey)
    (bindT (leafT node) (\<lambda>n.
     thenT (on_leaf node (leaf_assignEntries (separator # lf_keys n) (leftRef # lf_refs n)))
       recordRotation))))))))"

definition borrowFromRightLeaf :: "PageId \<Rightarrow> nat \<Rightarrow> PageId \<Rightarrow> PageId \<Rightarrow> ('w, unit) tree_op" where
  "borrowFromRightLeaf parent childIndex node right =
     bindT (internalT parent) (\<lambda>p.
     bindT (someT (internal_keyAt childIndex p)) (\<lambda>separator.
     bindT (leafT right) (\<lambda>r.
     bindT (someT (leaf_keyAt 0 r)) (\<lambda>rightKey.
     bindT (someT (leaf_referenceAt 0 r)) (\<lambda>rightRef.
     thenT (on_leaf right (leaf_eraseAt 0))
    (thenT (setParentKey parent childIndex rightKey)
    (bindT (leafT node) (\<lambda>n.
     thenT (on_leaf node (leaf_assignEntries (lf_keys n @ [separator]) (lf_refs n @ [rightRef])))
       recordRotation))))))))"

definition childT :: "PageId \<Rightarrow> nat \<Rightarrow> ('w, PageId) tree_op" where
  "childT parent i =
     bindT (internalT parent) (\<lambda>p. bindT (someT (internal_childAt i p)) (\<lambda>r. doneT (pr_pageId r)))"

text \<open>
  The end of every merge: the survivor's parent loses a key, the other node is released, and a
  root without keys is replaced by its only child; otherwise an underfull parent is handed to
  \<open>fix\<close>, the repair of the level above.
\<close>

definition collapseRoot :: "PageId \<Rightarrow> ('w, unit) tree_op" where
  "collapseRoot parent =
     bindT (childT parent 0) (\<lambda>newRoot.
     thenT (releaseNode parent)
    (thenT (setRoot newRoot)
    (bindT (readT bt_height) (\<lambda>h. if h > 0 then setHeight (h - 1) else doneT ()))))"

definition afterMerge :: "PageId \<Rightarrow> ('w, unit) tree_op \<Rightarrow> ('w, unit) tree_op" where
  "afterMerge parent fix =
     bindT (internalT parent) (\<lambda>p.
     bindT (readT bt_rootId) (\<lambda>root.
       if parent = root \<and> node_keyCount p = 0 then collapseRoot parent
       else if isUnderfull (node_keyCount p) (node_capacity p) (parent = root) then fix
       else doneT ()))"

definition finishMerge :: "PageId \<Rightarrow> nat \<Rightarrow> PageId \<Rightarrow> PageId \<Rightarrow> ('w, unit) tree_op \<Rightarrow> ('w, unit) tree_op" where
  "finishMerge parent index survivor removed fix =
     thenT (on_internal parent (internal_eraseAt index))
    (thenT (walOnNodeMerge survivor removed)
    (thenT (releaseNode removed)
    (thenT recordMerge
       (afterMerge parent fix))))"

section \<open>Internal nodes\<close>

definition borrowFromLeftInternal :: "PageId \<Rightarrow> nat \<Rightarrow> PageId \<Rightarrow> PageId \<Rightarrow> ('w, unit) tree_op" where
  "borrowFromLeftInternal parent childIndex left node =
     bindT (internalT parent) (\<lambda>p.
     bindT (someT (internal_keyAt (childIndex - 1) p)) (\<lambda>separator.
     bindT (internalT left) (\<lambda>l.
     bindT (someT (internal_keyAt (unat (node_keyCount l - 1)) l)) (\<lambda>leftKey.
     bindT (someT (internal_childAt (unat (node_keyCount l)) l)) (\<lambda>leftChild.
     thenT (on_internal left (internal_assignEntries (butlast (in_keys l)) (butlast (in_children l))))
    (thenT (setParentKey parent (childIndex - 1) leftKey)
    (bindT (internalT node) (\<lambda>n.
     thenT (on_internal node (internal_assignEntries (separator # in_keys n) (leftChild # in_children n)))
       recordRotation))))))))"

definition borrowFromRightInternal :: "PageId \<Rightarrow> nat \<Rightarrow> PageId \<Rightarrow> PageId \<Rightarrow> ('w, unit) tree_op" where
  "borrowFromRightInternal parent childIndex node right =
     bindT (internalT parent) (\<lambda>p.
     bindT (someT (internal_keyAt childIndex p)) (\<lambda>separator.
     bindT (internalT right) (\<lambda>r.
     bindT (someT (internal_keyAt 0 r)) (\<lambda>rightKey.
     bindT (someT (internal_childAt 0 r)) (\<lambda>rightChild.
     thenT (on_internal right (internal_assignEntries (tl (in_keys r)) (tl (in_children r))))
    (thenT (setParentKey parent childIndex rightKey)
    (bindT (internalT node) (\<lambda>n.
     thenT (on_internal node (internal_assignEntries (in_keys n @ [separator]) (in_children n @ [rightChild])))
       recordRotation))))))))"

function fixInternalUnderflow :: "search_path \<Rightarrow> PageId \<Rightarrow> ('w, unit) tree_op"
  and mergeInternalLeft :: "search_path \<Rightarrow> PageId \<Rightarrow> nat \<Rightarrow> ('w, unit) tree_op"
  and mergeInternalRight :: "search_path \<Rightarrow> PageId \<Rightarrow> nat \<Rightarrow> ('w, unit) tree_op" where
  "fixInternalUnderflow path node =
     (if path = [] then doneT ()
      else let parent = fm_pageId (hd path); childIndex = unat (fm_childIndex (hd path));
               merge = (if childIndex > 0 then mergeInternalLeft path parent childIndex
                        else mergeInternalRight path parent childIndex);
               tryRight = bindT (internalT parent) (\<lambda>p.
                 if fm_childIndex (hd path) + 1 \<le> node_keyCount p
                 then bindT (childT parent (childIndex + 1)) (\<lambda>right.
                      bindT (internalT right) (\<lambda>r.
                        if node_keyCount r > minKeyCount (node_capacity r) False
                        then borrowFromRightInternal parent childIndex node right
                        else merge))
                 else merge)
           in if childIndex > 0
              then bindT (childT parent (childIndex - 1)) (\<lambda>left.
                   bindT (internalT left) (\<lambda>l.
                     if node_keyCount l > minKeyCount (node_capacity l) False
                     then borrowFromLeftInternal parent childIndex left node
                     else tryRight))
              else bindT (internalT parent) (\<lambda>_. tryRight))"
| "mergeInternalLeft path parent childIndex =
     bindT (childT parent (childIndex - 1)) (\<lambda>left.
     bindT (childT parent childIndex) (\<lambda>current.
     bindT (internalT left) (\<lambda>l.
     bindT (internalT current) (\<lambda>c.
     bindT (internalT parent) (\<lambda>p.
     bindT (someT (internal_keyAt (childIndex - 1) p)) (\<lambda>sep.
     thenT (on_internal left (internal_assignEntries (in_keys l @ [sep] @ in_keys c)
              (in_children l @ drop 1 (in_children c))))
       (finishMerge parent (childIndex - 1) left current
          (fixInternalUnderflow (path_pop path) parent))))))))"
| "mergeInternalRight path parent childIndex =
     bindT (childT parent childIndex) (\<lambda>current.
     bindT (childT parent (childIndex + 1)) (\<lambda>right.
     bindT (internalT current) (\<lambda>c.
     bindT (internalT right) (\<lambda>r.
     bindT (internalT parent) (\<lambda>p.
     bindT (someT (internal_keyAt childIndex p)) (\<lambda>sep.
     thenT (on_internal current (internal_assignEntries (in_keys c @ [sep] @ in_keys r)
              (in_children c @ drop 1 (in_children r))))
       (finishMerge parent childIndex current right
          (fixInternalUnderflow (path_pop path) parent))))))))"
  by pat_completeness auto
termination
  by (relation "measure (\<lambda>x. case x of
        Inl (path, _) \<Rightarrow> 2 * length path + 1
      | Inr (Inl (path, _)) \<Rightarrow> if path = [] then 2 else 2 * length path
      | Inr (Inr (path, _)) \<Rightarrow> if path = [] then 2 else 2 * length path)")
    (auto simp: path_pop_def neq_Nil_conv)

declare fixInternalUnderflow.simps [simp del] mergeInternalLeft.simps [simp del] mergeInternalRight.simps [simp del]

text \<open>The loop over the entries of a leaf, by index up to its key count.\<close>

definition entriesT :: "leaf_node \<Rightarrow> ('w, key list \<times> page_ref list) tree_op" where
  "entriesT n =
     (let c = unat (node_keyCount n)
      in if c \<le> length (lf_keys n) \<and> c \<le> length (lf_refs n)
         then doneT (take c (lf_keys n), take c (lf_refs n)) else thrownT)"

definition mergeLeafLeft :: "search_path \<Rightarrow> PageId \<Rightarrow> nat \<Rightarrow> ('w, unit) tree_op" where
  "mergeLeafLeft path parent childIndex =
     bindT (childT parent (childIndex - 1)) (\<lambda>left.
     bindT (leafT left) (\<lambda>l.
     bindT (childT parent childIndex) (\<lambda>current.
     bindT (leafT current) (\<lambda>c.
     bindT (entriesT c) (\<lambda>(ks, rs).
     thenT (on_leaf left (leaf_assignEntries (lf_keys l @ ks) (lf_refs l @ rs)))
       (finishMerge parent (childIndex - 1) left current
          (fixInternalUnderflow (path_pop path) parent)))))))"

definition mergeLeafRight :: "search_path \<Rightarrow> PageId \<Rightarrow> nat \<Rightarrow> ('w, unit) tree_op" where
  "mergeLeafRight path parent childIndex =
     bindT (childT parent childIndex) (\<lambda>current.
     bindT (leafT current) (\<lambda>c.
     bindT (childT parent (childIndex + 1)) (\<lambda>right.
     bindT (leafT right) (\<lambda>r.
     bindT (entriesT r) (\<lambda>(ks, rs).
     thenT (on_leaf current (leaf_assignEntries (lf_keys c @ ks) (lf_refs c @ rs)))
       (finishMerge parent childIndex current right
          (fixInternalUnderflow (path_pop path) parent)))))))"

definition fixLeafUnderflow :: "search_path \<Rightarrow> PageId \<Rightarrow> ('w, unit) tree_op" where
  "fixLeafUnderflow path lf =
     (if path = [] then doneT ()
      else let parent = fm_pageId (hd path); childIndex = unat (fm_childIndex (hd path));
               merge = (if childIndex > 0 then mergeLeafLeft path parent childIndex
                        else mergeLeafRight path parent childIndex);
               tryRight = bindT (internalT parent) (\<lambda>p.
                 if fm_childIndex (hd path) + 1 \<le> node_keyCount p
                 then bindT (childT parent (childIndex + 1)) (\<lambda>right.
                      bindT (leafT right) (\<lambda>r.
                        if node_keyCount r > minKeyCount (node_capacity r) False
                        then borrowFromRightLeaf parent childIndex lf right
                        else merge))
                 else merge)
           in if childIndex > 0
              then bindT (childT parent (childIndex - 1)) (\<lambda>left.
                   bindT (leafT left) (\<lambda>l.
                     if node_keyCount l > minKeyCount (node_capacity l) False
                     then borrowFromLeftLeaf parent childIndex left lf
                     else tryRight))
              else bindT (internalT parent) (\<lambda>_. tryRight))"

end
