(* ===== verification/TreeOps.thy ===== *)
theory TreeOps
  imports Rebalance
begin

text \<open>
  The public operations of the B-tree that change it (insert, erase, the collapse of the root),
  its statistics and snapshot (src/src/btree/BTree.cpp), and the tree validator
  (src/src/btree/TreeValidator.cpp).
\<close>

section \<open>Insert and erase\<close>

definition incrementSize :: "('w, unit) tree_op" where
  "incrementSize = updateT (\<lambda>t. t\<lparr>bt_size := bt_size t + 1\<rparr>)"

definition tree_insert :: "key \<Rightarrow> page_ref \<Rightarrow> ('w, unit) tree_op" where
  "tree_insert k value =
     (if \<not> PageReference_isValid value then errorT (invalidArgument ''BTree: invalid page reference'')
      else bindT (readT tree_empty) (\<lambda>e.
        if e
        then bindT (allocateLeaf 0) (\<lambda>lf.
             thenT (on_leaf lf (leaf_insert k value))
            (thenT (setRoot lf)
            (thenT (setHeight 1)
            (thenT incrementSize
               (walOnInsert k value)))))
        else bindT (descendForInsert k) (\<lambda>(lf, index, path).
             bindT (leafT lf) (\<lambda>n.
               if node_keyCount n < node_capacity n
               then thenT (on_leaf lf (leaf_insert k value)) (thenT incrementSize (walOnInsert k value))
               else thenT (splitAndInsertLeaf lf path k value) (thenT incrementSize (walOnInsert k value))))))"

definition tree_erase :: "key \<Rightarrow> ('w, unit) tree_op" where
  "tree_erase k =
     bindT (readT tree_empty) (\<lambda>e.
       if e then errorT (invalidArgument ''BTree: key not found'')
       else bindT (descendToLeaf k True) (\<lambda>(lf, index, path).
            thenT (on_leaf lf (leaf_eraseAt index))
           (thenT (updateT (\<lambda>t. t\<lparr>bt_size := bt_size t - 1\<rparr>))
           (thenT (walOnErase k)
           (bindT (leafT lf) (\<lambda>n.
              if path = []
              then (if node_keyCount n = 0
                    then thenT (releaseNode lf) (thenT (setRoot kInvalidPageId) (setHeight 0))
                    else doneT ())
              else if \<not> isUnderfull (node_keyCount n) (node_capacity n) False then doneT ()
              else fixLeafUnderflow path lf))))))"

definition collapseRootIfNeeded :: "('w, unit) tree_op" where
  "collapseRootIfNeeded =
     bindT (readT id) (\<lambda>t.
       if tree_empty t then doneT ()
       else if \<not> isInternal (bt_rootId t) t then doneT ()
       else bindT (internalT (bt_rootId t)) (\<lambda>root.
              if node_keyCount root = 0 \<and> length (in_children root) = 1
              then bindT (someT (internal_childAt 0 root)) (\<lambda>c.
                   thenT (releaseNode (bt_rootId t))
                  (thenT (setRoot (pr_pageId c))
                  (bindT (readT bt_height) (\<lambda>h. if h > 0 then setHeight (h - 1) else doneT ()))))
              else doneT ()))"

section \<open>Statistics\<close>

record tree_statistics =
  tst_height :: u32
  tst_nodeCount :: u32
  tst_leafCount :: u32
  tst_internalCount :: u32
  tst_maxDepth :: u32
  tst_keyCount :: u64
  tst_averageOccupancy :: real
  tst_operations :: tree_op_stats

definition tree_statistics_of :: "(PageId set \<Rightarrow> PageId list) \<Rightarrow> 'w btree \<Rightarrow> tree_statistics" where
  "tree_statistics_of ord t =
     (let base = \<lparr>tst_height = bt_height t, tst_nodeCount = 0, tst_leafCount = 0, tst_internalCount = 0,
                  tst_maxDepth = bt_height t, tst_keyCount = bt_size t, tst_averageOccupancy = 0,
                  tst_operations = bt_opStats t\<rparr>
      in if tree_empty t then base
         else let ls = map (\<lambda>p. the (bt_leaves t p)) (ord (dom (bt_leaves t)));
                  ns = map (\<lambda>p. the (bt_internals t p)) (ord (dom (bt_internals t)));
                  occupancySum = sum_list (map occupancyPercent ls) + sum_list (map occupancyPercent ns);
                  nodeCount = of_nat (length ls) + of_nat (length ns)
              in base\<lparr>tst_leafCount := of_nat (length ls), tst_internalCount := of_nat (length ns),
                      tst_nodeCount := nodeCount,
                      tst_averageOccupancy := (if nodeCount > 0 then occupancySum / real (unat nodeCount) else 0)\<rparr>)"

section \<open>Snapshot\<close>

fun write_pages :: "page list \<Rightarrow> (writer, unit) op" where
  "write_pages [] = ret ()"
| "write_pages (p # ps) = thenS (BasePage_serialize p) (write_pages ps)"

definition tree_serialize :: "(PageId set \<Rightarrow> PageId list) \<Rightarrow> 'w btree \<Rightarrow> (writer, unit) op" where
  "tree_serialize ord t =
     (let c = bt_config t;
          ls = map (\<lambda>p. nd_page (the (bt_leaves t p))) (ord (dom (bt_leaves t)));
          ns = map (\<lambda>p. nd_page (the (bt_internals t p))) (ord (dom (bt_internals t)))
      in thenS (write_word (bt_rootId t)) (thenS (write_word (bt_size t)) (thenS (write_word (bt_height t))
        (thenS (write_word (keyType c)) (thenS (write_word (binaryKeySize c))
        (thenS (write_word (if allowDuplicates c then 1 else 0 :: u8))
        (thenS (write_word (of_nat (length ls + length ns) :: u32))
        (thenS (write_pages ls) (write_pages ns)))))))))"

fun read_nodes :: "nat \<Rightarrow> reader \<times> 'w btree \<Rightarrow> (status + unit) \<times> reader \<times> 'w btree" where
  "read_nodes 0 s = (Inr (), s)"
| "read_nodes (Suc i) (r, t) =
     (case BasePage_deserialize (r, IndexPage_new) of
        (Inl st, (r1, page)) \<Rightarrow> (Inl st, (r1, t))
      | (Inr _, (r1, page)) \<Rightarrow>
          let pid = Page_id page; type = il_nodeType (IndexPage_layout page)
          in if type = NodeType_Leaf
             then read_nodes i (r1, if bt_leaves t pid = None
                    then t\<lparr>bt_leaves := (bt_leaves t)(pid \<mapsto> leaf_fromPage page)\<rparr> else t)
             else if type = NodeType_Internal
             then read_nodes i (r1, if bt_internals t pid = None
                    then t\<lparr>bt_internals := (bt_internals t)(pid \<mapsto> internal_fromPage page)\<rparr> else t)
             else (Inl (corruption ''BTree: unknown node type in snapshot''), (r1, t)))"

definition tree_deserialize :: "(PageId set \<Rightarrow> PageId list) \<Rightarrow> (reader \<times> 'w btree, unit) op" where
  "tree_deserialize ord s =
     (case s of (r0, t) \<Rightarrow>
      let t0 = tree_clear ord t in
      case read_word r0 of (Inl st, r) \<Rightarrow> (Inl st, (r, t0)) | (Inr rid, r1) \<Rightarrow>
      let t1 = t0\<lparr>bt_rootId := rid\<rparr> in
      (case read_word r1 of (Inl st, r) \<Rightarrow> (Inl st, (r, t1)) | (Inr sz, r2) \<Rightarrow>
      let t2 = t1\<lparr>bt_size := sz\<rparr> in
      (case read_word r2 of (Inl st, r) \<Rightarrow> (Inl st, (r, t2)) | (Inr h, r3) \<Rightarrow>
      let t3 = t2\<lparr>bt_height := h\<rparr> in
      (case read_word r3 of (Inl st, r) \<Rightarrow> (Inl st, (r, t3)) | (Inr kt, r4) \<Rightarrow>
      let t4 = t3\<lparr>bt_config := (bt_config t3)\<lparr>keyType := kt\<rparr>\<rparr> in
      (case read_word r4 of (Inl st, r) \<Rightarrow> (Inl st, (r, t4)) | (Inr bsz, r5) \<Rightarrow>
      let t5 = t4\<lparr>bt_config := (bt_config t4)\<lparr>binaryKeySize := bsz\<rparr>\<rparr> in
      (case (read_word :: (reader, u8) op) r5 of (Inl st, r) \<Rightarrow> (Inl st, (r, t5)) | (Inr dup, r6) \<Rightarrow>
      let t6 = t5\<lparr>bt_config := (bt_config t5)\<lparr>allowDuplicates := (dup \<noteq> 0)\<rparr>\<rparr> in
      (case (read_word :: (reader, u32) op) r6 of (Inl st, r) \<Rightarrow> (Inl st, (r, t6)) | (Inr nodeCount, r7) \<Rightarrow>
         read_nodes (unat nodeCount) (r7, t6))))))))"

section \<open>The tree validator\<close>

fun validateKeys :: "key option \<Rightarrow> key option \<Rightarrow> key option \<Rightarrow> key list \<Rightarrow> status + unit" where
  "validateKeys minKey maxKey prev [] = Inr ()"
| "validateKeys minKey maxKey prev (k # ks) =
     (if (case minKey of None \<Rightarrow> False | Some m \<Rightarrow> key_less k m)
      then Inl (corruption ''TreeValidator: leaf key below parent separator'')
      else if (case maxKey of None \<Rightarrow> False | Some m \<Rightarrow> \<not> key_less k m)
      then Inl (corruption ''TreeValidator: leaf key at or above upper separator'')
      else if (case prev of None \<Rightarrow> False | Some p \<Rightarrow> key_less k p)
      then Inl (corruption ''TreeValidator: leaf keys not sorted'')
      else validateKeys minKey maxKey (Some k) ks)"

definition validateLeafRange :: "leaf_node \<Rightarrow> key option \<Rightarrow> key option \<Rightarrow> status + unit" where
  "validateLeafRange lf minKey maxKey =
     (case leaf_validate lf of Inl st \<Rightarrow> Inl st
      | Inr _ \<Rightarrow> validateKeys minKey maxKey None (lf_keys lf))"

fun validateInternalKeys :: "key option \<Rightarrow> key option \<Rightarrow> key option \<Rightarrow> key list \<Rightarrow> status + unit" where
  "validateInternalKeys minKey maxKey prev [] = Inr ()"
| "validateInternalKeys minKey maxKey prev (k # ks) =
     (if (case minKey of None \<Rightarrow> False | Some m \<Rightarrow> key_less k m)
      then Inl (corruption ''TreeValidator: internal key below bound'')
      else if (case maxKey of None \<Rightarrow> False | Some m \<Rightarrow> key_less m k)
      then Inl (corruption ''TreeValidator: internal key above bound'')
      else if (case prev of None \<Rightarrow> False | Some p \<Rightarrow> key_less k p)
      then Inl (corruption ''TreeValidator: internal keys not sorted'')
      else validateInternalKeys minKey maxKey (Some k) ks)"

text \<open>
  The bounds of the children: left of each separator and right of it. A node that validates has
  one child more than keys, so the loop over the children is the loop over these triples.
\<close>

definition child_bounds :: "internal_node \<Rightarrow> key option \<Rightarrow> key option \<Rightarrow> (page_ref \<times> key option \<times> key option) list" where
  "child_bounds n minKey maxKey =
     zip (in_children n) (zip (minKey # map Some (in_keys n)) (map Some (in_keys n) @ [maxKey]))"

text \<open>The recursion has no bound of its own; it is given fuel, and \<open>Diverges\<close> when it runs out.\<close>

fun validateSubtree :: "nat \<Rightarrow> 'w btree \<Rightarrow> PageId \<Rightarrow> u32 \<Rightarrow> key option \<Rightarrow> key option \<Rightarrow> u32 \<Rightarrow> unit outcome \<times> u32"
  and validateChildren :: "nat \<Rightarrow> 'w btree \<Rightarrow> (page_ref \<times> key option \<times> key option) list \<Rightarrow> u32 \<Rightarrow> u32 \<Rightarrow> unit outcome \<times> u32" where
  "validateSubtree 0 t pid depth minKey maxKey leafDepth = (Diverges, leafDepth)"
| "validateSubtree (Suc fuel) t pid depth minKey maxKey leafDepth =
     (case bt_leaves t pid of
        Some lf \<Rightarrow>
          if leafDepth \<noteq> 0 \<and> leafDepth \<noteq> depth
          then (Error (corruption ''TreeValidator: leaves at different depths''), leafDepth)
          else ((case validateLeafRange lf minKey maxKey of Inl st \<Rightarrow> Error st | Inr _ \<Rightarrow> Done ()), depth)
      | None \<Rightarrow>
          (case bt_internals t pid of
             None \<Rightarrow> (Error (corruption ''TreeValidator: unknown page in tree''), leafDepth)
           | Some node \<Rightarrow>
               (case internal_validate node of
                  Inl st \<Rightarrow> (Error st, leafDepth)
                | Inr _ \<Rightarrow>
                    (case validateInternalKeys minKey maxKey None (in_keys node) of
                       Inl st \<Rightarrow> (Error st, leafDepth)
                     | Inr _ \<Rightarrow> validateChildren fuel t (child_bounds node minKey maxKey) (depth + 1) leafDepth))))"
| "validateChildren fuel t [] depth leafDepth = (Done (), leafDepth)"
| "validateChildren fuel t ((c, childMin, childMax) # cs) depth leafDepth =
     (if \<not> PageReference_isValid c
      then (Error (corruption ''TreeValidator: invalid child reference''), leafDepth)
      else (case validateSubtree fuel t (pr_pageId c) depth childMin childMax leafDepth of
              (Done _, ld) \<Rightarrow> validateChildren fuel t cs depth ld
            | r \<Rightarrow> r))"

definition tree_validate :: "nat \<Rightarrow> 'w btree \<Rightarrow> unit outcome" where
  "tree_validate fuel t =
     (if tree_empty t then Done ()
      else if \<not> isLeaf (bt_rootId t) t \<and> \<not> isInternal (bt_rootId t) t
      then Error (corruption ''TreeValidator: invalid root page'')
      else fst (validateSubtree fuel t (bt_rootId t) 1 None None 0))"

end
