(* ===== verification/TreeProps.thy ===== *)
theory TreeProps
  imports TreeOps
begin

text \<open>
  What the operations of the B-tree do: descent and the operations built on it end on every tree
  whose references go down, a tree of one leaf is a finite map, and what splitting, borrowing
  and merging do to the entries.
\<close>

section \<open>The operations as values\<close>

lemma opT_simps [simp]:
  "doneT x t = (Done x, t)" "errorT st t = (Error st, t)" "thrownT t = (Thrown, t)"
  "readT f t = (Done (f t), t)" "updateT g t = (Done (), g t)"
  "someT (Some x) = doneT x" "someT None = thrownT"
  by (simp_all add: doneT_def errorT_def thrownT_def readT_def updateT_def someT_def)

lemma bindT_simps [simp]:
  "m t = (Done x, t') \<Longrightarrow> bindT m f t = f x t'"
  "m t = (Error st, t') \<Longrightarrow> bindT m f t = (Error st, t')"
  "m t = (Thrown, t') \<Longrightarrow> bindT m f t = (Thrown, t')"
  "m t = (Diverges, t') \<Longrightarrow> bindT m f t = (Diverges, t')"
  by (simp_all add: bindT_def)

lemma thenT_simps [simp]:
  "m t = (Done u, t') \<Longrightarrow> thenT m k t = k t'"
  "m t = (Error st, t') \<Longrightarrow> thenT m k t = (Error st, t')"
  "m t = (Thrown, t') \<Longrightarrow> thenT m k t = (Thrown, t')"
  "m t = (Diverges, t') \<Longrightarrow> thenT m k t = (Diverges, t')"
  by (simp_all add: thenT_def)

lemma nodeT_simps [simp]:
  "bt_leaves t p = Some n \<Longrightarrow> leafT p t = (Done n, t)"
  "bt_internals t p = Some m \<Longrightarrow> internalT p t = (Done m, t)"
  by (simp_all add: leafT_def internalT_def)

lemma on_node_simps:
  "bt_leaves t p = Some n \<Longrightarrow> f n = (Inr u, n') \<Longrightarrow> on_leaf p f t = (Done (), t\<lparr>bt_leaves := (bt_leaves t)(p \<mapsto> n')\<rparr>)"
  "bt_leaves t p = Some n \<Longrightarrow> f n = (Inl st, n') \<Longrightarrow> on_leaf p f t = (Error st, t\<lparr>bt_leaves := (bt_leaves t)(p \<mapsto> n')\<rparr>)"
  "bt_internals t p = Some m \<Longrightarrow> g m = (Inr u, m') \<Longrightarrow> on_internal p g t = (Done (), t\<lparr>bt_internals := (bt_internals t)(p \<mapsto> m')\<rparr>)"
  "bt_internals t p = Some m \<Longrightarrow> g m = (Inl st, m') \<Longrightarrow> on_internal p g t = (Error st, t\<lparr>bt_internals := (bt_internals t)(p \<mapsto> m')\<rparr>)"
  by (simp_all add: on_leaf_def on_internal_def)

lemma wal_none: "bt_walSink t = None \<Longrightarrow> walT c t = (Done (), t)"
  by (simp add: walT_def)

lemmas wal_defs = walOnInsert_def walOnErase_def walOnPageAllocate_def walOnPageDeallocate_def
  walOnNodeSplit_def walOnNodeMerge_def

section \<open>Operations that return\<close>

text \<open>\<open>returns m\<close>: the operation never loops.\<close>

definition returns :: "('w, 'a) tree_op \<Rightarrow> bool" where
  "returns m \<longleftrightarrow> (\<forall>t. fst (m t) \<noteq> Diverges)"

named_theorems returns_rules \<open>operations that return\<close>

lemma returns_basic [returns_rules]:
  "returns (doneT x)" "returns (errorT st)" "returns thrownT" "returns (readT f)" "returns (updateT g)"
  by (simp_all add: returns_def)

lemma returns_someT [returns_rules]: "returns (someT x)"
  by (cases x) (simp_all add: returns_basic)

lemma returns_bindT [returns_rules]:
  assumes "returns m" "\<And>x. returns (f x)"
  shows "returns (bindT m f)"
  unfolding returns_def
proof
  fix t
  obtain r t' where m: "m t = (r, t')" by (cases "m t")
  then have "r \<noteq> Diverges" using assms(1) by (metis returns_def fst_conv)
  with m assms(2) show "fst (bindT m f t) \<noteq> Diverges"
    by (cases r) (auto simp: returns_def)
qed

lemma returns_thenT [returns_rules]: "returns m \<Longrightarrow> returns k \<Longrightarrow> returns (thenT m k)"
  by (simp add: thenT_def returns_bindT)

lemma returns_if [returns_rules]: "(c \<Longrightarrow> returns a) \<Longrightarrow> (\<not> c \<Longrightarrow> returns b) \<Longrightarrow> returns (if c then a else b)"
  by simp

lemma returns_prod [returns_rules]: "(\<And>a b. x = (a, b) \<Longrightarrow> returns (f a b)) \<Longrightarrow> returns (case x of (a, b) \<Rightarrow> f a b)"
  by (cases x) simp

lemma returns_nodes [returns_rules]:
  "returns (leafT p)" "returns (internalT p)" "returns (on_leaf p f)" "returns (on_internal p g)" "returns (walT c)"
  by (auto simp: returns_def leafT_def internalT_def on_leaf_def on_internal_def walT_def someT_def
      split: option.splits sum.splits prod.splits)

lemma returns_tree [returns_rules]:
  "returns (walOnInsert k v)" "returns (walOnErase k)" "returns (walOnPageAllocate p)" "returns (walOnPageDeallocate p)"
  "returns (walOnNodeSplit a b k)" "returns (walOnNodeMerge a b)" "returns recordSplit" "returns recordMerge"
  "returns recordRotation" "returns (setRoot p)" "returns (setHeight h)" "returns incrementSize" "returns (releaseNode p)"
  by (simp_all add: wal_defs recordSplit_def recordMerge_def recordRotation_def setRoot_def setHeight_def
      incrementSize_def returns_rules) (simp add: returns_def releaseNode_def Let_def)

lemma page_logged: "fst (thenT (walOnPageAllocate p) (doneT q) t) \<noteq> Diverges"
  using returns_thenT [OF returns_tree(3) returns_basic(1)] by (metis returns_def)

lemma returns_alloc [returns_rules]: "returns (allocateLeaf lv)" "returns (allocateInternal lv)"
  by (simp_all add: page_logged returns_def allocateLeaf_def allocateInternal_def Let_def split: prod.splits)

lemma returns_split [returns_rules]:
  "returns (insertIntoParent path k a b :: ('w, unit) tree_op)"
  "returns (splitAndInsertInternal n path i k r :: ('w, unit) tree_op)"
proof (induction path k a b and n path i k r rule: insertIntoParent_splitAndInsertInternal.induct)
  case (1 path promoted leftId rightId)
  have "returns (splitAndInsertInternal (fm_pageId (hd path)) path (unat (fm_childIndex (hd path))) promoted
      (makeIndexRef rightId) :: ('w, unit) tree_op)" if "path \<noteq> []" "\<not> node_keyCount n < node_capacity n"
    for n :: internal_node
    using 1 [OF that(1) refl refl that(2)] .
  then show ?case
    by (subst insertIntoParent.simps) (auto simp: Let_def intro!: returns_rules)
next
  case (2 node path insertIndex k rightChild)
  then show ?case
    by (subst splitAndInsertInternal.simps) (auto simp: Let_def intro!: returns_rules)
qed

lemma returns_leaf_split [returns_rules]: "returns (splitAndInsertLeaf lf path k v)"
  unfolding splitAndInsertLeaf_def Let_def by (intro returns_rules)

lemma returns_borrow [returns_rules]:
  "returns (borrowFromLeftLeaf p i a b)" "returns (borrowFromRightLeaf p i a b)"
  "returns (borrowFromLeftInternal p i a b)" "returns (borrowFromRightInternal p i a b)"
  "returns (childT p i)" "returns (entriesT n)"
  unfolding borrowFromLeftLeaf_def borrowFromRightLeaf_def borrowFromLeftInternal_def borrowFromRightInternal_def
    setParentKey_def childT_def entriesT_def Let_def
  by (intro returns_rules)+

lemma returns_merge [returns_rules]: "returns fix \<Longrightarrow> returns (finishMerge p i a b fix)"
  unfolding finishMerge_def afterMerge_def collapseRoot_def by (intro returns_rules)

lemma returns_fix [returns_rules]:
  "returns (fixInternalUnderflow path node :: ('w, unit) tree_op)"
  "returns (mergeInternalLeft path p i :: ('w, unit) tree_op)"
  "returns (mergeInternalRight path p j :: ('w, unit) tree_op)"
proof (induction path node and path p i and path p j
    rule: fixInternalUnderflow_mergeInternalLeft_mergeInternalRight.induct)
  case (1 path node)
  let ?p = "fm_pageId (hd path)" and ?i = "unat (fm_childIndex (hd path))"
  have "returns (mergeInternalLeft path ?p ?i :: ('w, unit) tree_op)" if "path \<noteq> []" "0 < ?i"
    using 1(1) [OF that(1) refl refl that(2)] .
  moreover have "returns (mergeInternalRight path ?p ?i :: ('w, unit) tree_op)" if "path \<noteq> []" "\<not> 0 < ?i"
    using 1(2) [OF that(1) refl refl that(2)] .
  ultimately show ?case
    by (subst fixInternalUnderflow.simps) (auto simp: Let_def intro!: returns_rules)
next
  case (2 path parent childIndex)
  then show ?case
    by (subst mergeInternalLeft.simps) (auto intro!: returns_rules)
next
  case (3 path parent childIndex)
  then show ?case
    by (subst mergeInternalRight.simps) (auto intro!: returns_rules)
qed

lemma returns_leaf_fix [returns_rules]: "returns (fixLeafUnderflow path lf)"
  unfolding fixLeafUnderflow_def mergeLeafLeft_def mergeLeafRight_def Let_def
  by (intro returns_rules)

section \<open>Descent\<close>

text \<open>References go down: every valid child of an internal node has a smaller rank.\<close>

definition ranked :: "(PageId \<Rightarrow> nat) \<Rightarrow> 'w btree \<Rightarrow> bool" where
  "ranked rank t \<longleftrightarrow> (\<forall>p n c. bt_internals t p = Some n \<longrightarrow> c \<in> set (in_children n) \<longrightarrow>
     PageReference_isValid c \<longrightarrow> rank (pr_pageId c) < rank p)"

lemma descend_ends:
  assumes "ranked rank t"
  shows "\<exists>r. descendLoop t k e p path = Some r"
proof (induction "rank p" arbitrary: p path rule: less_induct)
  case less
  have "\<exists>r. descendLoop t k e (pr_pageId c) path' = Some r"
    if "bt_internals t p = Some n" "internal_childAt i n = Some c" "PageReference_isValid c" for n i c path'
  proof -
    have "c \<in> set (in_children n)" using that(2) by (auto simp: internal_childAt_def split: if_splits)
    with that assms have "rank (pr_pageId c) < rank p" unfolding ranked_def by blast
    then show ?thesis by (rule less)
  qed
  then show ?case
    by (subst descendLoop.simps) (auto simp: Let_def split: option.splits)
qed

lemma descend_returns:
  assumes "ranked rank t"
  shows "fst (descendToLeaf k e t) \<noteq> Diverges" "snd (descendToLeaf k e t) = t"
proof -
  have "\<exists>r. descendLoop t k e p path = Some r \<and> r \<noteq> Diverges" for p path
  proof (induction "rank p" arbitrary: p path rule: less_induct)
    case less
    have "\<exists>r. descendLoop t k e (pr_pageId c) path' = Some r \<and> r \<noteq> Diverges"
      if "bt_internals t p = Some n" "internal_childAt i n = Some c" "PageReference_isValid c" for n i c path'
    proof -
      have "c \<in> set (in_children n)" using that(2) by (auto simp: internal_childAt_def split: if_splits)
      with that assms have "rank (pr_pageId c) < rank p" unfolding ranked_def by blast
      then show ?thesis by (rule less)
    qed
    then show ?case
      by (subst descendLoop.simps) (auto simp: Let_def split: option.splits)
  qed
  then show "fst (descendToLeaf k e t) \<noteq> Diverges" "snd (descendToLeaf k e t) = t"
    by (auto simp: descendToLeaf_def) (metis option.simps(5))
qed

lemma bindT_returns:
  assumes "fst (m t) \<noteq> Diverges" "\<And>x. returns (f x)"
  shows "fst (bindT m f t) \<noteq> Diverges"
proof -
  obtain r t' where m: "m t = (r, t')" by (cases "m t")
  with assms show ?thesis by (cases r) (auto simp: returns_def)
qed

section \<open>A tree of one leaf\<close>

text \<open>
  A tree without duplicates and without a sink whose root is its only node, or that is empty,
  and the map it stands for.
\<close>

definition single :: "'w btree \<Rightarrow> bool" where
  "single t \<longleftrightarrow> bt_walSink t = None \<and> sm_wf (bt_space t) \<and> keyWireSize (bt_config t) \<le> 3940 \<and>
     \<not> allowDuplicates (bt_config t) \<and>
     (if tree_empty t then bt_leaves t = Map.empty \<and> bt_size t = 0
      else (\<exists>n. bt_leaves t = [bt_rootId t \<mapsto> n] \<and> leaf_wf n \<and>
              nd_config n = (bt_config t)\<lparr>level := 0\<rparr> \<and> unat (bt_size t) = length (lf_keys n)))"

definition tree_map :: "'w btree \<Rightarrow> key \<rightharpoonup> page_ref" where
  "tree_map t = (case bt_leaves t (bt_rootId t) of None \<Rightarrow> Map.empty | Some n \<Rightarrow> leaf_map n)"

lemma singleE:
  assumes "single t" "\<not> tree_empty t"
  obtains n where "bt_leaves t = [bt_rootId t \<mapsto> n]" "leaf_wf n" "nd_config n = (bt_config t)\<lparr>level := 0\<rparr>"
    "unat (bt_size t) = length (lf_keys n)" "tree_map t = leaf_map n"
proof -
  obtain n where n: "bt_leaves t = [bt_rootId t \<mapsto> n]" "leaf_wf n" "nd_config n = (bt_config t)\<lparr>level := 0\<rparr>"
    "unat (bt_size t) = length (lf_keys n)"
    using assms by (auto simp: single_def)
  then show thesis using that by (simp add: tree_map_def)
qed

lemma single_empty: "single t \<Longrightarrow> tree_empty t \<Longrightarrow> tree_map t = Map.empty"
  by (simp add: single_def tree_map_def)

lemma key_typed_level [simp]: "key_typed (c\<lparr>level := l\<rparr>) k = key_typed c k"
  by (simp add: key_typed_def split: key.split)

lemma keyWireSize_level [simp]: "keyWireSize (c\<lparr>level := l\<rparr>) = keyWireSize c"
  by (simp add: keyWireSize_def)

lemma computeCapacity_level [simp]: "computeCapacity (c\<lparr>level := l\<rparr>) t = computeCapacity c t"
  by (simp add: computeCapacity_def entrySize_def)

lemma descend_leaf:
  assumes "bt_leaves t p = Some n" "leaf_wf n"
  shows "descendLoop t k False p path = Some (Done (p, lowerBound (lf_keys n) k, path))"
    "descendLoop t k True p path = Some (if k \<in> set (lf_keys n) then Done (p, findKey (lf_keys n) k, path)
       else Error (invalidArgument ''BTree: key not found''))"
proof -
  have s: "sorted (lf_keys n)" and c: "unat (node_keyCount n) = length (lf_keys n)"
    using assms(2) by (simp_all add: leaf_wf_def leaf_ordered_def)
  show "descendLoop t k False p path = Some (Done (p, lowerBound (lf_keys n) k, path))"
    by (subst descendLoop.simps) (simp add: assms(1))
  show "descendLoop t k True p path = Some (if k \<in> set (lf_keys n) then Done (p, findKey (lf_keys n) k, path)
       else Error (invalidArgument ''BTree: key not found''))"
    using findKey_iff [OF s, of k] c
    by (subst descendLoop.simps) (auto simp: assms(1) Let_def leaf_keyAt_def)
qed

lemma single_find:
  assumes "single t"
  shows "tree_find k t =
    ((case tree_map t k of Some v \<Rightarrow> Done v
      | None \<Rightarrow> Error (invalidArgument (if tree_empty t then ''BTree: tree is empty'' else ''BTree: key not found''))), t)"
proof (cases "tree_empty t")
  case True
  then show ?thesis using single_empty [OF assms] by (simp add: tree_find_def descendToLeaf_def)
next
  case False
  obtain n where n: "bt_leaves t = [bt_rootId t \<mapsto> n]" "leaf_wf n" "tree_map t = leaf_map n"
    and cfg: "nd_config n = (bt_config t)\<lparr>level := 0\<rparr>"
    by (rule singleE [OF assms False])
  have nd: "\<not> allowDuplicates (nd_config n)" using cfg assms by (simp add: single_def)
  have s: "sorted (lf_keys n)" "distinct (lf_keys n)" and len: "length (lf_keys n) = length (lf_refs n)"
    using n(2) nd by (simp_all add: leaf_wf_def leaf_ordered_def)
  have d: "descendToLeaf k True t = (if k \<in> set (lf_keys n) then Done (bt_rootId t, findKey (lf_keys n) k, [])
       else Error (invalidArgument ''BTree: key not found''), t)"
    using False n descend_leaf(2) [of t "bt_rootId t" n k "[]"] by (simp add: descendToLeaf_def)
  show ?thesis
  proof (cases "k \<in> set (lf_keys n)")
    case True
    note f = findKey_iff [OF s(1), of k]
    have i: "findKey (lf_keys n) k < length (lf_keys n)" "lf_keys n ! findKey (lf_keys n) k = k" using f True by auto
    have "leaf_map n k = Some (lf_refs n ! findKey (lf_keys n) k)"
      using map_of_zip_nth [OF len s(2), of "findKey (lf_keys n) k"] i len by (simp add: leaf_map_def)
    with d True n i len False show ?thesis
      by (simp add: tree_find_def leaf_referenceAt_def)
  next
    case no: False
    with d n False leaf_map_None [OF n(2), of k] show ?thesis by (simp add: tree_find_def)
  qed
qed

lemma single_insert:
  assumes "single t" "\<not> tree_empty t" "key_typed (bt_config t) k"
    "bt_leaves t (bt_rootId t) = Some n" "node_keyCount n < node_capacity n"
  shows "tree_insert k v t =
    (if \<not> PageReference_isValid v then (Error (invalidArgument ''BTree: invalid page reference''), t)
     else if tree_map t k \<noteq> None then (Error (invalidArgument ''BTree: duplicate key''), t)
     else (Done (), t\<lparr>bt_leaves := [bt_rootId t \<mapsto> snd (leaf_insert k v n)], bt_size := bt_size t + 1\<rparr>))"
proof (cases "PageReference_isValid v")
  case valid: True
  obtain m where m: "bt_leaves t = [bt_rootId t \<mapsto> m]" "leaf_wf m"
    "nd_config m = (bt_config t)\<lparr>level := 0\<rparr>" "tree_map t = leaf_map m"
    by (rule singleE [OF assms(1,2)])
  then have "m = n" using assms(4) by simp
  note n = m [unfolded this]
  have c: "\<not> allowDuplicates (bt_config t)" "bt_walSink t = None" using assms(1) by (auto simp: single_def)
  have s: "sorted (lf_keys n)" and kc: "unat (node_keyCount n) = length (lf_keys n)"
    using n(2) by (simp_all add: leaf_wf_def leaf_ordered_def)
  have dup: "lowerBound (lf_keys n) k < length (lf_keys n) \<and> lf_keys n ! lowerBound (lf_keys n) k = k \<longleftrightarrow> k \<in> set (lf_keys n)"
    using findKey_iff [OF s, of k] nth_mem_eq by metis
  have d: "descendToLeaf k False t = (Done (bt_rootId t, lowerBound (lf_keys n) k, []), t)"
    using assms(2) n(1,2) descend_leaf(1) [of t "bt_rootId t" n k "[]"] by (simp add: descendToLeaf_def)
  have df: "descendForInsert k t = (if k \<in> set (lf_keys n) then Error (invalidArgument ''BTree: duplicate key'')
      else Done (bt_rootId t, lowerBound (lf_keys n) k, []), t)"
    using d n(1) c(1) kc dup by (auto simp: descendForInsert_def leaf_keyAt_def)
  show ?thesis
  proof (cases "k \<in> set (lf_keys n)")
    case True
    then show ?thesis
      using valid df assms(2) n(4) leaf_map_None [OF n(2), of k] by (simp add: tree_insert_def)
  next
    case False
    have "length (lf_keys n) < unat (node_capacity n)" using assms(5) kc by (simp add: word_less_nat_alt)
    then obtain n' where ins: "leaf_insert k v n = (Inr (), n')"
      using leaf_insert_cases [OF n(2), of k v] n(3) assms(3) valid False by simp
    show ?thesis
      using valid df assms(2,5) n False leaf_map_None [OF n(2), of k] ins c(2)
      by (simp add: tree_insert_def on_node_simps(1) incrementSize_def walOnInsert_def wal_none)
  qed
qed (simp add: tree_insert_def)

lemma single_with:
  assumes "bt_walSink t = None" "sm_wf (bt_space t)" "keyWireSize (bt_config t) \<le> 3940"
    "\<not> allowDuplicates (bt_config t)" "bt_rootId t \<noteq> kInvalidPageId" "bt_leaves t = [bt_rootId t \<mapsto> n]" "leaf_wf n"
    "nd_config n = (bt_config t)\<lparr>level := 0\<rparr>" "unat (bt_size t) = length (lf_keys n)"
  shows "single t \<and> tree_map t = leaf_map n"
  using assms by (auto simp: single_def tree_empty_def tree_map_def)

lemma alloc_keeps: "sm_wf sp \<Longrightarrow> allocatePage sp = (p, sp') \<Longrightarrow> sm_wf sp'"
  using spacepages.alloc_fresh spacepages.alloc_none by (cases "p = kInvalidPageId") blast+

lemma free_keeps: "sm_wf sp \<Longrightarrow> sm_wf (snd (freePage p sp))"
  using spacepages.release_exact [of sp p "fst (freePage p sp)" "snd (freePage p sp)"] by simp

definition has_room :: "'w btree \<Rightarrow> bool" where
  "has_room t =
     (tree_empty t \<or> (case bt_leaves t (bt_rootId t) of None \<Rightarrow> False | Some n \<Rightarrow> node_keyCount n < node_capacity n))"

lemma insert_step_empty:
  assumes "single t" "tree_empty t" "key_typed (bt_config t) k" "tree_insert k v t = (r, t')"
  shows "single t' \<and> bt_config t' = bt_config t \<and>
    (r = Done () \<and> tree_map t k = None \<and> tree_map t' = (tree_map t)(k \<mapsto> v) \<or> (\<exists>st. r = Error st) \<and> tree_map t' = tree_map t)"
proof (cases "PageReference_isValid v")
  case True
  obtain p sp where al: "allocatePage (bt_space t) = (p, sp)" by (cases "allocatePage (bt_space t)")
  have t: "bt_leaves t = Map.empty" "bt_size t = 0" "bt_walSink t = None" "keyWireSize (bt_config t) \<le> 3940"
    "\<not> allowDuplicates (bt_config t)" "sm_wf (bt_space t)" "tree_map t = Map.empty"
    using assms(1,2) by (simp_all add: single_def tree_map_def)
  have sp: "sm_wf sp" using alloc_keeps [OF t(6) al] .
  show ?thesis
  proof (cases "p = kInvalidPageId")
    case inv: True
    then have "r = Error (outOfMemory ''BTree: failed to allocate leaf page'') \<and> t' = t\<lparr>bt_space := sp\<rparr>"
      using assms(2,4) True al by (simp add: tree_insert_def allocateLeaf_def)
    then show ?thesis using assms(1,2) t sp by (simp add: single_def tree_empty_def tree_map_def)
  next
    case False
    define cfg where "cfg = (bt_config t)\<lparr>level := 0\<rparr>"
    define lf where "lf = leaf_create p cfg"
    have w: "keyWireSize cfg \<le> 3940" using t(4) by (simp add: cfg_def)
    note c = leaf_create_new [OF w, of p]
    have typed: "key_typed (nd_config lf) k" using c(4) assms(3) by (simp add: lf_def cfg_def)
    have "0 < unat (node_capacity lf)" using capacity_iff(1) [of 1 cfg] w by (simp add: lf_def c)
    then obtain n' where ins: "leaf_insert k v lf = (Inr (), n')"
      using leaf_insert_cases [OF c(1), of k v] typed True c(2) by (simp add: lf_def)
    have inv: "leaf_wf lf \<and> nd_config lf = cfg \<and> \<not> allowDuplicates cfg" and k: "key_typed cfg k"
      using c t(5) assms(3) by (simp_all add: lf_def cfg_def)
    note m = leafmap.ins_ok [OF inv k ins]
    have "leaf_map lf = Map.empty" using c(2) by (simp add: leaf_map_def lf_def)
    with m have m': "leaf_map n' = [k \<mapsto> v]" "leaf_wf n'" "nd_config n' = cfg" by auto
    have "dom (leaf_map n') = set (lf_keys n')" "distinct (lf_keys n')"
      using m'(2,3) inv by (simp_all add: leaf_map_def leaf_wf_def leaf_ordered_def)
    then have "set (lf_keys n') = {k}" "card (set (lf_keys n')) = length (lf_keys n')"
      using m'(1) distinct_card by auto
    then have len: "length (lf_keys n') = 1" by simp
    have e: "r = Done ()" "bt_walSink t' = None" "bt_space t' = sp" "bt_config t' = bt_config t" "bt_rootId t' = p"
      "bt_leaves t' = [p \<mapsto> n']" "bt_size t' = 1"
      using assms(2,4) True al False t(1,2,3) ins
      by (auto simp: tree_insert_def allocateLeaf_def Let_def walOnPageAllocate_def walOnInsert_def wal_none
          on_node_simps(1) lf_def cfg_def setRoot_def setHeight_def incrementSize_def)
    have "single t' \<and> tree_map t' = leaf_map n'"
      using e sp t(4,5) False m' len by (intro single_with) (simp_all add: cfg_def)
    with e m' t(7) show ?thesis by simp
  qed
next
  case False
  then show ?thesis using assms by (auto simp: tree_insert_def)
qed

lemma insert_step:
  assumes "single t" "key_typed (bt_config t) k" "has_room t" "tree_insert k v t = (r, t')"
  shows "single t' \<and> bt_config t' = bt_config t \<and>
    (r = Done () \<and> tree_map t k = None \<and> tree_map t' = (tree_map t)(k \<mapsto> v) \<or> (\<exists>st. r = Error st) \<and> tree_map t' = tree_map t)"
proof (cases "tree_empty t")
  case True
  with insert_step_empty [OF assms(1) _ assms(2,4)] show ?thesis by simp
next
  case False
  obtain n where n: "bt_leaves t = [bt_rootId t \<mapsto> n]" "leaf_wf n" "nd_config n = (bt_config t)\<lparr>level := 0\<rparr>"
    "unat (bt_size t) = length (lf_keys n)" "tree_map t = leaf_map n"
    by (rule singleE [OF assms(1) False])
  have room: "node_keyCount n < node_capacity n" using assms(3) False n(1) by (simp add: has_room_def)
  have l: "bt_leaves t (bt_rootId t) = Some n" using n(1) by simp
  note ins = single_insert [OF assms(1) False assms(2) l room, of v]
  show ?thesis
  proof (cases "PageReference_isValid v \<and> tree_map t k = None")
    case False
    then have "(\<exists>st. r = Error st) \<and> t' = t" using ins assms(4) by (cases "PageReference_isValid v") simp_all
    then show ?thesis using assms(1) by auto
  next
    case True
    let ?cfg = "(bt_config t)\<lparr>level := 0\<rparr>"
    have inv: "leaf_wf n \<and> nd_config n = ?cfg \<and> \<not> allowDuplicates ?cfg" and k: "key_typed ?cfg k"
      using n assms(1,2) by (simp_all add: single_def)
    have kc: "unat (node_keyCount n) = length (lf_keys n)" "length (lf_keys n) < unat (node_capacity n)"
      using n(2) room by (simp_all add: leaf_wf_def word_less_nat_alt)
    have new: "k \<notin> set (lf_keys n)" using True n(5) leaf_map_None [OF n(2)] by simp
    let ?n' = "leaf_with (insert_at (lowerBound (lf_keys n) k) k (lf_keys n))
             (insert_at (lowerBound (lf_keys n) k) v (lf_refs n)) n"
    have li: "leaf_insert k v n = (Inr (), ?n')"
      using leaf_insert_cases [OF n(2), of k v] k n(3) True kc(2) new by simp
    note m = leafmap.ins_ok [OF inv k li]
    have t': "r = Done ()" "t' = t\<lparr>bt_leaves := [bt_rootId t \<mapsto> ?n'], bt_size := bt_size t + 1\<rparr>"
      using ins True assms(4) li by auto
    have "lowerBound (lf_keys n) k \<le> length (lf_keys n)"
      using lowerBound_spec(1) [of "lf_keys n"] n(2) by (simp add: leaf_wf_def leaf_ordered_def)
    moreover have "unat (node_capacity n) \<le> 4294967295" by simp
    then have "Suc (unat (bt_size t)) < 18446744073709551616" using n(4) kc(2) by linarith
    then have "unat (bt_size t + 1) = Suc (unat (bt_size t))" by (simp add: unat_word_ariths)
    ultimately have sz: "unat (bt_size t') = length (lf_keys ?n')" using t'(2) n(4) by simp
    have "single t' \<and> tree_map t' = leaf_map ?n'"
      using assms(1) False t'(2) m sz by (intro single_with) (simp_all add: single_def tree_empty_def)
    with m n(5) t' True show ?thesis by simp
  qed
qed

lemma releaseNode_single:
  assumes "bt_walSink t = None" "bt_leaves t = [p \<mapsto> n]"
  shows "releaseNode p t = (Done (), t\<lparr>bt_leaves := Map.empty, bt_space := snd (freePage p (bt_space t))\<rparr>)"
  using assms by (simp add: releaseNode_def walOnPageDeallocate_def wal_none isLeaf_def Let_def)

lemma erase_step:
  assumes "single t" "tree_erase k t = (r, t')"
  shows "single t' \<and> bt_config t' = bt_config t \<and>
    (r = Done () \<and> tree_map t k \<noteq> None \<and> tree_map t' = (tree_map t)(k := None) \<or>
     (\<exists>st. r = Error st) \<and> tree_map t k = None \<and> tree_map t' = tree_map t)"
proof (cases "tree_empty t")
  case True
  then show ?thesis using assms single_empty [OF assms(1)] by (auto simp: tree_erase_def)
next
  case False
  obtain n where n: "bt_leaves t = [bt_rootId t \<mapsto> n]" "leaf_wf n" "nd_config n = (bt_config t)\<lparr>level := 0\<rparr>"
    "unat (bt_size t) = length (lf_keys n)" "tree_map t = leaf_map n"
    by (rule singleE [OF assms(1) False])
  have l: "bt_leaves t (bt_rootId t) = Some n" using n(1) by simp
  have d: "descendToLeaf k True t = (if k \<in> set (lf_keys n) then Done (bt_rootId t, findKey (lf_keys n) k, [])
       else Error (invalidArgument ''BTree: key not found''), t)"
    using False descend_leaf(2) [OF l n(2), of k "[]"] by (simp add: descendToLeaf_def)
  show ?thesis
  proof (cases "k \<in> set (lf_keys n)")
    case no: False
    then show ?thesis
      using d assms False n(5) leaf_map_None [OF n(2), of k] by (auto simp: tree_erase_def)
  next
    case True
    let ?i = "findKey (lf_keys n) k"
    let ?n' = "leaf_with (erase_at ?i (lf_keys n)) (erase_at ?i (lf_refs n)) n"
    let ?cfg = "(bt_config t)\<lparr>level := 0\<rparr>"
    let ?t1 = "t\<lparr>bt_leaves := [bt_rootId t \<mapsto> ?n'], bt_size := bt_size t - 1\<rparr>"
    have s: "sorted (lf_keys n)" using n(2) by (simp add: leaf_wf_def leaf_ordered_def)
    have i: "?i < length (lf_keys n)" using findKey_iff(1) [OF s] True by simp
    have er: "leaf_eraseAt ?i n = (Inr (), ?n')" using leaf_eraseAt_cases [OF n(2), of ?i] i by simp
    have inv: "leaf_wf n \<and> nd_config n = ?cfg \<and> \<not> allowDuplicates ?cfg" using n assms(1) by (simp add: single_def)
    have le: "leaf_erase k n = (Inr (), ?n')" using leaf_erase_cases [OF n(2), of k] True by simp
    have k: "key_typed ?cfg k" using n(2,3) True by (auto simp: leaf_wf_def)
    note m = leafmap.del_ok [OF inv k le]
    have wal: "bt_walSink t = None" "sm_wf (bt_space t)" using assms(1) by (simp_all add: single_def)
    have kc: "unat (node_keyCount ?n') = length (lf_keys ?n')" using m by (simp add: leaf_wf_def)
    have pos: "1 \<le> unat (bt_size t)" using n(4) i by simp
    then have "(1 :: u64) \<le> bt_size t" by (simp add: word_le_nat_alt)
    then have sz: "unat (bt_size t - 1) = length (lf_keys ?n')" using n(4) i by (simp add: unat_sub)
    have run: "tree_erase k t = (if node_keyCount ?n' = 0
        then thenT (releaseNode (bt_rootId t)) (thenT (setRoot kInvalidPageId) (setHeight 0)) ?t1 else (Done (), ?t1))"
      using False d True l n(1) er wal(1)
      by (simp add: tree_erase_def on_node_simps(1) walOnErase_def wal_none)
    show ?thesis
    proof (cases "node_keyCount ?n' = 0")
      case empty: True
      then have "lf_keys ?n' = []" using kc by simp
      then have "leaf_map ?n' = Map.empty" "bt_size ?t1 = 0" using sz by (simp_all add: leaf_map_def word_unat_eq_iff)
      moreover have "r = Done ()" "t' = ?t1\<lparr>bt_leaves := Map.empty, bt_space := snd (freePage (bt_rootId t) (bt_space t)),
          bt_rootId := kInvalidPageId, bt_height := 0\<rparr>"
        using assms(2) run empty wal(1) by (auto simp: releaseNode_single setRoot_def setHeight_def)
      ultimately show ?thesis
        using m n(5) assms(1) free_keeps [OF wal(2)] by (simp add: single_def tree_empty_def tree_map_def)
    next
      case False
      then have t': "r = Done ()" "t' = ?t1" using assms(2) run by auto
      have "single t' \<and> tree_map t' = leaf_map ?n'"
        using assms(1) \<open>\<not> tree_empty t\<close> t'(2) m sz by (intro single_with) (simp_all add: single_def tree_empty_def)
      with m n(5) t' show ?thesis by simp
    qed
  qed
qed

text \<open>The outcomes of the tree as answers of a store, and insertion while there is room.\<close>

fun answer :: "unit outcome \<Rightarrow> status + unit" where
  "answer (Done _) = Inr ()"
| "answer (Error st) = Inl st"
| "answer Thrown = Inl (unknown ''exception'')"
| "answer Diverges = Inl (unknown ''no return'')"

definition tree_put :: "key \<Rightarrow> page_ref \<Rightarrow> ('w btree, unit) op" where
  "tree_put k v t =
     (if has_room t then (case tree_insert k v t of (r, t') \<Rightarrow> (answer r, t'))
      else (Inl (invalidArgument ''leaf is full''), t))"

definition tree_remove :: "key \<Rightarrow> ('w btree, unit) op" where
  "tree_remove k t = (case tree_erase k t of (r, t') \<Rightarrow> (answer r, t'))"

interpretation treemap: map_store tree_put tree_remove tree_map
  "\<lambda>t. single t \<and> bt_config t = config" "key_typed config" for config
proof unfold_locales
  fix t t' :: "'w btree" and k v u
  assume t: "single t \<and> bt_config t = config" and k: "key_typed config k" and p: "tree_put k v t = (Inr u, t')"
  obtain r t1 where i: "tree_insert k v t = (r, t1)" by (cases "tree_insert k v t")
  with p have "has_room t" "t1 = t'" "answer r = Inr u" by (auto simp: tree_put_def split: if_splits)
  with insert_step [of t k v r t'] t k i show "(single t' \<and> bt_config t' = config) \<and> tree_map t k = None \<and>
      tree_map t' = (tree_map t)(k \<mapsto> v)" by auto
next
  fix t t' :: "'w btree" and k v st
  assume t: "single t \<and> bt_config t = config" and k: "key_typed config k" and p: "tree_put k v t = (Inl st, t')"
  show "(single t' \<and> bt_config t' = config) \<and> tree_map t' = tree_map t"
  proof (cases "has_room t")
    case True
    obtain r t1 where i: "tree_insert k v t = (r, t1)" by (cases "tree_insert k v t")
    with p True have "t1 = t'" "answer r = Inl st" by (auto simp: tree_put_def)
    with insert_step [of t k v r t'] t k i True show ?thesis by auto
  next
    case False
    then show ?thesis using p t by (simp add: tree_put_def)
  qed
next
  fix t t' :: "'w btree" and k u
  assume t: "single t \<and> bt_config t = config" and k: "key_typed config k" and p: "tree_remove k t = (Inr u, t')"
  obtain r t1 where i: "tree_erase k t = (r, t1)" by (cases "tree_erase k t")
  with p have "t1 = t'" "answer r = Inr u" by (auto simp: tree_remove_def)
  with erase_step [of t k r t'] t i show "(single t' \<and> bt_config t' = config) \<and> tree_map t k \<noteq> None \<and>
      tree_map t' = (tree_map t)(k := None)" by auto
next
  fix t t' :: "'w btree" and k st
  assume t: "single t \<and> bt_config t = config" and k: "key_typed config k" and p: "tree_remove k t = (Inl st, t')"
  obtain r t1 where i: "tree_erase k t = (r, t1)" by (cases "tree_erase k t")
  with p have "t1 = t'" "answer r = Inl st" by (auto simp: tree_remove_def)
  with erase_step [of t k r t'] t i show "(single t' \<and> bt_config t' = config) \<and> tree_map t k = None \<and>
      tree_map t' = tree_map t" by auto
qed

end
