(* ===== verification/SearchTree.thy ===== *)
theory SearchTree
  imports TreeProps
begin

text \<open>
  Search trees of any height: the invariant of the node tables under which the B-tree is a finite
  map, what descent does on them, and how the operations that change one leaf keep it.
\<close>

section \<open>The invariant\<close>

text \<open>
  \<open>search_tree t p ps es\<close>: the subtree at page \<open>p\<close> uses the pages \<open>ps\<close>, none of them twice, and
  holds the entries \<open>es\<close>; a separator is at least every key to its left and below every key to
  its right.
\<close>

inductive search_tree :: "'w btree \<Rightarrow> PageId \<Rightarrow> PageId list \<Rightarrow> (key \<times> page_ref) list \<Rightarrow> bool" for t where
  leaf: "bt_leaves t p = Some n \<Longrightarrow> leaf_wf n \<Longrightarrow> nd_config n = (bt_config t)\<lparr>level := 0\<rparr> \<Longrightarrow>
    search_tree t p [p] (zip (lf_keys n) (lf_refs n))"
| node: "bt_leaves t p = None \<Longrightarrow> bt_internals t p = Some n \<Longrightarrow> sorted (in_keys n) \<Longrightarrow>
    length (in_children n) = Suc (length (in_keys n)) \<Longrightarrow>
    length pss = length (in_children n) \<Longrightarrow> length ess = length (in_children n) \<Longrightarrow>
    (\<And>i. i < length (in_children n) \<Longrightarrow> PageReference_isValid (in_children n ! i) \<and>
       search_tree t (pr_pageId (in_children n ! i)) (pss ! i) (ess ! i)) \<Longrightarrow>
    distinct (p # concat pss) \<Longrightarrow>
    (\<And>i. i < length (in_keys n) \<Longrightarrow> (\<forall>e \<in> set (ess ! i). fst e \<le> in_keys n ! i) \<and>
       (\<forall>e \<in> set (ess ! Suc i). in_keys n ! i < fst e)) \<Longrightarrow>
    search_tree t p (p # concat pss) (concat ess)"

text \<open>Only the pages of the subtree matter.\<close>

lemma search_tree_frame:
  assumes "search_tree t p ps es" "\<forall>q \<in> set ps. bt_leaves t' q = bt_leaves t q \<and> bt_internals t' q = bt_internals t q"
    "bt_config t' = bt_config t"
  shows "search_tree t' p ps es"
  using assms(1,2)
proof (induction rule: search_tree.induct)
  case (leaf p n)
  then show ?case using assms(3) by (intro search_tree.leaf) simp_all
next
  case (node p n pss ess)
  have sub: "set (pss ! i) \<subseteq> set (p # concat pss)" if "i < length (in_children n)" for i
    using that node.hyps(5) nth_mem [of i pss] by auto
  show ?case
  proof (rule search_tree.node [where n = n])
    fix i assume i: "i < length (in_children n)"
    have "\<forall>q \<in> set (pss ! i). bt_leaves t' q = bt_leaves t q \<and> bt_internals t' q = bt_internals t q"
      using sub [OF i] node.prems by blast
    with node.IH [OF i] show "PageReference_isValid (in_children n ! i) \<and>
       search_tree t' (pr_pageId (in_children n ! i)) (pss ! i) (ess ! i)" by simp
  qed (use node in simp_all)
qed

section \<open>Lists of lists\<close>

lemma map_of_concat_cong:
  assumes "length xs = length ys" "\<And>j. j < length xs \<Longrightarrow> map_of (xs ! j) x = map_of (ys ! j) x"
  shows "map_of (concat xs) x = map_of (concat ys) x"
  using assms
proof (induction xs ys rule: list_induct2)
  case (Cons a xs b ys)
  then have "map_of a x = map_of b x" "map_of (concat xs) x = map_of (concat ys) x" by fastforce+
  then show ?case by (simp add: map_add_def split: option.split)
qed simp

lemma map_of_concat_only:
  assumes "i < length xs" "\<And>j. j < length xs \<Longrightarrow> j \<noteq> i \<Longrightarrow> map_of (xs ! j) x = None"
  shows "map_of (concat xs) x = map_of (xs ! i) x"
  using assms
proof (induction xs arbitrary: i)
  case (Cons a xs)
  have none: "map_of (concat ys) x = None" if "\<And>j. j < length ys \<Longrightarrow> map_of (ys ! j) x = None" for ys :: "('a \<times> 'b) list list"
    using that map_of_concat_cong [of ys "replicate (length ys) []" x] by simp
  show ?case
  proof (cases i)
    case 0
    then have "map_of (concat xs) x = None" using Cons.prems(2) [of "Suc _"] by (intro none) simp
    with 0 show ?thesis by (simp add: map_add_def split: option.split)
  next
    case (Suc j)
    then have "map_of a x = None" using Cons.prems(2) [of 0] by simp
    moreover have "map_of (concat xs) x = map_of (xs ! j) x"
      using Cons.prems Suc by (intro Cons.IH) (simp, metis Suc_less_eq length_Cons nat.inject nth_Cons_Suc)
    ultimately show ?thesis using Suc by (simp add: map_add_def split: option.split)
  qed
qed simp

lemma distinct_concat_disjoint:
  assumes "distinct (concat xss)" "i < length xss" "j < length xss" "i \<noteq> j"
  shows "set (xss ! i) \<inter> set (xss ! j) = {}"
  using assms
proof (induction xss arbitrary: i j)
  case (Cons xs xss)
  have d: "set xs \<inter> set (xss ! m) = {}" if "m < length xss" for m
    using Cons.prems(1) that nth_mem [OF that] by fastforce
  show ?case using Cons d by (cases i; cases j) (auto simp: Int_commute)
qed simp

section \<open>Descent\<close>

text \<open>The child the search for \<open>k\<close> enters is the only one that can hold \<open>k\<close>.\<close>

lemma only_child:
  assumes "sorted ks" "length ess = Suc (length ks)" "j < length ess" "j \<noteq> lowerBound ks k"
    "\<And>i. i < length ks \<Longrightarrow> (\<forall>e \<in> set (ess ! i). fst e \<le> ks ! i) \<and> (\<forall>e \<in> set (ess ! Suc i). ks ! i < fst e)"
  shows "map_of (ess ! j) k = None"
proof -
  note lb = lowerBound_spec [OF assms(1), of k]
  have "fst e \<noteq> k" if e: "e \<in> set (ess ! j)" for e
  proof (cases "j < lowerBound ks k")
    case True
    then have "ks ! j < k" "j < length ks" using lb by auto
    with assms(5) [of j] e show ?thesis by auto
  next
    case False
    then obtain m where m: "j = Suc m" "lowerBound ks k \<le> m" using assms(4) by (cases j) auto
    then have "m < length ks" using assms(2,3) by simp
    then have "k \<le> ks ! m" "ks ! m < fst e" using lb(3) m assms(5) [of m] e by auto
    then show ?thesis by auto
  qed
  then show ?thesis by (auto simp: map_of_eq_None_iff)
qed

text \<open>
  A search ends in one leaf, which holds what the tree holds under the key; and a tree in which
  that leaf is replaced by one that differs at the key only is a search tree again.
\<close>

lemma descend_search:
  fixes t :: "'w btree"
  assumes "search_tree t p ps es"
  shows "\<exists>lf n. lf \<in> set ps \<and> bt_leaves t lf = Some n \<and> leaf_wf n \<and> nd_config n = (bt_config t)\<lparr>level := 0\<rparr> \<and>
    map_of es k = leaf_map n k \<and> (\<forall>path. \<exists>path'. \<forall>e. descendLoop t k e p path = descendLoop t k e lf path') \<and>
    (\<forall>(t' :: 'w btree) n'. bt_leaves t' = (bt_leaves t)(lf \<mapsto> n') \<and> bt_internals t' = bt_internals t \<and> bt_config t' = bt_config t \<and>
       leaf_wf n' \<and> nd_config n' = nd_config n \<and> (\<forall>x. x \<noteq> k \<longrightarrow> leaf_map n' x = leaf_map n x) \<longrightarrow>
       (\<exists>es'. search_tree t' p ps es' \<and> map_of es' = (map_of es)(k := leaf_map n' k)))"
  using assms
proof (induction rule: search_tree.induct)
  case (leaf p n)
  have "search_tree t' p [p] (zip (lf_keys n') (lf_refs n')) \<and>
      map_of (zip (lf_keys n') (lf_refs n')) = (map_of (zip (lf_keys n) (lf_refs n)))(k := leaf_map n' k)"
    if "bt_leaves t' = (bt_leaves t)(p \<mapsto> n')" "bt_config t' = bt_config t" "leaf_wf n'" "nd_config n' = nd_config n"
      "\<forall>x. x \<noteq> k \<longrightarrow> leaf_map n' x = leaf_map n x" for t' :: "'w btree" and n'
    using that leaf.hyps(3) by (auto simp: leaf_map_def fun_eq_iff intro!: search_tree.leaf)
  moreover have "map_of (zip (lf_keys n) (lf_refs n)) k = leaf_map n k" "p \<in> set [p]" by (simp_all add: leaf_map_def)
  ultimately show ?case using leaf by blast
next
  case (node p n pss ess)
  define i where "i = lowerBound (in_keys n) k"
  have i: "i < length (in_children n)" using lowerBound_spec(1) [OF node.hyps(3)] node.hyps(4) by (simp add: i_def le_imp_less_Suc)
  have others: "map_of (ess ! j) k = None" if "j < length ess" "j \<noteq> i" for j
    using only_child [OF node.hyps(3) _ that(1), of k] that node.hyps by (simp add: i_def)
  let ?c = "pr_pageId (in_children n ! i)"
  obtain lf m where lf: "lf \<in> set (pss ! i)" "bt_leaves t lf = Some m" "leaf_wf m" "nd_config m = (bt_config t)\<lparr>level := 0\<rparr>"
    "map_of (ess ! i) k = leaf_map m k" "\<And>path. \<exists>path'. \<forall>e. descendLoop t k e ?c path = descendLoop t k e lf path'"
    and up: "\<And>(t' :: 'w btree) n'. bt_leaves t' = (bt_leaves t)(lf \<mapsto> n') \<and> bt_internals t' = bt_internals t \<and>
       bt_config t' = bt_config t \<and> leaf_wf n' \<and> nd_config n' = nd_config m \<and>
       (\<forall>x. x \<noteq> k \<longrightarrow> leaf_map n' x = leaf_map m x) \<Longrightarrow>
       \<exists>es'. search_tree t' ?c (pss ! i) es' \<and> map_of es' = (map_of (ess ! i))(k := leaf_map n' k)"
    using node.IH [OF i] by blast
  have val: "map_of (concat ess) k = leaf_map m k"
    using map_of_concat_only [of i ess k] others i node.hyps(6) lf(5) by simp
  have mem: "lf \<in> set (p # concat pss)" using lf(1) i node.hyps(5) nth_mem [of i pss] by auto
  have "internal_childAt i n = Some (in_children n ! i)" using i by (simp add: internal_childAt_def)
  then have step: "descendLoop t k e p path = descendLoop t k e ?c
      (\<lparr>fm_pageId = p, fm_childIndex = of_nat i, fm_pageRef = makeIndexRef p\<rparr> # path)" for e path
    using node.hyps(1,2) node.IH [OF i] by (subst descendLoop.simps) (simp add: i_def [symmetric])
  have upd: "\<exists>es'. search_tree t' p (p # concat pss) es' \<and> map_of es' = (map_of (concat ess))(k := leaf_map n' k)"
    if t': "bt_leaves t' = (bt_leaves t)(lf \<mapsto> n')" "bt_internals t' = bt_internals t" "bt_config t' = bt_config t"
      "leaf_wf n'" "nd_config n' = nd_config m" "\<forall>x. x \<noteq> k \<longrightarrow> leaf_map n' x = leaf_map m x" for t' :: "'w btree" and n'
  proof -
    obtain es' where es': "search_tree t' ?c (pss ! i) es'" "map_of es' = (map_of (ess ! i))(k := leaf_map n' k)"
      using up [of t' n'] t' by blast
    have neq: "lf \<noteq> p" using node.hyps(1) lf(2) by auto
    have il: "i < length pss" "i < length ess" using i node.hyps(5,6) by simp_all
    have old: "search_tree t' (pr_pageId (in_children n ! j)) (pss ! j) (ess ! j)" if "j < length (in_children n)" "j \<noteq> i" for j
    proof (rule search_tree_frame)
      have "distinct (concat pss)" using node.hyps(7) by simp
      then have "lf \<notin> set (pss ! j)"
        using distinct_concat_disjoint [of pss i j] il(1) that lf(1) node.hyps(5) by auto
      then show "\<forall>q \<in> set (pss ! j). bt_leaves t' q = bt_leaves t q \<and> bt_internals t' q = bt_internals t q"
        using t'(1,2) by auto
    qed (use node.IH [OF that(1)] t'(3) in simp_all)
    have dom': "fst e = k \<or> fst e \<in> fst ` set (ess ! i)" if "e \<in> set es'" for e
      using that es'(2) dom_map_of_conv_image_fst [of es'] dom_map_of_conv_image_fst [of "ess ! i"]
      by (metis domIff fun_upd_other image_eqI)
    have "search_tree t' p (p # concat pss) (concat (ess[i := es']))"
    proof (rule search_tree.node [where n = n])
      fix j assume "j < length (in_children n)"
      with old [of j] es'(1) node.IH [of j] il show "PageReference_isValid (in_children n ! j) \<and>
          search_tree t' (pr_pageId (in_children n ! j)) (pss ! j) (ess[i := es'] ! j)"
        by (cases "j = i") simp_all
    next
      fix j assume j: "j < length (in_keys n)"
      note lb = lowerBound_spec [OF node.hyps(3), of k]
      have "\<forall>e \<in> set es'. fst e \<le> in_keys n ! j" if "i = j"
        using dom' node.hyps(8) [OF j] that lb(3) j by (fastforce simp: i_def)
      moreover have "\<forall>e \<in> set es'. in_keys n ! j < fst e" if "i = Suc j"
        using dom' node.hyps(8) [OF j] that lb(2) by (fastforce simp: i_def)
      ultimately show "(\<forall>e \<in> set (ess[i := es'] ! j). fst e \<le> in_keys n ! j) \<and>
          (\<forall>e \<in> set (ess[i := es'] ! Suc j). in_keys n ! j < fst e)"
        using node.hyps(8) [OF j] il(2) by (simp add: nth_list_update)
    qed (use node.hyps t' neq in simp_all)
    moreover have "map_of (concat (ess[i := es'])) x = ((map_of (concat ess))(k := leaf_map n' k)) x" for x
    proof (cases "x = k")
      case True
      then show ?thesis
        using map_of_concat_only [of i "ess[i := es']" k] others il(2) es'(2) by simp
    next
      case False
      then show ?thesis
        using es'(2) il(2) by (simp, intro map_of_concat_cong) (auto simp: nth_list_update)
    qed
    ultimately show ?thesis by blast
  qed
  have "\<forall>path. \<exists>path'. \<forall>e. descendLoop t k e p path = descendLoop t k e lf path'"
    unfolding step using lf(6) by blast
  with lf(2,3,4) mem val upd show ?case by blast
qed

section \<open>Operations on one leaf\<close>

text \<open>The map a tree holds, and the leaf a key belongs to.\<close>

definition tree_holds :: "'w btree \<Rightarrow> (key \<rightharpoonup> page_ref) \<Rightarrow> bool" where
  "tree_holds t m \<longleftrightarrow> bt_walSink t = None \<and> \<not> allowDuplicates (bt_config t) \<and>
     (if tree_empty t then m = Map.empty else \<exists>ps es. search_tree t (bt_rootId t) ps es \<and> m = map_of es)"

definition leaf_for :: "key \<Rightarrow> 'w btree \<Rightarrow> leaf_node option" where
  "leaf_for k t = (case fst (descendToLeaf k False t) of Done (lf, _, _) \<Rightarrow> bt_leaves t lf | _ \<Rightarrow> None)"

text \<open>Another leaf in place of \<open>n\<close> that differs at \<open>k\<close> only gives a tree whose map differs at \<open>k\<close> only.\<close>

definition replaceable :: "'w btree \<Rightarrow> (key \<rightharpoonup> page_ref) \<Rightarrow> key \<Rightarrow> PageId \<Rightarrow> leaf_node \<Rightarrow> bool" where
  "replaceable t m k lf n \<longleftrightarrow>
     (\<forall>(t' :: 'w btree) n'. bt_leaves t' = (bt_leaves t)(lf \<mapsto> n') \<and> bt_internals t' = bt_internals t \<and> bt_config t' = bt_config t \<and>
        bt_rootId t' = bt_rootId t \<and> bt_walSink t' = None \<and> leaf_wf n' \<and> nd_config n' = nd_config n \<and>
        (\<forall>x. x \<noteq> k \<longrightarrow> leaf_map n' x = leaf_map n x) \<longrightarrow> tree_holds t' (m(k := leaf_map n' k)))"

lemma replaceableD:
  fixes t t' :: "'w btree"
  assumes "replaceable t m k lf n" "leaf_wf n'" "nd_config n' = nd_config n" "leaf_map n' = (leaf_map n)(k := x)"
    "bt_leaves t' = (bt_leaves t)(lf \<mapsto> n')" "bt_internals t' = bt_internals t" "bt_config t' = bt_config t"
    "bt_rootId t' = bt_rootId t" "bt_walSink t' = None"
  shows "tree_holds t' (m(k := x))"
proof -
  have "tree_holds t' (m(k := leaf_map n' k))" 
    using assms(1) [unfolded replaceable_def, THEN spec [of _ t'], THEN spec [of _ n']] assms by simp
  then show ?thesis using assms(4) by simp
qed

lemma holds_leaf:
  fixes t :: "'w btree"
  assumes "tree_holds t m" "\<not> tree_empty t"
  obtains lf n path where "bt_leaves t lf = Some n" "leaf_wf n" "nd_config n = (bt_config t)\<lparr>level := 0\<rparr>"
    "\<not> allowDuplicates (nd_config n)" "leaf_for k t = Some n" "m k = leaf_map n k"
    "descendToLeaf k False t = (Done (lf, lowerBound (lf_keys n) k, path), t)"
    "descendToLeaf k True t = (if k \<in> set (lf_keys n) then Done (lf, findKey (lf_keys n) k, path)
       else Error (invalidArgument ''BTree: key not found''), t)"
    "replaceable t m k lf n"
proof -
  obtain ps es where st: "search_tree t (bt_rootId t) ps es" and m: "m = map_of es"
    using assms by (auto simp: tree_holds_def)
  obtain lf n where n: "bt_leaves t lf = Some n" "leaf_wf n" "nd_config n = (bt_config t)\<lparr>level := 0\<rparr>"
    "map_of es k = leaf_map n k" "\<exists>path'. \<forall>e. descendLoop t k e (bt_rootId t) [] = descendLoop t k e lf path'"
    and up: "\<forall>(t' :: 'w btree) n'. bt_leaves t' = (bt_leaves t)(lf \<mapsto> n') \<and> bt_internals t' = bt_internals t \<and> bt_config t' = bt_config t \<and>
       leaf_wf n' \<and> nd_config n' = nd_config n \<and> (\<forall>x. x \<noteq> k \<longrightarrow> leaf_map n' x = leaf_map n x) \<longrightarrow>
       (\<exists>es'. search_tree t' (bt_rootId t) ps es' \<and> map_of es' = (map_of es)(k := leaf_map n' k))"
    using descend_search [OF st, of k] by blast
  obtain path where path: "\<And>e. descendLoop t k e (bt_rootId t) [] = descendLoop t k e lf path" using n(5) by blast
  have d: "descendToLeaf k False t = (Done (lf, lowerBound (lf_keys n) k, path), t)"
    "descendToLeaf k True t = (if k \<in> set (lf_keys n) then Done (lf, findKey (lf_keys n) k, path)
       else Error (invalidArgument ''BTree: key not found''), t)"
    using assms(2) path descend_leaf [OF n(1,2), of k path] by (simp_all add: descendToLeaf_def)
  show thesis
  proof (rule that [OF n(1,2,3) _ _ _ d])
    show "\<not> allowDuplicates (nd_config n)" using assms(1) n(3) by (simp add: tree_holds_def)
    show "leaf_for k t = Some n" using d(1) n(1) by (simp add: leaf_for_def)
    show "m k = leaf_map n k" using m n(4) by simp
    show "replaceable t m k lf n"
      unfolding replaceable_def
    proof (intro allI impI, elim conjE)
      fix t' :: "'w btree" and n'
      assume a: "bt_leaves t' = (bt_leaves t)(lf \<mapsto> n')" "bt_internals t' = bt_internals t" "bt_config t' = bt_config t"
        "bt_rootId t' = bt_rootId t" "bt_walSink t' = None" "leaf_wf n'" "nd_config n' = nd_config n"
        "\<forall>x. x \<noteq> k \<longrightarrow> leaf_map n' x = leaf_map n x"
      then obtain es' where "search_tree t' (bt_rootId t) ps es'" "map_of es' = (map_of es)(k := leaf_map n' k)"
        using up by blast
      then have "search_tree t' (bt_rootId t) ps es' \<and> m(k := leaf_map n' k) = map_of es'" using m by simp
      then show "tree_holds t' (m(k := leaf_map n' k))"
        using a(3,4,5) assms by (auto simp: tree_holds_def tree_empty_def)
    qed
  qed
qed

lemma leaf_map_at:
  assumes "leaf_wf n" "\<not> allowDuplicates (nd_config n)" "k \<in> set (lf_keys n)"
  shows "leaf_map n k = Some (lf_refs n ! findKey (lf_keys n) k)" "findKey (lf_keys n) k < length (lf_refs n)"
proof -
  have s: "sorted (lf_keys n)" "distinct (lf_keys n)" and len: "length (lf_keys n) = length (lf_refs n)"
    using assms(1,2) by (simp_all add: leaf_wf_def leaf_ordered_def)
  note f = findKey_iff [OF s(1), of k]
  have i: "findKey (lf_keys n) k < length (lf_keys n)" "lf_keys n ! findKey (lf_keys n) k = k" using f assms(3) by auto
  show "leaf_map n k = Some (lf_refs n ! findKey (lf_keys n) k)" "findKey (lf_keys n) k < length (lf_refs n)"
    using map_of_zip_nth [OF len s(2), of "findKey (lf_keys n) k"] i len by (simp_all add: leaf_map_def)
qed

lemma find_holds:
  assumes "tree_holds t m"
  shows "tree_find k t =
    ((case m k of Some v \<Rightarrow> Done v
      | None \<Rightarrow> Error (invalidArgument (if tree_empty t then ''BTree: tree is empty'' else ''BTree: key not found''))), t)"
proof (cases "tree_empty t")
  case True
  then show ?thesis using assms by (simp add: tree_find_def descendToLeaf_def tree_holds_def)
next
  case False
  obtain lf n path where n: "bt_leaves t lf = Some n" "leaf_wf n" "\<not> allowDuplicates (nd_config n)" "m k = leaf_map n k"
    and d: "descendToLeaf k True t = (if k \<in> set (lf_keys n) then Done (lf, findKey (lf_keys n) k, path)
       else Error (invalidArgument ''BTree: key not found''), t)"
    by (rule holds_leaf [OF assms False, of k])
  show ?thesis
  proof (cases "k \<in> set (lf_keys n)")
    case True
    with leaf_map_at [OF n(2,3), of k] d n False show ?thesis
      by (simp add: tree_find_def leaf_referenceAt_def)
  next
    case no: False
    with d n False leaf_map_None [OF n(2), of k] show ?thesis by (simp add: tree_find_def)
  qed
qed

lemma insert_holds:
  fixes t :: "'w btree"
  assumes "tree_holds t m" "\<not> tree_empty t" "key_typed (bt_config t) k" "PageReference_isValid v"
    "leaf_for k t = Some n" "node_keyCount n < node_capacity n"
  shows "if m k = None then \<exists>t'. tree_insert k v t = (Done (), t') \<and> tree_holds t' (m(k \<mapsto> v)) \<and> bt_size t' = bt_size t + 1
    else tree_insert k v t = (Error (invalidArgument ''BTree: duplicate key''), t)"
proof -
  obtain lf n1 path where n1: "bt_leaves t lf = Some n1" "leaf_wf n1" "nd_config n1 = (bt_config t)\<lparr>level := 0\<rparr>"
    "\<not> allowDuplicates (nd_config n1)" "leaf_for k t = Some n1" "m k = leaf_map n1 k"
    and d: "descendToLeaf k False t = (Done (lf, lowerBound (lf_keys n1) k, path), t)"
    and up: "replaceable t m k lf n1"
    by (rule holds_leaf [OF assms(1,2), of k])
  have [simp]: "n1 = n" using n1(5) assms(5) by simp
  note n = n1 [unfolded \<open>n1 = n\<close>]
  have c: "\<not> allowDuplicates (bt_config t)" "bt_walSink t = None" using assms(1) by (auto simp: tree_holds_def)
  have s: "sorted (lf_keys n)" and kc: "unat (node_keyCount n) = length (lf_keys n)" "length (lf_keys n) < unat (node_capacity n)"
    using n(2) assms(6) by (simp_all add: leaf_wf_def leaf_ordered_def word_less_nat_alt)
  have dup: "lowerBound (lf_keys n) k < length (lf_keys n) \<and> lf_keys n ! lowerBound (lf_keys n) k = k \<longleftrightarrow> k \<in> set (lf_keys n)"
    using findKey_iff [OF s, of k] nth_mem_eq by metis
  have df: "descendForInsert k t = (if k \<in> set (lf_keys n) then Error (invalidArgument ''BTree: duplicate key'')
      else Done (lf, lowerBound (lf_keys n) k, path), t)"
    using d dup c(1) kc(1) n(1) by (auto simp: descendForInsert_def leaf_keyAt_def)
  show ?thesis
  proof (cases "m k = None")
    case False
    then have "k \<in> set (lf_keys n)" using leaf_map_None [OF n(2), of k] n(6) by simp
    with False df assms(2,4) show ?thesis by (simp add: tree_insert_def)
  next
    case True
    then have new: "k \<notin> set (lf_keys n)" using leaf_map_None [OF n(2), of k] n(6) by simp
    let ?n' = "leaf_with (insert_at (lowerBound (lf_keys n) k) k (lf_keys n))
             (insert_at (lowerBound (lf_keys n) k) v (lf_refs n)) n"
    let ?t' = "t\<lparr>bt_leaves := (bt_leaves t)(lf \<mapsto> ?n'), bt_size := bt_size t + 1\<rparr>"
    have inv: "leaf_wf n \<and> nd_config n = nd_config n \<and> \<not> allowDuplicates (nd_config n)" and k: "key_typed (nd_config n) k"
      using n assms(3) by simp_all
    have li: "leaf_insert k v n = (Inr (), ?n')"
      using leaf_insert_cases [OF n(2), of k v] k assms(4) kc(2) new by simp
    note ins = leafmap.ins_ok [OF inv k li]
    have "tree_insert k v t = (Done (), ?t')"
      using df new assms(2,4,6) n(1) li c(2)
      by (simp add: tree_insert_def on_node_simps(1) incrementSize_def walOnInsert_def wal_none)
    moreover have "tree_holds ?t' (m(k \<mapsto> v))"
      using up ins c(2) by (intro replaceableD [where n = n and n' = ?n']) simp_all
    ultimately show ?thesis using True by simp
  qed
qed

lemma erase_holds:
  fixes t :: "'w btree"
  assumes "tree_holds t m" "\<not> tree_empty t" "leaf_for k t = Some n" "1 < node_keyCount n"
    "\<not> isUnderfull (node_keyCount n - 1) (node_capacity n) False"
  shows "if m k = None then tree_erase k t = (Error (invalidArgument ''BTree: key not found''), t)
    else \<exists>t'. tree_erase k t = (Done (), t') \<and> tree_holds t' (m(k := None)) \<and> bt_size t' = bt_size t - 1"
proof -
  obtain lf n1 path where n1: "bt_leaves t lf = Some n1" "leaf_wf n1" "nd_config n1 = (bt_config t)\<lparr>level := 0\<rparr>"
    "\<not> allowDuplicates (nd_config n1)" "leaf_for k t = Some n1" "m k = leaf_map n1 k"
    and d1: "descendToLeaf k True t = (if k \<in> set (lf_keys n1) then Done (lf, findKey (lf_keys n1) k, path)
       else Error (invalidArgument ''BTree: key not found''), t)"
    and up: "replaceable t m k lf n1"
    by (rule holds_leaf [OF assms(1,2), of k])
  have [simp]: "n1 = n" using n1(5) assms(3) by simp
  note n = n1 [unfolded \<open>n1 = n\<close>] and d = d1 [unfolded \<open>n1 = n\<close>]
  have c: "bt_walSink t = None" using assms(1) by (simp add: tree_holds_def)
  show ?thesis
  proof (cases "k \<in> set (lf_keys n)")
    case False
    with d n(6) leaf_map_None [OF n(2), of k] assms(2) show ?thesis by (simp add: tree_erase_def)
  next
    case True
    let ?i = "findKey (lf_keys n) k"
    let ?n' = "leaf_with (erase_at ?i (lf_keys n)) (erase_at ?i (lf_refs n)) n"
    let ?t' = "t\<lparr>bt_leaves := (bt_leaves t)(lf \<mapsto> ?n'), bt_size := bt_size t - 1\<rparr>"
    have wf: "sorted (lf_keys n)" "unat (node_keyCount n) = length (lf_keys n)" "node_wf n"
      using n(2) by (simp_all add: leaf_wf_def leaf_ordered_def)
    have i: "?i < length (lf_keys n)" using findKey_iff(1) [OF wf(1)] True by simp
    have er: "leaf_eraseAt ?i n = (Inr (), ?n')" using leaf_eraseAt_cases [OF n(2), of ?i] i by simp
    have inv: "leaf_wf n \<and> nd_config n = nd_config n \<and> \<not> allowDuplicates (nd_config n)" using n by simp
    have le: "leaf_erase k n = (Inr (), ?n')" using leaf_erase_cases [OF n(2), of k] True by simp
    have k: "key_typed (nd_config n) k" using n(2) True by (auto simp: leaf_wf_def)
    note del = leafmap.del_ok [OF inv k le]
    have "unat (node_keyCount ?n') = length (lf_keys n) - 1" using del i by (simp add: leaf_wf_def)
    moreover have "unat (node_keyCount n - 1) = length (lf_keys n) - 1"
      using wf(2) assms(4) by (simp add: unat_sub word_less_nat_alt word_le_nat_alt)
    ultimately have kc: "node_keyCount ?n' = node_keyCount n - 1" "node_keyCount n - 1 \<noteq> 0"
      using wf(2) assms(4) by (simp_all add: word_unat_eq_iff word_less_nat_alt)
    have cap: "node_capacity ?n' = node_capacity n" by (simp add: leaf_with_fields [OF wf(3)])
    have "tree_erase k t = (Done (), ?t')"
      using d True assms(2,5) n(1) er c kc cap
      by (simp add: tree_erase_def on_node_simps(1) walOnErase_def wal_none)
    moreover have "tree_holds ?t' (m(k := None))"
      using up del c by (intro replaceableD [where n = n and n' = ?n']) simp_all
    ultimately show ?thesis using n(6) del by simp
  qed
qed

section \<open>Splitting the root leaf\<close>

lemma two_leaves:
  assumes "bt_leaves t r = None" "bt_internals t r = Some m" "in_keys m = [pr]" "in_children m = [makeIndexRef a, makeIndexRef b]"
    "bt_leaves t a = Some l" "bt_leaves t b = Some u" "leaf_wf l" "leaf_wf u"
    "nd_config l = (bt_config t)\<lparr>level := 0\<rparr>" "nd_config u = (bt_config t)\<lparr>level := 0\<rparr>" "distinct [r, a, b]"
    "a \<noteq> kInvalidPageId" "b \<noteq> kInvalidPageId"
    "\<forall>k \<in> set (lf_keys l). k \<le> pr" "\<forall>k \<in> set (lf_keys u). pr < k"
  shows "search_tree t r [r, a, b] (zip (lf_keys l) (lf_refs l) @ zip (lf_keys u) (lf_refs u))"
proof -
  let ?pss = "[[a], [b]]" and ?ess = "[zip (lf_keys l) (lf_refs l), zip (lf_keys u) (lf_refs u)]"
  have "search_tree t r (r # concat ?pss) (concat ?ess)"
  proof (rule search_tree.node [where n = m])
    fix i assume "i < length (in_children m)"
    then have "i = 0 \<or> i = 1" using assms(4) by auto
    moreover have "search_tree t a [a] (zip (lf_keys l) (lf_refs l))" "search_tree t b [b] (zip (lf_keys u) (lf_refs u))"
      using assms by (simp_all add: search_tree.leaf)
    ultimately show "PageReference_isValid (in_children m ! i) \<and> search_tree t (pr_pageId (in_children m ! i)) (?pss ! i) (?ess ! i)"
      using assms(4,12,13) by (auto simp: PageReference_isValid_def makeIndexRef_def PageReference_make_def)
  next
    fix i assume "i < length (in_keys m)"
    then show "(\<forall>e \<in> set (?ess ! i). fst e \<le> in_keys m ! i) \<and> (\<forall>e \<in> set (?ess ! Suc i). in_keys m ! i < fst e)"
      using assms(3,14,15) by (auto dest: set_zip_leftD)
  qed (use assms in simp_all)
  then show ?thesis by simp
qed

lemma sorted_split:
  assumes "sorted ks" "distinct ks" "i < length ks"
  shows "\<forall>x \<in> set (take i ks). x \<le> ks ! i" "\<forall>x \<in> set (drop (Suc i) ks). ks ! i < x"
proof -
  obtain a b where ks: "ks = a @ ks ! i # b" "a = take i ks" "b = drop (Suc i) ks"
    using id_take_nth_drop [OF assms(3)] by simp
  have "sorted (a @ ks ! i # b)" "distinct (a @ ks ! i # b)" using assms ks(1) by simp_all
  then have "\<forall>x \<in> set a. x \<le> ks ! i" "\<forall>x \<in> set b. ks ! i \<le> x \<and> x \<noteq> ks ! i" by (auto simp: sorted_append)
  then show "\<forall>x \<in> set (take i ks). x \<le> ks ! i" "\<forall>x \<in> set (drop (Suc i) ks). ks ! i < x"
    using ks(2,3) by auto
qed

text \<open>The steps of a split of a full root leaf, and the tree it leaves.\<close>

lemma split_run:
  assumes n: "bt_leaves t r = Some n" "leaf_wf n" "nd_config n = (bt_config t)\<lparr>level := 0\<rparr>" "bt_leaves t = [r \<mapsto> n]"
    and t: "bt_walSink t = None" "bt_internals t = Map.empty" "keyWireSize (bt_config t) \<le> 3920"
    and al: "allocatePage (bt_space t) = (p, sp)" "p \<noteq> kInvalidPageId" "allocatePage sp = (q, sp')" "q \<noteq> kInvalidPageId" "p \<noteq> r"
    and ks: "keys = insert_at (lowerBound (lf_keys n) k) k (lf_keys n)" "refs = insert_at (lowerBound (lf_keys n) k) v (lf_refs n)"
      "length keys = length refs" "length keys = Suc (unat (node_capacity n))" "\<forall>k \<in> set keys. key_typed (bt_config t) k" "mid = length keys div 2"
  shows "\<exists>t' l u m. splitAndInsertLeaf r [] k v t = (Done (), t') \<and> bt_leaves t' = [r \<mapsto> l, p \<mapsto> u] \<and>
    bt_internals t' = [q \<mapsto> m] \<and> l = leaf_with (take mid keys) (take mid refs) n \<and>
    u = leaf_with (drop (Suc mid) keys) (drop (Suc mid) refs) (leaf_create p ((bt_config t)\<lparr>level := 0\<rparr>)) \<and>
    in_keys m = [keys ! mid] \<and> in_children m = [makeIndexRef r, makeIndexRef p] \<and>
    bt_rootId t' = q \<and> bt_height t' = bt_height t + 1 \<and> bt_size t' = bt_size t \<and> bt_config t' = bt_config t \<and> bt_walSink t' = None"
proof -
  let ?cfg = "(bt_config t)\<lparr>level := 0\<rparr>" and ?cfg' = "(bt_config t)\<lparr>level := bt_height t\<rparr>"
  let ?l = "leaf_with (take mid keys) (take mid refs) n"
  let ?new = "leaf_create p ?cfg"
  let ?u = "leaf_with (drop (Suc mid) keys) (drop (Suc mid) refs) ?new"
  let ?top = "internal_create q ?cfg'"
  let ?m = "internal_with [keys ! mid] [makeIndexRef r, makeIndexRef p] ?top"
  have kw: "keyWireSize ?cfg \<le> 3940" "keyWireSize ?cfg' \<le> 3920" using t(3) by simp_all
  note u0 = leaf_create_new [OF kw(1), of p] and m0 = internal_create_new [OF kw(2), of q]
  have mid: "mid < length keys" "mid \<le> unat (node_capacity n)" using ks(4,6) by simp_all
  have cap: "node_capacity n = computeCapacity ?cfg NodeType_Leaf" using n(2,3) by (simp add: leaf_wf_def)
  have l: "leaf_assignEntries (take mid keys) (take mid refs) n = (Inr (), ?l)"
    using ks(3,5) mid n by (intro leaf_assign_ok) (auto dest: in_set_takeD)
  have u: "leaf_assignEntries (drop (Suc mid) keys) (drop (Suc mid) refs) ?new = (Inr (), ?u)"
    using ks(3,4,5) u0 cap by (intro leaf_assign_ok) (auto dest: in_set_dropD)
  have "0 < node_capacity ?top" using m0(1) unfolding internal_wf_def by blast
  then have "1 \<le> unat (node_capacity ?top)" by (simp add: word_less_nat_alt)
  then have m: "internal_assignEntries [keys ! mid] [makeIndexRef r, makeIndexRef p] ?top = (Inr (), ?m)"
    using m0(1,4) ks(5) nth_mem [OF mid(1)] by (intro internal_assign_ok) auto
  have "\<exists>t'. splitAndInsertLeaf r [] k v t = (Done (), t') \<and> bt_leaves t' = [r \<mapsto> ?l, p \<mapsto> ?u] \<and> bt_internals t' = [q \<mapsto> ?m] \<and>
      bt_rootId t' = q \<and> bt_height t' = bt_height t + 1 \<and> bt_size t' = bt_size t \<and> bt_config t' = bt_config t \<and> bt_walSink t' = None"
    using n t al l u m
    by (simp add: splitAndInsertLeaf_def Let_def on_node_simps allocateLeaf_def allocateInternal_def insertIntoParent.simps
        walOnPageAllocate_def walOnNodeSplit_def wal_none recordSplit_def setRoot_def setHeight_def
        ks(1,2,6) [symmetric])
  then show ?thesis by fastforce
qed

lemma split_holds:
  assumes "single t" "\<not> tree_empty t" "\<not> has_room t" "key_typed (bt_config t) k" "PageReference_isValid v"
    "tree_map t k = None" "bt_internals t = Map.empty" "keyWireSize (bt_config t) \<le> 3920"
    "bt_rootId t \<in> sm_owned (bt_space t)" "allocatePage (bt_space t) = (p, sp)" "p \<noteq> kInvalidPageId"
    "allocatePage sp = (q, sp')" "q \<noteq> kInvalidPageId"
  shows "\<exists>t' lost. tree_insert k v t = (Done (), t') \<and> bt_size t' = bt_size t + 1 \<and> bt_height t' = bt_height t + 1 \<and>
    ((tree_map t)(k \<mapsto> v)) lost \<noteq> None \<and> tree_holds t' ((tree_map t)(k \<mapsto> v, lost := None)) \<and> \<not> tree_empty t'"
proof -
  let ?r = "bt_rootId t"
  obtain n where n: "bt_leaves t = [?r \<mapsto> n]" "leaf_wf n" "nd_config n = (bt_config t)\<lparr>level := 0\<rparr>" "tree_map t = leaf_map n"
    by (rule singleE [OF assms(1,2)])
  have c: "\<not> allowDuplicates (bt_config t)" "bt_walSink t = None" "sm_wf (bt_space t)" using assms(1) by (auto simp: single_def)
  have fresh: "p \<noteq> ?r" "q \<noteq> ?r" "q \<noteq> p"
    using spacepages.alloc_fresh [OF c(3) assms(10,11)] spacepages.alloc_fresh [of sp q sp'] assms(9,12,13) by auto
  have wf: "leaf_ordered False (lf_keys n)" "length (lf_keys n) = length (lf_refs n)" "unat (node_keyCount n) = length (lf_keys n)"
    "length (lf_keys n) \<le> unat (node_capacity n)" "\<forall>k \<in> set (lf_keys n). key_typed (bt_config t) k" "0 < node_capacity n"
    "node_capacity n = computeCapacity ((bt_config t)\<lparr>level := 0\<rparr>) NodeType_Leaf"
    using n(2) [unfolded leaf_wf_def n(3)] c(1) by auto
  have full: "length (lf_keys n) = unat (node_capacity n)" "\<not> node_keyCount n < node_capacity n"
    using assms(2,3) n(1) wf(3,4) by (auto simp: has_room_def word_less_nat_alt)
  have new: "k \<notin> set (lf_keys n)" using assms(6) n(4) leaf_map_None [OF n(2)] by simp
  have s: "sorted (lf_keys n)" using wf(1) by (simp add: leaf_ordered_def)
  let ?pos = "lowerBound (lf_keys n) k"
  have pos: "?pos \<le> length (lf_keys n)" by (rule lowerBound_spec(1) [OF s])
  define keys where "keys = insert_at ?pos k (lf_keys n)"
  define refs where "refs = insert_at ?pos v (lf_refs n)"
  define mid where "mid = length keys div 2"
  have len: "length keys = length refs" "length keys = Suc (unat (node_capacity n))" "mid < length keys"
    using pos wf(2) full(1) by (simp_all add: keys_def refs_def mid_def)
  have typed: "\<forall>k \<in> set keys. key_typed (bt_config t) k" using wf(5) assms(4) by (auto simp: keys_def set_insert_at)
  have ord: "sorted keys" "distinct keys" using ordered_insert_at [OF wf(1), of k] new by (simp_all add: keys_def leaf_ordered_def)
  have r: "bt_leaves t ?r = Some n" using n(1) by simp
  obtain t1 l u m where t1: "splitAndInsertLeaf ?r [] k v t = (Done (), t1)" "bt_leaves t1 = [?r \<mapsto> l, p \<mapsto> u]"
    "bt_internals t1 = [q \<mapsto> m]" "l = leaf_with (take mid keys) (take mid refs) n"
    "u = leaf_with (drop (Suc mid) keys) (drop (Suc mid) refs) (leaf_create p ((bt_config t)\<lparr>level := 0\<rparr>))"
    "in_keys m = [keys ! mid]" "in_children m = [makeIndexRef ?r, makeIndexRef p]"
    "bt_rootId t1 = q" "bt_height t1 = bt_height t + 1" "bt_size t1 = bt_size t" "bt_config t1 = bt_config t" "bt_walSink t1 = None"
    using split_run [OF r n(2,3,1) c(2) assms(7,8,10,11,12,13) fresh(1) keys_def refs_def len(1,2) typed mid_def] by blast
  let ?t' = "t1\<lparr>bt_size := bt_size t1 + 1\<rparr>"
  have "descendToLeaf k False t = (Done (?r, ?pos, []), t)"
    using assms(2) descend_leaf(1) [OF r n(2), of k "[]"] by (simp add: descendToLeaf_def)
  then have "descendForInsert k t = (Done (?r, ?pos, []), t)"
    using new r c(1) wf(3) nth_mem by (fastforce simp: descendForInsert_def leaf_keyAt_def)
  then have run: "tree_insert k v t = (Done (), ?t')"
    using assms(2,5) r full(2) t1(1,12) by (simp add: tree_insert_def incrementSize_def walOnInsert_def wal_none)
  note new_leaf = leaf_create_new [of "(bt_config t)\<lparr>level := 0\<rparr>" p]
  have o: "leaf_ordered False (take mid keys)" "leaf_ordered False (drop (Suc mid) keys)"
    using ord by (simp_all add: leaf_ordered_def sorted_wrt_take sorted_wrt_drop)
  have lw: "leaf_wf l" unfolding t1(4)
    using n(2,3) c(1) len typed o by (intro leaf_with_wf) (auto simp: mid_def dest: in_set_takeD)
  have uw: "leaf_wf u" unfolding t1(5)
    using new_leaf assms(8) c(1) len typed o wf(7) by (intro leaf_with_wf) (auto dest: in_set_dropD)
  have "search_tree ?t' q [q, ?r, p] (zip (lf_keys l) (lf_refs l) @ zip (lf_keys u) (lf_refs u))"
    using t1 lw uw fresh assms(2,8,11) n(3) new_leaf(4) sorted_split [OF ord len(3)]
    by (intro two_leaves [where m = m and pr = "keys ! mid"]) (auto simp: tree_empty_def)
  moreover have "zip (lf_keys l) (lf_refs l) @ zip (lf_keys u) (lf_refs u) = erase_at mid (zip keys refs)"
    by (simp add: t1(4,5) erase_at_def take_zip drop_zip)
  moreover have "map_of (erase_at mid (zip keys refs)) = (map_of (zip keys refs))(keys ! mid := None)"
    using len ord by (intro map_of_erase_at) simp_all
  moreover have "map_of (zip keys refs) = (tree_map t)(k \<mapsto> v)"
  proof -
    have "k \<notin> fst ` set (take ?pos (zip (lf_keys n) (lf_refs n)))"
      using new by (auto dest!: in_set_takeD set_zip_leftD)
    then show ?thesis
      using zip_insert_at [OF wf(2) pos] map_of_insert_at n(4) by (simp add: keys_def refs_def leaf_map_def)
  qed
  ultimately have "search_tree ?t' q [q, ?r, p] (erase_at mid (zip keys refs)) \<and>
      (tree_map t)(k \<mapsto> v, keys ! mid := None) = map_of (erase_at mid (zip keys refs))"
    by simp
  then have "\<exists>ps es. search_tree ?t' q ps es \<and> (tree_map t)(k \<mapsto> v, keys ! mid := None) = map_of es" by blast
  then have "tree_holds ?t' ((tree_map t)(k \<mapsto> v, keys ! mid := None))" "\<not> tree_empty ?t'"
    using t1(8,11,12) c(1) assms(13) by (simp_all add: tree_holds_def tree_empty_def)
  moreover have "((tree_map t)(k \<mapsto> v)) (keys ! mid) \<noteq> None"
    using nth_mem [OF len(3)] leaf_map_None [OF n(2), of "keys ! mid"] n(4) by (auto simp: keys_def set_insert_at)
  ultimately show ?thesis using run t1(9,10) by (intro exI [of _ ?t'] exI [of _ "keys ! mid"]) simp
qed

section \<open>Merging internal nodes\<close>

lemma merge_mismatch:
  assumes "length cs \<noteq> Suc (length ks)"
  shows "internal_assignEntries ks cs n = (Inl (invalidArgument ''InternalNode: child count mismatch''), n)"
  using assms by (simp add: internal_assignEntries_def)

lemma on_internal_fails:
  assumes "bt_internals t p = Some n" "f n = (Inl st, n)"
  shows "on_internal p f t = (Error st, t)"
proof -
  have "(bt_internals t)(p \<mapsto> n) = bt_internals t" using assms(1) by (rule map_upd_triv)
  then show ?thesis using assms by (simp add: on_internal_def)
qed

lemma merge_internal_fails:
  assumes "bt_internals t p = Some m" "internal_wf m" "i < length (in_keys m)"
    "bt_internals t (pr_pageId (in_children m ! i)) = Some a" "bt_internals t (pr_pageId (in_children m ! Suc i)) = Some b"
    "internal_wf a" "internal_wf b"
  shows "mergeInternalLeft path p (Suc i) t = (Error (invalidArgument ''InternalNode: child count mismatch''), t)"
    "mergeInternalRight path p i t = (Error (invalidArgument ''InternalNode: child count mismatch''), t)"
proof -
  have l: "length (in_children m) = Suc (length (in_keys m))" "length (in_children a) = Suc (length (in_keys a))"
    "length (in_children b) = Suc (length (in_keys b))" using assms(2,6,7) by (simp_all add: internal_wf_def)
  have c: "internal_childAt i m = Some (in_children m ! i)" "internal_childAt (Suc i) m = Some (in_children m ! Suc i)"
    "internal_keyAt i m = Some (in_keys m ! i)"
    using assms(3) l(1) by (simp_all add: internal_childAt_def internal_keyAt_def)
  have f: "internal_assignEntries (in_keys a @ [sep] @ in_keys b) (in_children a @ drop 1 (in_children b)) n =
      (Inl (invalidArgument ''InternalNode: child count mismatch''), n)" for sep n
    using l by (intro merge_mismatch) simp
  have g: "on_internal (pr_pageId (in_children m ! i))
        (internal_assignEntries (in_keys a @ [sep] @ in_keys b) (in_children a @ drop 1 (in_children b))) t =
      (Error (invalidArgument ''InternalNode: child count mismatch''), t)" for sep
    using on_internal_fails assms(4) f by blast
  show "mergeInternalLeft path p (Suc i) t = (Error (invalidArgument ''InternalNode: child count mismatch''), t)"
    "mergeInternalRight path p i t = (Error (invalidArgument ''InternalNode: child count mismatch''), t)"
    using assms(1,4,5) c g [of "in_keys m ! i"]
    by (simp_all add: mergeInternalLeft.simps mergeInternalRight.simps childT_def)
qed

end
