(* ===== verification/TreeSpec.thy ===== *)
theory TreeSpec
  imports SearchTree
begin

text \<open>
  The properties of the B-tree: its operations return, a search tree of any height is a finite
  map, what a split of the root leaf does to the map, and what merging internal nodes does.
\<close>

section \<open>Sample trees\<close>

definition sample_leaf :: "PageId \<Rightarrow> nat \<Rightarrow> nat \<Rightarrow> leaf_node" where
  "sample_leaf p a b =
     leaf_with (map (\<lambda>i. UInt32 (of_nat i)) [a..<b]) (map (\<lambda>i. makeIndexRef (of_nat i + 100)) [a..<b])
       (leaf_create p BTreeNodeConfig)"

lemma sample_config: "keyWireSize BTreeNodeConfig = 5" "\<not> allowDuplicates BTreeNodeConfig"
  "BTreeNodeConfig\<lparr>level := 0\<rparr> = BTreeNodeConfig" "key_typed BTreeNodeConfig (UInt32 x)"
  by (simp_all add: BTreeNodeConfig_def keyWireSize_def key_typed_def key_type_def)

lemma sample_capacity: "unat (computeCapacity BTreeNodeConfig NodeType_Leaf) = 158"
  by (simp add: unat_computeCapacity sample_config)

lemma UInt32_order: "UInt32 x < UInt32 y \<longleftrightarrow> x < y" "UInt32 x \<le> UInt32 y \<longleftrightarrow> x \<le> y"
  by (auto simp: less_key_def less_eq_key_def key_compare_def key_type_def)

lemma sample_ordered:
  assumes "b \<le> 4294967296"
  shows "sorted_wrt (<) (map (\<lambda>i. UInt32 (of_nat i)) [a..<b])"
proof -
  have "sorted_wrt (\<lambda>i j. UInt32 (of_nat i) < UInt32 (of_nat j)) [a..<b]"
    using assms by (intro sorted_wrt_mono_rel [OF _ sorted_wrt_upt]) (auto simp: UInt32_order word_less_nat_alt unat_of_nat)
  then show ?thesis by (simp add: sorted_wrt_map)
qed

lemma sample_leaf_wf:
  assumes "b \<le> a + 158" "b \<le> 4294967296"
  shows "leaf_wf (sample_leaf p a b)" "nd_config (sample_leaf p a b) = BTreeNodeConfig"
    "lf_keys (sample_leaf p a b) = map (\<lambda>i. UInt32 (of_nat i)) [a..<b]"
    "unat (node_keyCount (sample_leaf p a b)) = b - a" "unat (node_capacity (sample_leaf p a b)) = 158"
proof -
  note new = leaf_create_new [of BTreeNodeConfig p]
  show 1: "nd_config (sample_leaf p a b) = BTreeNodeConfig"
    and 2: "lf_keys (sample_leaf p a b) = map (\<lambda>i. UInt32 (of_nat i)) [a..<b]"
    by (simp_all add: sample_leaf_def new sample_config)
  have "leaf_ordered False (map (\<lambda>i. UInt32 (of_nat i)) [a..<b])"
    using sample_ordered [OF assms(2), of a] by (simp add: leaf_ordered_def strict_sorted_iff)
  then show wf: "leaf_wf (sample_leaf p a b)"
    using new assms(1) unfolding sample_leaf_def by (intro leaf_with_wf) (auto simp: sample_config sample_capacity)
  show "unat (node_keyCount (sample_leaf p a b)) = b - a" "unat (node_capacity (sample_leaf p a b)) = 158"
    using wf 1 2 sample_capacity by (simp_all add: leaf_wf_def)
qed

text \<open>A tree of one full leaf, and a tree of two leaves below the separator 158.\<close>

definition full_tree :: "unit btree" where
  "full_tree = (tree_new (snd (allocatePage (SpaceManager_new FirstFitPolicy))) BTreeNodeConfig ())
     \<lparr>bt_rootId := 8, bt_height := 1, bt_size := 158, bt_leaves := [8 \<mapsto> sample_leaf 8 0 158]\<rparr>"

definition two_leaf_tree :: "unit btree" where
  "two_leaf_tree = (tree_new (SpaceManager_new FirstFitPolicy) BTreeNodeConfig ())
     \<lparr>bt_rootId := 10, bt_height := 2, bt_size := 199, bt_leaves := [8 \<mapsto> sample_leaf 8 0 100, 9 \<mapsto> sample_leaf 9 159 258],
      bt_internals := [10 \<mapsto> internal_with [UInt32 158] [makeIndexRef 8, makeIndexRef 9] (internal_create 10 BTreeNodeConfig)]\<rparr>"

lemma two_leaf_tree_search:
  "search_tree two_leaf_tree 10 [10, 8, 9] (map (\<lambda>i. (UInt32 (of_nat i), makeIndexRef (of_nat i + 100))) ([0..<100] @ [159..<258]))"
proof -
  let ?l = "sample_leaf 8 0 100" and ?u = "sample_leaf 9 159 258"
  have "search_tree two_leaf_tree 10 [10, 8, 9] (zip (lf_keys ?l) (lf_refs ?l) @ zip (lf_keys ?u) (lf_refs ?u))"
    by (rule two_leaves [where m = "internal_with [UInt32 158] [makeIndexRef 8, makeIndexRef 9] (internal_create 10 BTreeNodeConfig)"
          and pr = "UInt32 158"])
      (auto simp: two_leaf_tree_def tree_new_def sample_leaf_wf sample_config kInvalidPageId_def word_le_nat_alt
        UInt32_order word_less_nat_alt unat_of_nat)
  then show ?thesis by (simp add: sample_leaf_def zip_map_map zip_same_conv_map comp_def)
qed

lemma two_leaf_tree_holds:
  "tree_holds two_leaf_tree (map_of (map (\<lambda>i. (UInt32 (of_nat i), makeIndexRef (of_nat i + 100))) ([0..<100] @ [159..<258])))"
proof -
  have "bt_rootId two_leaf_tree = 10" "\<not> tree_empty two_leaf_tree" "bt_walSink two_leaf_tree = None"
    "bt_config two_leaf_tree = BTreeNodeConfig"
    by (simp_all add: two_leaf_tree_def tree_new_def tree_empty_def kInvalidPageId_def)
  then show ?thesis
    using two_leaf_tree_search sample_config(2) by (auto simp: tree_holds_def simp del: map_append)
qed

text \<open>The key 120 is absent; it belongs into the first leaf, which has room.\<close>

lemma two_leaf_tree_facts:
  "bt_rootId two_leaf_tree = 10" "bt_config two_leaf_tree = BTreeNodeConfig" "bt_size two_leaf_tree = 199"
  "\<not> tree_empty two_leaf_tree" "leaf_for (UInt32 120) two_leaf_tree = Some (sample_leaf 8 0 100)"
  "node_keyCount (sample_leaf 8 0 100) < node_capacity (sample_leaf 8 0 100)"
  "map_of (map (\<lambda>i. (UInt32 (of_nat i), makeIndexRef (of_nat i + 100))) ([0..<100] @ [159..<258])) (UInt32 120) = None"
proof -
  show t: "bt_rootId two_leaf_tree = 10" "bt_config two_leaf_tree = BTreeNodeConfig" "bt_size two_leaf_tree = 199"
    by (simp_all add: two_leaf_tree_def tree_new_def)
  then show e: "\<not> tree_empty two_leaf_tree" by (simp add: tree_empty_def kInvalidPageId_def)
  have n: "bt_leaves two_leaf_tree 8 = Some (sample_leaf 8 0 100)" by (simp add: two_leaf_tree_def)
  note l = sample_leaf_wf [of 100 0 8]
  have lb: "lowerBound [UInt32 158] (UInt32 120) = 0" by code_simp
  have "descendLoop two_leaf_tree (UInt32 120) False 10 [] =
      descendLoop two_leaf_tree (UInt32 120) False 8 [\<lparr>fm_pageId = 10, fm_childIndex = 0, fm_pageRef = makeIndexRef 10\<rparr>]"
    using lb by (subst descendLoop.simps) (simp add: two_leaf_tree_def tree_new_def internal_childAt_def makeIndexRef_def
        PageReference_make_def PageReference_isValid_def kInvalidPageId_def)
  then show "leaf_for (UInt32 120) two_leaf_tree = Some (sample_leaf 8 0 100)"
    using e t n l descend_leaf(1) [of two_leaf_tree 8 "sample_leaf 8 0 100"] by (simp add: leaf_for_def descendToLeaf_def)
  show "node_keyCount (sample_leaf 8 0 100) < node_capacity (sample_leaf 8 0 100)"
    using l by (simp add: word_less_nat_alt)
  show "map_of (map (\<lambda>i. (UInt32 (of_nat i), makeIndexRef (of_nat i + 100))) ([0..<100] @ [159..<258])) (UInt32 120) = None"
    by (auto simp: map_of_eq_None_iff word_unat_eq_iff unat_of_nat)
qed

lemma makeIndexRef_valid: "p \<noteq> kInvalidPageId \<Longrightarrow> PageReference_isValid (makeIndexRef p)"
  by (simp add: makeIndexRef_def PageReference_make_def PageReference_isValid_def)

lemma full_tree_facts:
  "single full_tree" "\<not> tree_empty full_tree" "\<not> has_room full_tree" "bt_config full_tree = BTreeNodeConfig"
  "bt_internals full_tree = Map.empty" "bt_rootId full_tree = 8" "tree_map full_tree (UInt32 200) = None"
proof -
  note l = sample_leaf_wf [of 158 0 8]
  have sp: "sm_wf (snd (allocatePage (SpaceManager_new FirstFitPolicy)))"
    using alloc_keeps [OF sm_wf_new surjective_pairing] .
  show t: "bt_config full_tree = BTreeNodeConfig" "bt_internals full_tree = Map.empty" "bt_rootId full_tree = 8"
    by (simp_all add: full_tree_def tree_new_def)
  show f: "\<not> tree_empty full_tree" by (simp add: tree_empty_def t kInvalidPageId_def)
  have m: "single full_tree \<and> tree_map full_tree = leaf_map (sample_leaf 8 0 158)"
    using l sp by (intro single_with) (simp_all add: full_tree_def tree_new_def kInvalidPageId_def sample_config)
  then show "single full_tree" ..
  show "\<not> has_room full_tree"
    using l f by (simp add: has_room_def full_tree_def tree_new_def word_less_nat_alt)
  have "UInt32 200 \<notin> set (lf_keys (sample_leaf 8 0 158))"
    using l(3) by (auto simp: word_unat_eq_iff unat_of_nat)
  with leaf_map_None [of "sample_leaf 8 0 158"] l(1) m show "tree_map full_tree (UInt32 200) = None" by simp
qed

section \<open>Properties\<close>

text \<open>
  C6. Lookups, membership tests, insertions and erasures return on every tree in which the
  references of the internal nodes go down (a rank of the pages decreases along them), whatever
  the nodes contain: they do not loop in the descent, nor in the splits, borrows and merges that
  walk back up.
\<close>

theorem tree_operations_return:
  fixes t :: "'w btree"
  assumes "ranked rank t"
  shows "fst (tree_find k t) \<noteq> Diverges \<and> fst (tree_contains k t) \<noteq> Diverges \<and>
    fst (tree_insert k v t) \<noteq> Diverges \<and> fst (tree_erase k t) \<noteq> Diverges"
proof -
  note d = descend_returns(1) [OF assms]
  have f: "fst (tree_find k t) \<noteq> Diverges"
    unfolding tree_find_def by (intro bindT_returns d) (auto intro!: returns_rules)
  moreover have "fst (tree_contains k t) \<noteq> Diverges"
    using f by (cases "tree_find k t") (auto simp: tree_contains_def split: outcome.splits)
  moreover have g: "fst (descendForInsert k t) \<noteq> Diverges"
    unfolding descendForInsert_def by (intro bindT_returns d) (auto intro!: returns_rules)
  have "fst (tree_insert k v t) \<noteq> Diverges"
  proof (cases "tree_empty t")
    case True
    moreover have "returns (bindT (allocateLeaf 0) (\<lambda>lf. thenT (on_leaf lf (leaf_insert k v)) (thenT (setRoot lf)
        (thenT (setHeight 1) (thenT incrementSize (walOnInsert k v))))) :: ('w, unit) tree_op)"
      by (intro returns_rules)
    ultimately show ?thesis by (simp add: tree_insert_def returns_def)
  next
    case False
    have "fst (bindT (descendForInsert k) (\<lambda>(lf, index, path). bindT (leafT lf) (\<lambda>n.
        if node_keyCount n < node_capacity n
        then thenT (on_leaf lf (leaf_insert k v)) (thenT incrementSize (walOnInsert k v))
        else thenT (splitAndInsertLeaf lf path k v) (thenT incrementSize (walOnInsert k v)))) t) \<noteq> Diverges"
      by (intro bindT_returns g) (auto intro!: returns_rules)
    with False show ?thesis by (simp add: tree_insert_def)
  qed
  moreover have "fst (tree_erase k t) \<noteq> Diverges"
  proof (cases "tree_empty t")
    case True
    then show ?thesis by (simp add: tree_erase_def)
  next
    case False
    have "fst (bindT (descendToLeaf k True) (\<lambda>(lf, index, path).
            thenT (on_leaf lf (leaf_eraseAt index))
           (thenT (updateT (\<lambda>t. t\<lparr>bt_size := bt_size t - 1\<rparr>))
           (thenT (walOnErase k)
           (bindT (leafT lf) (\<lambda>n.
              if path = []
              then (if node_keyCount n = 0
                    then thenT (releaseNode lf) (thenT (setRoot kInvalidPageId) (setHeight 0))
                    else doneT ())
              else if \<not> isUnderfull (node_keyCount n) (node_capacity n) False then doneT ()
              else fixLeafUnderflow path lf))))) t) \<noteq> Diverges"
      by (intro bindT_returns d) (auto intro!: returns_rules)
    with False show ?thesis by (simp add: tree_erase_def)
  qed
  ultimately show ?thesis by blast
qed

theorem tree_operations_return_witness:
  "fst (tree_insert (UInt32 120) (makeIndexRef 7) two_leaf_tree) \<noteq> Diverges"
proof -
  have "ranked (\<lambda>p. if p = 10 then 1 else 0) two_leaf_tree"
    by (auto simp: ranked_def two_leaf_tree_def tree_new_def makeIndexRef_def PageReference_make_def split: if_splits)
  from tree_operations_return [OF this, of "UInt32 120" "makeIndexRef 7"] show ?thesis by blast
qed

text \<open>
  C1. A search tree of any height is a finite map: lookups and membership tests answer from the
  map; an insertion into a leaf with room adds the key or reports a duplicate; an erasure from a
  leaf that stays at least half full removes the key or reports that it is absent; the tree is a
  search tree again and its size follows.
\<close>

theorem search_tree_is_map:
  assumes "tree_holds t m" "\<not> tree_empty t"
  shows "tree_find k t = ((case m k of Some v \<Rightarrow> Done v | None \<Rightarrow> Error (invalidArgument ''BTree: key not found'')), t) \<and>
    tree_contains k t = (Done (m k \<noteq> None), t) \<and>
    (\<forall>n v. leaf_for k t = Some n \<and> node_keyCount n < node_capacity n \<and> key_typed (bt_config t) k \<and> PageReference_isValid v \<longrightarrow>
      (if m k = None then \<exists>t'. tree_insert k v t = (Done (), t') \<and> tree_holds t' (m(k \<mapsto> v)) \<and> bt_size t' = bt_size t + 1
       else tree_insert k v t = (Error (invalidArgument ''BTree: duplicate key''), t))) \<and>
    (\<forall>n. leaf_for k t = Some n \<and> 1 < node_keyCount n \<and> \<not> isUnderfull (node_keyCount n - 1) (node_capacity n) False \<longrightarrow>
      (if m k = None then tree_erase k t = (Error (invalidArgument ''BTree: key not found''), t)
       else \<exists>t'. tree_erase k t = (Done (), t') \<and> tree_holds t' (m(k := None)) \<and> bt_size t' = bt_size t - 1))"
proof (intro conjI allI impI)
  show f: "tree_find k t = ((case m k of Some v \<Rightarrow> Done v | None \<Rightarrow> Error (invalidArgument ''BTree: key not found'')), t)"
    using find_holds [OF assms(1), of k] assms(2) by simp
  then show "tree_contains k t = (Done (m k \<noteq> None), t)"
    by (simp add: tree_contains_def split: option.split)
next
  fix n v
  assume "leaf_for k t = Some n \<and> node_keyCount n < node_capacity n \<and> key_typed (bt_config t) k \<and> PageReference_isValid v"
  then show "if m k = None then \<exists>t'. tree_insert k v t = (Done (), t') \<and> tree_holds t' (m(k \<mapsto> v)) \<and> bt_size t' = bt_size t + 1
       else tree_insert k v t = (Error (invalidArgument ''BTree: duplicate key''), t)"
    using insert_holds [OF assms] by blast
next
  fix n
  assume "leaf_for k t = Some n \<and> 1 < node_keyCount n \<and> \<not> isUnderfull (node_keyCount n - 1) (node_capacity n) False"
  then show "if m k = None then tree_erase k t = (Error (invalidArgument ''BTree: key not found''), t)
       else \<exists>t'. tree_erase k t = (Done (), t') \<and> tree_holds t' (m(k := None)) \<and> bt_size t' = bt_size t - 1"
    using erase_holds [OF assms] by blast
qed

theorem search_tree_is_map_witness:
  "tree_contains (UInt32 200) two_leaf_tree = (Done True, two_leaf_tree) \<and>
   (\<exists>t'. tree_insert (UInt32 120) (makeIndexRef 7) two_leaf_tree = (Done (), t') \<and> bt_size t' = 200)"
proof -
  define m where "m = map_of (map (\<lambda>i. (UInt32 (of_nat i), makeIndexRef (of_nat i + 100))) ([0..<100] @ [159..<258]))"
  have h: "tree_holds two_leaf_tree m" unfolding m_def by (rule two_leaf_tree_holds)
  note t = two_leaf_tree_facts
  have v: "PageReference_isValid (makeIndexRef 7)" by (rule makeIndexRef_valid) (simp add: kInvalidPageId_def)
  have "(UInt32 200, makeIndexRef 300) \<in> set (map (\<lambda>i. (UInt32 (of_nat i), makeIndexRef (of_nat i + 100))) ([0..<100] @ [159..<258]))"
    unfolding set_map by (rule image_eqI [where x = "200 :: nat"]) simp_all
  from image_eqI [OF _ this, of "UInt32 200" fst] have m1: "m (UInt32 200) \<noteq> None"
    unfolding m_def map_of_eq_None_iff by simp
  have m2: "m (UInt32 120) = None" unfolding m_def by (rule t(7))
  have "tree_contains (UInt32 200) two_leaf_tree = (Done (m (UInt32 200) \<noteq> None), two_leaf_tree)"
    using search_tree_is_map [OF h t(4)] by blast
  moreover have "\<exists>t'. tree_insert (UInt32 120) (makeIndexRef 7) two_leaf_tree = (Done (), t') \<and>
      tree_holds t' (m(UInt32 120 \<mapsto> makeIndexRef 7)) \<and> bt_size t' = bt_size two_leaf_tree + 1"
    using search_tree_is_map [OF h t(4), of "UInt32 120", THEN conjunct2, THEN conjunct2, THEN conjunct1,
        THEN spec [of _ "sample_leaf 8 0 100"], THEN spec [of _ "makeIndexRef 7"]]
      t(2,5,6) sample_config(4) v m2 by simp
  ultimately show ?thesis using m1 t(3) by auto
qed

text \<open>The validator returns on every search tree: fuel for its pages is enough.\<close>

lemma validateChildren_returns:
  assumes "\<forall>(c, b) \<in> set cs. \<forall>d mn mx ld. fst (validateSubtree fuel t (pr_pageId c) d mn mx ld) \<noteq> Diverges"
  shows "fst (validateChildren fuel t cs depth ld) \<noteq> Diverges"
  using assms
proof (induction cs arbitrary: ld)
  case Nil
  then show ?case by simp
next
  case (Cons x cs)
  obtain c mn mx where x: "x = (c, mn, mx)" by (cases x)
  obtain r ld' where r: "validateSubtree fuel t (pr_pageId c) depth mn mx ld = (r, ld')" by (rule prod.exhaust)
  then have "r \<noteq> Diverges" using Cons.prems x by (metis (mono_tags, lifting) case_prodD fst_conv list.set_intros(1))
  then show ?case using Cons x r by (cases r) simp_all
qed

lemma validateSubtree_returns:
  assumes "search_tree t p ps es" "length ps \<le> fuel"
  shows "fst (validateSubtree fuel t p depth mn mx ld) \<noteq> Diverges"
  using assms
proof (induction arbitrary: fuel depth mn mx ld rule: search_tree.induct)
  case (leaf p n)
  then obtain f where "fuel = Suc f" by (cases fuel) simp_all
  then show ?case using leaf by (simp split: sum.split)
next
  case (node p n pss ess)
  then obtain f where f: "fuel = Suc f" "length (concat pss) \<le> f" by (cases fuel) simp_all
  have "fst (validateSubtree f t (pr_pageId c) d mn' mx' ld') \<noteq> Diverges" if c: "c \<in> set (in_children n)" for c d mn' mx' ld'
  proof -
    obtain i where i: "i < length (in_children n)" "c = in_children n ! i" using c by (metis in_set_conv_nth)
    have "length (pss ! i) \<le> length (concat pss)"
      using i(1) node.hyps(5) member_le_sum_list [of "length (pss ! i)" "map length pss"] by (simp add: length_concat)
    then show ?thesis using node.IH [OF i(1)] i(2) f(2) by simp
  qed
  then have "fst (validateChildren f t (child_bounds n mn mx) (depth + 1) ld) \<noteq> Diverges"
    by (intro validateChildren_returns) (auto simp: child_bounds_def dest: set_zip_leftD)
  then show ?case using node.hyps(1,2) f(1) by (simp split: sum.split)
qed

lemma tree_validate_returns:
  assumes "search_tree t (bt_rootId t) ps es" "length ps \<le> fuel"
  shows "tree_validate fuel t \<noteq> Diverges"
  using validateSubtree_returns [OF assms, of 1 None None 0] by (simp add: tree_validate_def)

lemma single_size:
  assumes "single t"
  shows "unat (bt_size t) = card (dom (tree_map t))"
proof (cases "tree_empty t")
  case True
  then show ?thesis using assms single_empty [OF assms] by (simp add: single_def)
next
  case False
  obtain n where n: "leaf_wf n" "nd_config n = (bt_config t)\<lparr>level := 0\<rparr>" "unat (bt_size t) = length (lf_keys n)" "tree_map t = leaf_map n"
    by (rule singleE [OF assms False])
  have "\<not> allowDuplicates (nd_config n)" using assms n(2) by (simp add: single_def)
  then have "distinct (lf_keys n)" "length (lf_keys n) = length (lf_refs n)" using n(1) by (simp_all add: leaf_wf_def leaf_ordered_def)
  then have "card (dom (leaf_map n)) = length (lf_keys n)" by (simp add: leaf_map_def distinct_card)
  with n(3,4) show ?thesis by simp
qed



text \<open>
  C21. Splitting the root leaf loses an entry: an insertion of a new key into a tree of one full
  leaf, with two pages to be had, reports success, counts the key and grows the tree, but the
  tree afterwards is the map without one of the keys that should be there, whose lookup fails.
  All the other lookups answer as they should.
\<close>

theorem root_split_loses_an_entry:
  assumes "single t" "\<not> tree_empty t" "\<not> has_room t" "key_typed (bt_config t) k" "PageReference_isValid v"
    "tree_map t k = None" "bt_internals t = Map.empty" "keyWireSize (bt_config t) \<le> 3920"
    "bt_rootId t \<in> sm_owned (bt_space t)" "allocatePage (bt_space t) = (p, sp)" "p \<noteq> kInvalidPageId"
    "allocatePage sp = (q, sp')" "q \<noteq> kInvalidPageId"
  shows "\<exists>t' lost. tree_insert k v t = (Done (), t') \<and> bt_size t' = bt_size t + 1 \<and> bt_height t' = bt_height t + 1 \<and>
    ((tree_map t)(k \<mapsto> v)) lost \<noteq> None \<and> fst (tree_find lost t') = Error (invalidArgument ''BTree: key not found'') \<and>
    (\<forall>x. x \<noteq> lost \<longrightarrow> fst (tree_find x t') = (case ((tree_map t)(k \<mapsto> v)) x of Some y \<Rightarrow> Done y
      | None \<Rightarrow> Error (invalidArgument ''BTree: key not found'')))"
proof -
  obtain t' lost where t': "tree_insert k v t = (Done (), t')" "bt_size t' = bt_size t + 1" "bt_height t' = bt_height t + 1"
    "((tree_map t)(k \<mapsto> v)) lost \<noteq> None" "tree_holds t' ((tree_map t)(k \<mapsto> v, lost := None))" "\<not> tree_empty t'"
    using split_holds [OF assms] by blast
  note f = find_holds [OF t'(5)]
  have "fst (tree_find lost t') = Error (invalidArgument ''BTree: key not found'')" using f [of lost] t'(6) by simp
  moreover have "fst (tree_find x t') = (case ((tree_map t)(k \<mapsto> v)) x of Some y \<Rightarrow> Done y
      | None \<Rightarrow> Error (invalidArgument ''BTree: key not found''))" if "x \<noteq> lost" for x
    using f [of x] t'(6) that by simp
  ultimately show ?thesis using t'(1-4) by blast
qed

theorem root_split_loses_an_entry_witness:
  "\<exists>t' lost. tree_insert (UInt32 200) (makeIndexRef 7) full_tree = (Done (), t') \<and> bt_size t' = bt_size full_tree + 1 \<and>
    fst (tree_find lost t') = Error (invalidArgument ''BTree: key not found'')"
proof -
  let ?s = "snd (allocatePage (SpaceManager_new FirstFitPolicy))"
  have p: "fst (allocatePage (SpaceManager_new FirstFitPolicy)) = 8" "fst (allocatePage ?s) = 9"
    "fst (allocatePage (snd (allocatePage ?s))) = 10"
    by code_simp+
  have "bt_space full_tree = ?s" by (simp add: full_tree_def tree_new_def)
  moreover have "bt_rootId full_tree \<in> sm_owned ?s"
    using spacepages.alloc_fresh [OF sm_wf_new prod.collapse [symmetric], of FirstFitPolicy] p(1) full_tree_facts(6)
    by (simp add: kInvalidPageId_def)
  moreover have "allocatePage ?s = (9, snd (allocatePage ?s))"
    "allocatePage (snd (allocatePage ?s)) = (10, snd (allocatePage (snd (allocatePage ?s))))"
    using p(2,3) by (metis prod.collapse)+
  moreover have "PageReference_isValid (makeIndexRef 7)"
    by (simp add: makeIndexRef_def PageReference_make_def PageReference_isValid_def kInvalidPageId_def)
  ultimately show ?thesis
    using root_split_loses_an_entry [OF full_tree_facts(1,2,3), of "UInt32 200" "makeIndexRef 7"]
      full_tree_facts(4,5,7) sample_config by (fastforce simp: kInvalidPageId_def)
qed

text \<open>
  C22. Merging internal nodes never succeeds: for well-formed nodes below a well-formed parent,
  \<^verbatim>\<open>mergeInternalLeft\<close> and \<^verbatim>\<open>mergeInternalRight\<close> both return the error of a child count that does not
  match, and leave the tree, with its underfull node, as it was.
\<close>

theorem internal_merge_always_fails:
  assumes "bt_internals t p = Some m" "internal_wf m" "i < length (in_keys m)"
    "bt_internals t (pr_pageId (in_children m ! i)) = Some a" "bt_internals t (pr_pageId (in_children m ! Suc i)) = Some b"
    "internal_wf a" "internal_wf b"
  shows "mergeInternalLeft path p (Suc i) t = (Error (invalidArgument ''InternalNode: child count mismatch''), t) \<and>
    mergeInternalRight path p i t = (Error (invalidArgument ''InternalNode: child count mismatch''), t)"
  using merge_internal_fails [OF assms] by blast

theorem internal_merge_always_fails_witness:
  "mergeInternalRight [] 8 0
     ((tree_new (SpaceManager_new FirstFitPolicy) BTreeNodeConfig ())\<lparr>bt_internals :=
       [8 \<mapsto> internal_with [UInt32 5] [makeIndexRef 9, makeIndexRef 10] (internal_create 8 BTreeNodeConfig),
        9 \<mapsto> internal_create 9 BTreeNodeConfig, 10 \<mapsto> internal_create 10 BTreeNodeConfig]\<rparr>) =
   (Error (invalidArgument ''InternalNode: child count mismatch''),
    (tree_new (SpaceManager_new FirstFitPolicy) BTreeNodeConfig ())\<lparr>bt_internals :=
       [8 \<mapsto> internal_with [UInt32 5] [makeIndexRef 9, makeIndexRef 10] (internal_create 8 BTreeNodeConfig),
        9 \<mapsto> internal_create 9 BTreeNodeConfig, 10 \<mapsto> internal_create 10 BTreeNodeConfig]\<rparr>)"
proof -
  let ?m = "internal_with [UInt32 5] [makeIndexRef 9, makeIndexRef 10] (internal_create 8 BTreeNodeConfig)"
  have kw: "keyWireSize BTreeNodeConfig \<le> 3920" by (simp add: sample_config)
  note new = internal_create_new [OF kw]
  have "unat (node_capacity (internal_create 8 BTreeNodeConfig)) = 157"
    by (simp add: new(7) unat_computeCapacity sample_config)
  then have m: "internal_wf ?m" using new(1,4) by (intro internal_with_wf) (simp_all add: sample_config)
  show ?thesis
    using new(1) m
    by (intro internal_merge_always_fails [where m = ?m and a = "internal_create 9 BTreeNodeConfig"
          and b = "internal_create 10 BTreeNodeConfig", THEN conjunct2])
      (simp_all add: tree_new_def makeIndexRef_def PageReference_make_def)
qed

end
