(* ===== verification/Cursor.thy ===== *)
theory Cursor
  imports TreeSpec
begin

text \<open>
  Cursors (Cursor.h, Cursor.cpp; lowerBound, upperBound, begin and end of BTree.cpp): a position in
  one node or in a whole tree. The object the cursor's pointer refers to is an argument of every
  call, so a call sees the node or the tree as it is then; \<open>NoTarget\<close> is the null pointer.
\<close>

datatype cursor_mode = NoMode | LeafMode | InternalMode | TreeMode

datatype 'w target = NoTarget | LeafTarget leaf_node | InternalTarget internal_node | TreeTarget "'w btree"

record cursor =
  cu_mode :: cursor_mode
  cu_leafId :: PageId
  cu_index :: nat
  cu_atEnd :: bool

type_synonym cursor_op = "cursor \<Rightarrow> unit outcome \<times> cursor"

definition Cursor_new :: cursor where
  "Cursor_new = \<lparr>cu_mode = NoMode, cu_leafId = kInvalidPageId, cu_index = 0, cu_atEnd = False\<rparr>"

definition Cursor_reset :: "cursor \<Rightarrow> cursor" where
  "Cursor_reset c = c\<lparr>cu_mode := NoMode, cu_leafId := kInvalidPageId, cu_index := 0, cu_atEnd := False\<rparr>"

definition Cursor_valid :: "'w target \<Rightarrow> cursor \<Rightarrow> bool" where
  "Cursor_valid x c =
     (case (cu_mode c, x) of
        (TreeMode, TreeTarget t) \<Rightarrow>
          if cu_atEnd c then False
          else (case bt_leaves t (cu_leafId c) of None \<Rightarrow> False | Some n \<Rightarrow> cu_index c < unat (node_keyCount n))
      | (LeafMode, LeafTarget n) \<Rightarrow> cu_index c < length (lf_keys n)
      | (InternalMode, InternalTarget n) \<Rightarrow> cu_index c < length (in_keys n)
      | _ \<Rightarrow> False)"

definition Cursor_isEnd :: "'w target \<Rightarrow> cursor \<Rightarrow> bool" where
  "Cursor_isEnd x c = (if cu_mode c = TreeMode then cu_atEnd c else \<not> Cursor_valid x c)"

definition Cursor_bindLeaf :: "cursor \<Rightarrow> cursor" where
  "Cursor_bindLeaf c = (Cursor_reset c)\<lparr>cu_mode := LeafMode\<rparr>"

definition Cursor_bindInternal :: "cursor \<Rightarrow> cursor" where
  "Cursor_bindInternal c = (Cursor_reset c)\<lparr>cu_mode := InternalMode\<rparr>"

definition Cursor_bindTree :: "bool \<Rightarrow> cursor \<Rightarrow> cursor" where
  "Cursor_bindTree e c = (Cursor_reset c)\<lparr>cu_mode := TreeMode, cu_atEnd := e\<rparr>"

definition Cursor_seek :: "nat \<Rightarrow> 'w target \<Rightarrow> cursor_op" where
  "Cursor_seek index x c =
     (case (cu_mode c, x) of
        (LeafMode, LeafTarget n) \<Rightarrow>
          if index \<ge> length (lf_keys n) then (Error (invalidArgument ''Cursor: leaf index out of range''), c)
          else (Done (), c\<lparr>cu_index := index\<rparr>)
      | (InternalMode, InternalTarget n) \<Rightarrow>
          if index \<ge> length (in_keys n) then (Error (invalidArgument ''Cursor: internal index out of range''), c)
          else (Done (), c\<lparr>cu_index := index\<rparr>)
      | (TreeMode, TreeTarget t) \<Rightarrow>
          (case bt_leaves t (cu_leafId c) of
             None \<Rightarrow> (Error (invalidArgument ''Cursor: not bound to a node''), c)
           | Some n \<Rightarrow>
               if index \<ge> unat (node_keyCount n) then (Error (invalidArgument ''Cursor: tree leaf index out of range''), c)
               else (Done (), c\<lparr>cu_index := index, cu_atEnd := False\<rparr>))
      | _ \<Rightarrow> (Error (invalidArgument ''Cursor: not bound to a node''), c))"

section \<open>Moving between leaves\<close>

text \<open>The first and the last leaf below a page; \<open>None\<close> is a descent that never ends.\<close>

partial_function (option) leftmostLoop :: "'w btree \<Rightarrow> PageId \<Rightarrow> PageId outcome option" where
  "leftmostLoop t current =
     (case bt_internals t current of
        None \<Rightarrow> Some (Done current)
      | Some n \<Rightarrow> (case internal_childAt 0 n of None \<Rightarrow> Some Thrown | Some r \<Rightarrow> leftmostLoop t (pr_pageId r)))"

partial_function (option) rightmostLoop :: "'w btree \<Rightarrow> PageId \<Rightarrow> PageId outcome option" where
  "rightmostLoop t current =
     (case bt_internals t current of
        None \<Rightarrow> Some (Done current)
      | Some n \<Rightarrow> (case internal_childAt (unat (node_keyCount n)) n of
          None \<Rightarrow> Some Thrown | Some r \<Rightarrow> rightmostLoop t (pr_pageId r)))"

definition Cursor_seekBegin :: "'w target \<Rightarrow> cursor_op" where
  "Cursor_seekBegin x c =
     (case (cu_mode c, x) of
        (TreeMode, TreeTarget t) \<Rightarrow>
          if tree_empty t then (Done (), c\<lparr>cu_atEnd := True\<rparr>)
          else (case leftmostLoop t (bt_rootId t) of
                  None \<Rightarrow> (Diverges, c)
                | Some (Done p) \<Rightarrow> (Done (), c\<lparr>cu_leafId := p, cu_index := 0, cu_atEnd := False\<rparr>)
                | Some _ \<Rightarrow> (Thrown, c))
      | _ \<Rightarrow> (Error (invalidArgument ''Cursor: tree not bound''), c))"

definition Cursor_seekEnd :: "'w target \<Rightarrow> cursor_op" where
  "Cursor_seekEnd x c =
     (case (cu_mode c, x) of
        (TreeMode, TreeTarget t) \<Rightarrow> (Done (), c\<lparr>cu_atEnd := True\<rparr>)
      | _ \<Rightarrow> (Error (invalidArgument ''Cursor: tree not bound''), c))"

text \<open>
  The path to the leaf: the loop of the code runs at most once, since its body sets the current
  page to the leaf. A leaf that is no child of the root is taken for its first child.
\<close>

fun findChild :: "internal_node \<Rightarrow> PageId \<Rightarrow> nat list \<Rightarrow> nat outcome" where
  "findChild n leafId [] = Done 0"
| "findChild n leafId (i # is) =
     (case internal_childAt i n of
        None \<Rightarrow> Thrown
      | Some r \<Rightarrow> if pr_pageId r = leafId then Done i else findChild n leafId is)"

definition leafPath :: "'w btree \<Rightarrow> PageId \<Rightarrow> search_path outcome" where
  "leafPath t leafId =
     (if bt_rootId t = leafId then Done []
      else (case bt_internals t (bt_rootId t) of
              None \<Rightarrow> Error (invalidArgument ''Cursor: leaf not reachable'')
            | Some n \<Rightarrow>
                (case findChild n leafId [0..<unat (node_keyCount n) + 1] of
                   Done i \<Rightarrow> Done [\<lparr>fm_pageId = bt_rootId t, fm_childIndex = of_nat i, fm_pageRef = makeIndexRef (bt_rootId t)\<rparr>]
                 | _ \<Rightarrow> Thrown)))"

fun advanceLoop :: "'w btree \<Rightarrow> search_path \<Rightarrow> cursor_op" where
  "advanceLoop t [] c = (Error (invalidArgument ''Cursor: end of tree''), c\<lparr>cu_atEnd := True\<rparr>)"
| "advanceLoop t (frame # path) c =
     (case bt_internals t (fm_pageId frame) of
        None \<Rightarrow> (Thrown, c)
      | Some parent \<Rightarrow>
          let nextChild = fm_childIndex frame + 1
          in if nextChild \<le> node_keyCount parent
             then (case internal_childAt (unat nextChild) parent of
                     None \<Rightarrow> (Thrown, c)
                   | Some r \<Rightarrow>
                       (case leftmostLoop t (pr_pageId r) of
                          None \<Rightarrow> (Diverges, c)
                        | Some (Done p) \<Rightarrow> (Done (), c\<lparr>cu_leafId := p, cu_index := 0, cu_atEnd := False\<rparr>)
                        | Some _ \<Rightarrow> (Thrown, c)))
             else advanceLoop t path c)"

definition advanceToNextLeaf :: "'w target \<Rightarrow> cursor_op" where
  "advanceToNextLeaf x c =
     (case (cu_mode c, x) of
        (TreeMode, TreeTarget t) \<Rightarrow>
          if tree_empty t then (Error (invalidArgument ''Cursor: cannot advance''), c\<lparr>cu_atEnd := True\<rparr>)
          else (case leafPath t (cu_leafId c) of
                  Done path \<Rightarrow> advanceLoop t path c
                | Error st \<Rightarrow> (Error st, c\<lparr>cu_atEnd := True\<rparr>)
                | _ \<Rightarrow> (Thrown, c))
      | _ \<Rightarrow> (Error (invalidArgument ''Cursor: cannot advance''), c\<lparr>cu_atEnd := True\<rparr>))"

text \<open>The last entry of a leaf, or position 0 when it has none.\<close>

definition enterLeafAtEnd :: "'w btree \<Rightarrow> PageId outcome option \<Rightarrow> cursor_op" where
  "enterLeafAtEnd t res c =
     (case res of
        None \<Rightarrow> (Diverges, c)
      | Some (Done p) \<Rightarrow>
          (case bt_leaves t p of
             None \<Rightarrow> (Thrown, c\<lparr>cu_leafId := p\<rparr>)
           | Some n \<Rightarrow> (Done (), c\<lparr>cu_leafId := p, cu_index := unat (node_keyCount n) - 1, cu_atEnd := False\<rparr>))
      | Some _ \<Rightarrow> (Thrown, c))"

fun retreatLoop :: "'w btree \<Rightarrow> search_path \<Rightarrow> cursor_op" where
  "retreatLoop t [] c = (Error (invalidArgument ''Cursor: beginning of tree''), c)"
| "retreatLoop t (frame # path) c =
     (if fm_childIndex frame > 0
      then (case bt_internals t (fm_pageId frame) of
              None \<Rightarrow> (Thrown, c)
            | Some parent \<Rightarrow>
                (case internal_childAt (unat (fm_childIndex frame - 1)) parent of
                   None \<Rightarrow> (Thrown, c)
                 | Some r \<Rightarrow> enterLeafAtEnd t (rightmostLoop t (pr_pageId r)) c))
      else retreatLoop t path c)"

definition retreatToPreviousLeaf :: "'w target \<Rightarrow> cursor_op" where
  "retreatToPreviousLeaf x c =
     (case (cu_mode c, x) of
        (TreeMode, TreeTarget t) \<Rightarrow>
          if tree_empty t then (Error (invalidArgument ''Cursor: cannot retreat''), c)
          else (case leafPath t (cu_leafId c) of
                  Done path \<Rightarrow> retreatLoop t path c
                | Error st \<Rightarrow> (Error st, c)
                | _ \<Rightarrow> (Thrown, c))
      | _ \<Rightarrow> (Error (invalidArgument ''Cursor: cannot retreat''), c))"

section \<open>Steps\<close>

definition Cursor_next :: "'w target \<Rightarrow> cursor_op" where
  "Cursor_next x c =
     (case (cu_mode c, x) of
        (TreeMode, TreeTarget t) \<Rightarrow>
          if cu_atEnd c then (Error (invalidArgument ''Cursor: end of tree''), c)
          else (case bt_leaves t (cu_leafId c) of
                  None \<Rightarrow> (Thrown, c)
                | Some n \<Rightarrow>
                    if add_sz (cu_index c) 1 < unat (node_keyCount n) then (Done (), c\<lparr>cu_index := add_sz (cu_index c) 1\<rparr>)
                    else advanceToNextLeaf x c)
      | _ \<Rightarrow>
          if \<not> Cursor_valid x c then (Error (invalidArgument ''Cursor: invalid position''), c)
          else let c' = c\<lparr>cu_index := add_sz (cu_index c) 1\<rparr>
               in if \<not> Cursor_valid x c' then (Error (invalidArgument ''Cursor: end of node''), c') else (Done (), c'))"

definition Cursor_previous :: "'w target \<Rightarrow> cursor_op" where
  "Cursor_previous x c =
     (case (cu_mode c, x) of
        (TreeMode, TreeTarget t) \<Rightarrow>
          if cu_atEnd c
          then (if tree_empty t then (Error (invalidArgument ''Cursor: empty tree''), c)
                else enterLeafAtEnd t (rightmostLoop t (bt_rootId t)) c)
          else if cu_index c > 0 then (Done (), c\<lparr>cu_index := cu_index c - 1\<rparr>)
          else retreatToPreviousLeaf x c
      | _ \<Rightarrow>
          if cu_mode c = NoMode then (Error (invalidArgument ''Cursor: not bound to a node''), c)
          else if cu_index c = 0 then (Error (invalidArgument ''Cursor: beginning of node''), c)
          else (Done (), c\<lparr>cu_index := cu_index c - 1\<rparr>))"

text \<open>
  \<open>None\<close> is the unchecked \<^verbatim>\<open>keys()[index_]\<close> beyond the last key of a leaf; the default key is the
  cursor's scratch key, which nothing assigns.
\<close>

definition Cursor_currentKey :: "'w target \<Rightarrow> cursor \<Rightarrow> key option" where
  "Cursor_currentKey x c =
     (let scratch = Some (UInt32 0)
      in case (cu_mode c, x) of
        (TreeMode, TreeTarget t) \<Rightarrow>
          if cu_atEnd c then scratch
          else (case bt_leaves t (cu_leafId c) of
                  None \<Rightarrow> scratch
                | Some n \<Rightarrow> if cu_index c < length (lf_keys n) then Some (lf_keys n ! cu_index c) else None)
      | (LeafMode, LeafTarget n) \<Rightarrow> if cu_index c < length (lf_keys n) then Some (lf_keys n ! cu_index c) else scratch
      | (InternalMode, InternalTarget n) \<Rightarrow> if cu_index c < length (in_keys n) then Some (in_keys n ! cu_index c) else scratch
      | _ \<Rightarrow> scratch)"

definition Cursor_currentReference :: "'w target \<Rightarrow> cursor \<Rightarrow> page_ref outcome" where
  "Cursor_currentReference x c =
     (case (cu_mode c, x) of
        (TreeMode, TreeTarget t) \<Rightarrow>
          if cu_atEnd c then Done PageReference_invalid
          else (case bt_leaves t (cu_leafId c) of
                  None \<Rightarrow> Done PageReference_invalid
                | Some n \<Rightarrow> (case leaf_referenceAt (cu_index c) n of None \<Rightarrow> Thrown | Some r \<Rightarrow> Done r))
      | (LeafMode, LeafTarget n) \<Rightarrow> Done (if cu_index c < length (lf_refs n) then lf_refs n ! cu_index c else PageReference_invalid)
      | (InternalMode, InternalTarget n) \<Rightarrow>
          (case internal_childAt (add_sz (cu_index c) 1) n of None \<Rightarrow> Thrown | Some r \<Rightarrow> Done r)
      | _ \<Rightarrow> Done PageReference_invalid)"

section \<open>The cursors of a tree\<close>

definition tree_seekFrom :: "(leaf_node \<Rightarrow> nat \<Rightarrow> nat) \<Rightarrow> key \<Rightarrow> 'w btree \<Rightarrow> cursor_op" where
  "tree_seekFrom position k t c =
     (if tree_empty t then (Done (), Cursor_bindTree True c)
      else let c1 = Cursor_bindTree False c
           in case descendToLeaf k False t of
                (Done (lf, index, _), _) \<Rightarrow>
                  (case bt_leaves t lf of
                     None \<Rightarrow> (Thrown, c1)
                   | Some n \<Rightarrow>
                       let c2 = c1\<lparr>cu_leafId := node_pageId n, cu_index := position n index\<rparr>
                       in if position n index \<ge> unat (node_keyCount n) then advanceToNextLeaf (TreeTarget t) c2
                          else (Done (), c2))
              | (Error st, _) \<Rightarrow> (Error st, c1)
              | (Thrown, _) \<Rightarrow> (Thrown, c1)
              | (Diverges, _) \<Rightarrow> (Diverges, c1))"

definition tree_lowerBound :: "key \<Rightarrow> 'w btree \<Rightarrow> cursor_op" where
  "tree_lowerBound k = tree_seekFrom (\<lambda>n index. index) k"

definition tree_upperBound :: "key \<Rightarrow> 'w btree \<Rightarrow> cursor_op" where
  "tree_upperBound k = tree_seekFrom (\<lambda>n index. upperBound (lf_keys n) k) k"

definition tree_begin :: "'w btree \<Rightarrow> unit outcome \<times> cursor" where
  "tree_begin t =
     (case Cursor_seekBegin (TreeTarget t) (Cursor_bindTree False Cursor_new) of
        (Error _, c) \<Rightarrow> (Done (), c)
      | res \<Rightarrow> res)"

definition tree_end :: cursor where
  "tree_end = Cursor_bindTree True Cursor_new"

definition Cursor_seekKey :: "key \<Rightarrow> 'w target \<Rightarrow> cursor_op" where
  "Cursor_seekKey k x c =
     (let found = (\<lambda>keys c'. if cu_index c' \<ge> length keys \<or> \<not> key_equal (keys ! cu_index c') k
                    then (Error (invalidArgument ''Cursor: key not found''), c') else (Done (), c'))
      in case (cu_mode c, x) of
        (LeafMode, LeafTarget n) \<Rightarrow> found (lf_keys n) (c\<lparr>cu_index := lowerBound (lf_keys n) k\<rparr>)
      | (InternalMode, InternalTarget n) \<Rightarrow> found (in_keys n) (c\<lparr>cu_index := lowerBound (in_keys n) k\<rparr>)
      | (TreeMode, TreeTarget t) \<Rightarrow> tree_lowerBound k t c
      | _ \<Rightarrow> (Error (invalidArgument ''Cursor: not bound to a node''), c))"

section \<open>Trees of at most two levels\<close>

text \<open>
  \<open>leaf_row t ls\<close>: the tree is a single leaf, or a root over the leaves \<open>ls\<close>, each with its page
  and none of them empty.
\<close>

definition leaf_at :: "'w btree \<Rightarrow> PageId \<times> leaf_node \<Rightarrow> bool" where
  "leaf_at t x \<longleftrightarrow> bt_leaves t (fst x) = Some (snd x) \<and> bt_internals t (fst x) = None \<and> node_pageId (snd x) = fst x \<and>
     lf_keys (snd x) \<noteq> [] \<and> length (lf_refs (snd x)) = length (lf_keys (snd x)) \<and>
     unat (node_keyCount (snd x)) = length (lf_keys (snd x))"

definition leaf_row :: "'w btree \<Rightarrow> (PageId \<times> leaf_node) list \<Rightarrow> bool" where
  "leaf_row t ls \<longleftrightarrow> \<not> tree_empty t \<and> list_all (leaf_at t) ls \<and> length ls < 2 ^ 32 \<and>
     (map fst ls = [bt_rootId t] \<or>
      (\<exists>r. bt_leaves t (bt_rootId t) = None \<and> bt_internals t (bt_rootId t) = Some r \<and> distinct (bt_rootId t # map fst ls) \<and>
         map pr_pageId (in_children r) = map fst ls \<and> unat (node_keyCount r) + 1 = length ls))"

definition entries_of :: "(PageId \<times> leaf_node) list \<Rightarrow> (key \<times> page_ref) list" where
  "entries_of ls = concat (map (\<lambda>x. zip (lf_keys (snd x)) (lf_refs (snd x))) ls)"

abbreviation cursor_at :: "PageId \<Rightarrow> nat \<Rightarrow> cursor" where
  "cursor_at p j \<equiv> \<lparr>cu_mode = TreeMode, cu_leafId = p, cu_index = j, cu_atEnd = False\<rparr>"

lemma leaf_atD:
  assumes "leaf_row t ls" "i < length ls"
  shows "leaf_at t (ls ! i)"
  using assms by (auto simp: leaf_row_def list_all_length)

lemma leaf_loops:
  assumes "leaf_at t x"
  shows "leftmostLoop t (fst x) = Some (Done (fst x))" "rightmostLoop t (fst x) = Some (Done (fst x))"
  using assms by (simp_all add: leaf_at_def leftmostLoop.simps rightmostLoop.simps)

lemma row_internal:
  assumes "leaf_row t ls" "bt_internals t (bt_rootId t) = Some r"
  shows "distinct (bt_rootId t # map fst ls)" "map pr_pageId (in_children r) = map fst ls" "unat (node_keyCount r) + 1 = length ls"
proof -
  have "map fst ls \<noteq> [bt_rootId t]"
  proof
    assume "map fst ls = [bt_rootId t]"
    then obtain x where "ls = [x]" "fst x = bt_rootId t" by (cases ls) auto
    then show False using leaf_atD [OF assms(1), of 0] assms(2) by (simp add: leaf_at_def)
  qed
  then show "distinct (bt_rootId t # map fst ls)" "map pr_pageId (in_children r) = map fst ls" "unat (node_keyCount r) + 1 = length ls"
    using assms by (auto simp: leaf_row_def)
qed

lemma row_childAt:
  assumes "leaf_row t ls" "bt_internals t (bt_rootId t) = Some r" "i < length ls"
  shows "\<exists>x. internal_childAt i r = Some x \<and> pr_pageId x = fst (ls ! i)"
proof -
  note m = row_internal(2) [OF assms(1,2)]
  then have "i < length (in_children r)" using assms(3) by (metis length_map)
  moreover from this have "pr_pageId (in_children r ! i) = map fst ls ! i" by (metis m nth_map)
  ultimately show ?thesis using assms(3) by (simp add: internal_childAt_def)
qed

lemma findChild_row:
  assumes "leaf_row t ls" "bt_internals t (bt_rootId t) = Some r" "distinct (map fst ls)" "i < length ls" "k \<le> i"
  shows "findChild r (fst (ls ! i)) [k..<length ls] = Done i"
  using assms(5)
proof (induction "i - k" arbitrary: k)
  case 0
  then have k: "k = i" by simp
  obtain x where "internal_childAt i r = Some x" "pr_pageId x = fst (ls ! i)" using row_childAt [OF assms(1,2,4)] by blast
  then show ?case using assms(4) k by (simp add: upt_conv_Cons)
next
  case (Suc d)
  then have k: "k < i" by simp
  have "k < length ls" using k assms(4) by simp
  then obtain x where x: "internal_childAt k r = Some x" "pr_pageId x = fst (ls ! k)" using row_childAt [OF assms(1,2)] by blast
  have "fst (ls ! k) \<noteq> fst (ls ! i)"
    using assms(3,4) k nth_eq_iff_index_eq [of "map fst ls" k i] by simp
  then show ?case using x k assms(4) Suc.hyps by (simp add: upt_conv_Cons)
qed

text \<open>The path from the root to the leaf at position \<open>i\<close>.\<close>

lemma leafPath_row:
  assumes "leaf_row t ls" "i < length ls"
  shows "(bt_internals t (bt_rootId t) = None \<and> length ls = 1 \<and> leafPath t (fst (ls ! i)) = Done []) \<or>
    (\<exists>r. bt_internals t (bt_rootId t) = Some r \<and> leafPath t (fst (ls ! i)) =
       Done [\<lparr>fm_pageId = bt_rootId t, fm_childIndex = of_nat i, fm_pageRef = makeIndexRef (bt_rootId t)\<rparr>])"
proof (cases "bt_internals t (bt_rootId t)")
  case None
  then have "map fst ls = [bt_rootId t]" using assms(1) by (auto simp: leaf_row_def)
  then have "length ls = 1" "fst (ls ! 0) = bt_rootId t" by (cases ls; auto)+
  then show ?thesis using None assms(2) by (simp add: leafPath_def)
next
  case (Some r)
  note d = row_internal [OF assms(1) Some]
  have "bt_rootId t \<noteq> fst (ls ! i)" using d(1) assms(2) by (metis distinct.simps(2) length_map nth_map nth_mem)
  moreover have "findChild r (fst (ls ! i)) [0..<unat (node_keyCount r) + 1] = Done i"
    using findChild_row [OF assms(1) Some _ assms(2), of 0] d by simp
  ultimately show ?thesis using Some by (simp add: leafPath_def)
qed

section \<open>One step\<close>

lemma advance_row:
  assumes "leaf_row t ls" "i < length ls"
  shows "advanceToNextLeaf (TreeTarget t) (cursor_at (fst (ls ! i)) j) =
    (if Suc i < length ls then (Done (), cursor_at (fst (ls ! Suc i)) 0)
     else (Error (invalidArgument ''Cursor: end of tree''), (cursor_at (fst (ls ! i)) j)\<lparr>cu_atEnd := True\<rparr>))"
  using leafPath_row [OF assms]
proof (elim disjE exE conjE)
  have e: "\<not> tree_empty t" "length ls < 4294967296" using assms(1) by (simp_all add: leaf_row_def)
  fix r assume r: "bt_internals t (bt_rootId t) = Some r" and p: "leafPath t (fst (ls ! i)) =
       Done [\<lparr>fm_pageId = bt_rootId t, fm_childIndex = of_nat i, fm_pageRef = makeIndexRef (bt_rootId t)\<rparr>]"
  note k = row_internal(3) [OF assms(1) r]
  have u: "unat (of_nat i + 1 :: u32) = Suc i" using assms(2) e(2) by (simp add: unat_word_ariths unat_of_nat)
  then have c: "of_nat i + 1 \<le> node_keyCount r \<longleftrightarrow> Suc i < length ls" using k unfolding word_le_nat_alt by linarith
  show ?thesis
  proof (cases "Suc i < length ls")
    case True
    obtain x where x: "internal_childAt (Suc i) r = Some x" "pr_pageId x = fst (ls ! Suc i)"
      using row_childAt [OF assms(1) r True] by blast
    then show ?thesis
      using True e r p c u leaf_loops(1) [OF leaf_atD [OF assms(1) True]] by (simp add: advanceToNextLeaf_def)
  next
    case False
    then show ?thesis using e r p c by (simp add: advanceToNextLeaf_def)
  qed
next
  assume "length ls = 1" "leafPath t (fst (ls ! i)) = Done []"
  then show ?thesis using assms by (simp add: advanceToNextLeaf_def leaf_row_def)
qed

lemma next_row:
  assumes "leaf_row t ls" "i < length ls" "j < length (lf_keys (snd (ls ! i)))"
  shows "Cursor_next (TreeTarget t) (cursor_at (fst (ls ! i)) j) =
    (if Suc j < length (lf_keys (snd (ls ! i))) then (Done (), cursor_at (fst (ls ! i)) (Suc j))
     else if Suc i < length ls then (Done (), cursor_at (fst (ls ! Suc i)) 0)
     else (Error (invalidArgument ''Cursor: end of tree''), (cursor_at (fst (ls ! i)) j)\<lparr>cu_atEnd := True\<rparr>))"
proof -
  let ?n = "snd (ls ! i)"
  have n: "bt_leaves t (fst (ls ! i)) = Some ?n" "unat (node_keyCount ?n) = length (lf_keys ?n)"
    using leaf_atD [OF assms(1,2)] by (simp_all add: leaf_at_def)
  have "unat (node_keyCount ?n) \<le> 4294967295" by simp
  then have "Suc j < 18446744073709551616" using assms(3) n(2) by linarith
  then have "add_sz j 1 = Suc j" by (simp add: add_sz_def)
  then show ?thesis using n advance_row [OF assms(1,2), of j] by (simp add: Cursor_next_def)
qed

lemma previous_row:
  assumes "leaf_row t ls" "i < length ls" "j < length (lf_keys (snd (ls ! i)))"
  shows "Cursor_previous (TreeTarget t) (cursor_at (fst (ls ! i)) j) =
    (if 0 < j then (Done (), cursor_at (fst (ls ! i)) (j - 1))
     else if 0 < i then (Done (), cursor_at (fst (ls ! (i - 1))) (length (lf_keys (snd (ls ! (i - 1)))) - 1))
     else (Error (invalidArgument ''Cursor: beginning of tree''), cursor_at (fst (ls ! i)) j))"
proof -
  have e: "\<not> tree_empty t" "length ls < 4294967296" using assms(1) by (simp_all add: leaf_row_def)
  have ret: "retreatToPreviousLeaf (TreeTarget t) (cursor_at (fst (ls ! i)) j) =
    (if 0 < i then (Done (), cursor_at (fst (ls ! (i - 1))) (length (lf_keys (snd (ls ! (i - 1)))) - 1))
     else (Error (invalidArgument ''Cursor: beginning of tree''), cursor_at (fst (ls ! i)) j))"
    using leafPath_row [OF assms(1,2)]
  proof (elim disjE exE conjE)
    fix r assume r: "bt_internals t (bt_rootId t) = Some r" and p: "leafPath t (fst (ls ! i)) =
       Done [\<lparr>fm_pageId = bt_rootId t, fm_childIndex = of_nat i, fm_pageRef = makeIndexRef (bt_rootId t)\<rparr>]"
    have u: "unat (of_nat i :: u32) = i" using assms(2) e(2) by (simp add: unat_of_nat)
    show ?thesis
    proof (cases "0 < i")
      case True
      then have i1: "i - 1 < length ls" using assms(2) by simp
      have u1: "unat (of_nat i - 1 :: u32) = i - 1" using True u by (subst unat_sub) (simp_all add: word_le_nat_alt)
      have pos: "(0 :: u32) < of_nat i" using True u by (simp add: word_less_nat_alt)
      obtain x where x: "internal_childAt (i - 1) r = Some x" "pr_pageId x = fst (ls ! (i - 1))"
        using row_childAt [OF assms(1) r i1] by blast
      show ?thesis
        using True e r p pos u1 x leaf_loops(2) [OF leaf_atD [OF assms(1) i1]] leaf_atD [OF assms(1) i1]
        by (simp add: retreatToPreviousLeaf_def enterLeafAtEnd_def leaf_at_def)
    next
      case False
      then show ?thesis using e p by (simp add: retreatToPreviousLeaf_def)
    qed
  next
    assume "length ls = 1" "leafPath t (fst (ls ! i)) = Done []"
    then show ?thesis using assms(2) e by (simp add: retreatToPreviousLeaf_def)
  qed
  show ?thesis using ret by (cases j) (simp_all add: Cursor_previous_def)
qed

lemma begin_row:
  assumes "leaf_row t ls"
  shows "ls \<noteq> []" "tree_begin t = (Done (), cursor_at (fst (ls ! 0)) 0)"
    "Cursor_previous (TreeTarget t) tree_end = (Done (), cursor_at (fst (last ls)) (length (lf_keys (snd (last ls))) - 1))"
proof -
  show ne: "ls \<noteq> []" using assms by (auto simp: leaf_row_def)
  then have l: "0 < length ls" "length ls - 1 < length ls" "last ls = ls ! (length ls - 1)" by (simp_all add: last_conv_nth)
  have e: "\<not> tree_empty t" using assms by (simp add: leaf_row_def)
  have "leftmostLoop t (bt_rootId t) = Some (Done (fst (ls ! 0))) \<and> rightmostLoop t (bt_rootId t) = Some (Done (fst (last ls)))"
  proof (cases "bt_internals t (bt_rootId t)")
    case None
    then have "map fst ls = [bt_rootId t]" using assms by (auto simp: leaf_row_def)
    then have "fst (ls ! 0) = bt_rootId t" "fst (last ls) = bt_rootId t" by (cases ls; auto)+
    then show ?thesis using None by (simp add: leftmostLoop.simps rightmostLoop.simps)
  next
    case (Some r)
    have k: "unat (node_keyCount r) = length ls - 1" using row_internal(3) [OF assms Some] by simp
    obtain x where x: "internal_childAt 0 r = Some x" "pr_pageId x = fst (ls ! 0)"
      using row_childAt [OF assms Some l(1)] by blast
    obtain y where y: "internal_childAt (length ls - 1) r = Some y" "pr_pageId y = fst (last ls)"
      using row_childAt [OF assms Some l(2)] l(3) by auto
    show ?thesis
      using Some k x y leaf_loops [OF leaf_atD [OF assms l(1)]] leaf_loops [OF leaf_atD [OF assms l(2)]] l(3)
      by (subst leftmostLoop.simps, subst rightmostLoop.simps) simp
  qed
  then show "tree_begin t = (Done (), cursor_at (fst (ls ! 0)) 0)"
    "Cursor_previous (TreeTarget t) tree_end = (Done (), cursor_at (fst (last ls)) (length (lf_keys (snd (last ls))) - 1))"
    using e leaf_atD [OF assms l(2)] l(3)
    by (simp_all add: tree_begin_def Cursor_seekBegin_def Cursor_bindTree_def Cursor_reset_def Cursor_new_def tree_end_def
        Cursor_previous_def enterLeafAtEnd_def leaf_at_def)
qed

section \<open>Scans\<close>

text \<open>
  What a loop that reads the entry under the cursor and then steps collects, in at most \<open>n\<close> rounds,
  until the cursor is not valid or a step fails.
\<close>

fun scan_with :: "('w target \<Rightarrow> cursor_op) \<Rightarrow> nat \<Rightarrow> 'w btree \<Rightarrow> cursor \<Rightarrow> (key \<times> page_ref) list" where
  "scan_with step 0 t c = []"
| "scan_with step (Suc n) t c =
     (case (Cursor_valid (TreeTarget t) c, Cursor_currentKey (TreeTarget t) c, Cursor_currentReference (TreeTarget t) c) of
        (True, Some k, Done r) \<Rightarrow>
          (k, r) # (case step (TreeTarget t) c of (Done _, c') \<Rightarrow> scan_with step n t c' | _ \<Rightarrow> [])
      | _ \<Rightarrow> [])"

lemma entry_row:
  assumes "leaf_row t ls" "i < length ls" "j < length (lf_keys (snd (ls ! i)))"
  shows "Cursor_valid (TreeTarget t) (cursor_at (fst (ls ! i)) j)"
    "Cursor_currentKey (TreeTarget t) (cursor_at (fst (ls ! i)) j) = Some (lf_keys (snd (ls ! i)) ! j)"
    "Cursor_currentReference (TreeTarget t) (cursor_at (fst (ls ! i)) j) = Done (lf_refs (snd (ls ! i)) ! j)"
  using leaf_atD [OF assms(1,2)] assms(3)
  by (simp_all add: leaf_at_def Cursor_valid_def Cursor_currentKey_def Cursor_currentReference_def leaf_referenceAt_def)

lemma scan_next:
  assumes "leaf_row t ls" "i < length ls" "j < length (lf_keys (snd (ls ! i)))"
    "length (entries_of ls) \<le> n"
  shows "scan_with Cursor_next n t (cursor_at (fst (ls ! i)) j) =
    drop j (zip (lf_keys (snd (ls ! i))) (lf_refs (snd (ls ! i)))) @ entries_of (drop (Suc i) ls)"
proof -
  have "scan_with Cursor_next n t (cursor_at (fst (ls ! i)) j) =
      drop j (zip (lf_keys (snd (ls ! i))) (lf_refs (snd (ls ! i)))) @ entries_of (drop (Suc i) ls)"
    if "i < length ls" "j < length (lf_keys (snd (ls ! i)))" 
      "length (lf_keys (snd (ls ! i))) - j + length (entries_of (drop (Suc i) ls)) \<le> n" for n i j
    using that
  proof (induction n arbitrary: i j)
    case (Suc n)
    note e = entry_row [OF assms(1) Suc.prems(1,2)] and s = next_row [OF assms(1) Suc.prems(1,2)]
    have l: "length (lf_refs (snd (ls ! i))) = length (lf_keys (snd (ls ! i)))"
      using leaf_atD [OF assms(1) Suc.prems(1)] by (simp add: leaf_at_def)
    then have d: "drop j (zip (lf_keys (snd (ls ! i))) (lf_refs (snd (ls ! i)))) =
      (lf_keys (snd (ls ! i)) ! j, lf_refs (snd (ls ! i)) ! j) # drop (Suc j) (zip (lf_keys (snd (ls ! i))) (lf_refs (snd (ls ! i))))"
      using Suc.prems(2) by (subst Cons_nth_drop_Suc [symmetric]) auto
    show ?case
    proof (cases "Suc j < length (lf_keys (snd (ls ! i)))")
      case True
      then show ?thesis using Suc.IH [of i "Suc j"] Suc.prems e s d by simp
    next
      case False
      then have z: "drop (Suc j) (zip (lf_keys (snd (ls ! i))) (lf_refs (snd (ls ! i)))) = []" by simp
      show ?thesis
      proof (cases "Suc i < length ls")
        case True
        have x: "entries_of (drop (Suc i) ls) =
            zip (lf_keys (snd (ls ! Suc i))) (lf_refs (snd (ls ! Suc i))) @ entries_of (drop (Suc (Suc i)) ls)"
          using True by (subst Cons_nth_drop_Suc [symmetric]) (simp_all add: entries_of_def)
        have k: "0 < length (lf_keys (snd (ls ! Suc i)))" "length (lf_refs (snd (ls ! Suc i))) = length (lf_keys (snd (ls ! Suc i)))"
          using leaf_atD [OF assms(1) True] by (simp_all add: leaf_at_def)
        have "length (lf_keys (snd (ls ! Suc i))) - 0 + length (entries_of (drop (Suc (Suc i)) ls)) \<le> n"
          using Suc.prems(2,3) x k(2) by simp
        from Suc.IH [OF True k(1) this] show ?thesis using False True e s d z x by simp
      next
        case last: False
        then show ?thesis using False e s d z by (simp add: entries_of_def)
      qed
    qed
  qed simp
  moreover have "length (entries_of ls) \<ge> length (lf_keys (snd (ls ! i))) - j + length (entries_of (drop (Suc i) ls))"
  proof -
    have "ls = take i ls @ ls ! i # drop (Suc i) ls" using assms(2) by (rule id_take_nth_drop)
    then have "length (entries_of ls) = length (entries_of (take i ls @ ls ! i # drop (Suc i) ls))" by simp
    also have "\<dots> \<ge> length (lf_keys (snd (ls ! i))) + length (entries_of (drop (Suc i) ls))"
      using leaf_atD [OF assms(1,2)] by (simp add: entries_of_def leaf_at_def)
    finally show ?thesis by linarith
  qed
  ultimately show ?thesis using assms by simp
qed

lemma scan_previous:
  assumes "leaf_row t ls" "i < length ls" "j < length (lf_keys (snd (ls ! i)))"
    "length (entries_of (take i ls)) + Suc j \<le> n"
  shows "scan_with Cursor_previous n t (cursor_at (fst (ls ! i)) j) =
    rev (entries_of (take i ls) @ take (Suc j) (zip (lf_keys (snd (ls ! i))) (lf_refs (snd (ls ! i)))))"
  using assms(2-4)
proof (induction n arbitrary: i j)
  case (Suc n)
  note e = entry_row [OF assms(1) Suc.prems(1,2)] and s = previous_row [OF assms(1) Suc.prems(1,2)]
  have l: "length (lf_refs (snd (ls ! i))) = length (lf_keys (snd (ls ! i)))"
    using leaf_atD [OF assms(1) Suc.prems(1)] by (simp add: leaf_at_def)
  have d: "take (Suc j) (zip (lf_keys (snd (ls ! i))) (lf_refs (snd (ls ! i)))) =
      take j (zip (lf_keys (snd (ls ! i))) (lf_refs (snd (ls ! i)))) @ [(lf_keys (snd (ls ! i)) ! j, lf_refs (snd (ls ! i)) ! j)]"
    using Suc.prems(2) l by (simp add: take_Suc_conv_app_nth)
  show ?case
  proof (cases j)
    case (Suc j')
    then show ?thesis using Suc.IH [of i j'] Suc.prems e s d by simp
  next
    case 0
    show ?thesis
    proof (cases i)
      case (Suc i')
      let ?m = "length (lf_keys (snd (ls ! i')))"
      have i': "i' < length ls" using Suc Suc.prems(1) by simp
      have k: "0 < ?m" "length (lf_refs (snd (ls ! i'))) = ?m" using leaf_atD [OF assms(1) i'] by (simp_all add: leaf_at_def)
      have x: "entries_of (take i ls) = entries_of (take i' ls) @ zip (lf_keys (snd (ls ! i'))) (lf_refs (snd (ls ! i')))"
        using i' by (simp add: Suc take_Suc_conv_app_nth entries_of_def)
      have "?m - 1 < ?m" "length (entries_of (take i' ls)) + Suc (?m - 1) \<le> n" using k Suc.prems(3) x by simp_all
      from Suc.IH [OF i' this] k show ?thesis using Suc 0 e s d x by simp
    next
      case first: 0
      then show ?thesis using 0 e s d by (simp add: entries_of_def)
    qed
  qed
qed simp

lemma row_search:
  assumes "search_tree t (bt_rootId t) ps es" "leaf_row t ls"
  shows "es = entries_of ls \<and> (\<exists>i path. i < length ls \<and> sorted (lf_keys (snd (ls ! i))) \<and>
    descendLoop t k False (bt_rootId t) [] = Some (Done (fst (ls ! i), lowerBound (lf_keys (snd (ls ! i))) k, path)) \<and>
    (\<forall>j < i. \<forall>x \<in> set (lf_keys (snd (ls ! j))). x < k) \<and>
    (\<forall>j < length ls. i < j \<longrightarrow> (\<forall>x \<in> set (lf_keys (snd (ls ! j))). k < x)))"
  using assms(1)
proof (cases rule: search_tree.cases)
  case (leaf n)
  then have r: "map fst ls = [bt_rootId t]" using assms(2) by (auto simp: leaf_row_def)
  then obtain x where x: "ls = [x]" "fst x = bt_rootId t" by (cases ls) auto
  then have "leaf_at t x" using leaf_atD [OF assms(2), of 0] by simp
  then have "snd x = n" using leaf x(2) by (simp add: leaf_at_def)
  then show ?thesis
    using leaf x descend_leaf(1) [OF leaf(3,4), of k "[]"] by (auto simp: entries_of_def leaf_wf_def leaf_ordered_def)
next
  case (node n pss ess)
  note m = row_internal [OF assms(2) node(4)]
  have len: "length ls = length (in_children n)" by (metis m(2) length_map)
  have child: "bt_leaves t (pr_pageId (in_children n ! j)) = Some (snd (ls ! j)) \<and> leaf_wf (snd (ls ! j)) \<and>
      ess ! j = zip (lf_keys (snd (ls ! j))) (lf_refs (snd (ls ! j)))" if "j < length ls" for j
  proof -
    have p: "pr_pageId (in_children n ! j) = fst (ls ! j)" using that len m(2) by (metis nth_map)
    have l: "bt_leaves t (fst (ls ! j)) = Some (snd (ls ! j))" using leaf_atD [OF assms(2) that] by (simp add: leaf_at_def)
    have "search_tree t (fst (ls ! j)) (pss ! j) (ess ! j)" using node(9) [of j] that len p by simp
    then show ?thesis using l p by (cases rule: search_tree.cases) simp_all
  qed
  have "ess = map (\<lambda>x. zip (lf_keys (snd x)) (lf_refs (snd x))) ls"
    using child len node(8) by (intro nth_equalityI) simp_all
  then have es: "es = entries_of ls" using node(2) by (simp add: entries_of_def)
  define i where "i = lowerBound (in_keys n) k"
  note lb = lowerBound_spec [OF node(5), of k]
  have i: "i < length ls" using lb(1) node(6) len by (simp add: i_def)
  have keys: "fst ` set (ess ! j) = set (lf_keys (snd (ls ! j)))" if "j < length ls" for j
    using child [OF that] leaf_atD [OF assms(2) that] by (simp add: leaf_at_def set_map [symmetric] del: set_map)
  have "descendLoop t k False (bt_rootId t) [] = descendLoop t k False (fst (ls ! i))
      [\<lparr>fm_pageId = bt_rootId t, fm_childIndex = of_nat i, fm_pageRef = makeIndexRef (bt_rootId t)\<rparr>]"
    using node(3,4,9) i len m(2) by (subst descendLoop.simps) (simp add: i_def [symmetric] internal_childAt_def, metis nth_map)
  moreover have "pr_pageId (in_children n ! i) = fst (ls ! i)" using i len m(2) by (metis nth_map)
  ultimately have "\<exists>path. descendLoop t k False (bt_rootId t) [] = Some (Done (fst (ls ! i), lowerBound (lf_keys (snd (ls ! i))) k, path))"
    using descend_leaf(1) [of t "fst (ls ! i)" "snd (ls ! i)" k] child [OF i] by auto
  moreover have "sorted (lf_keys (snd (ls ! i)))" using child [OF i] by (simp add: leaf_wf_def leaf_ordered_def)
  moreover have "x < k" if "j < i" "x \<in> set (lf_keys (snd (ls ! j)))" for j x
  proof -
    have j: "j < length (in_keys n)" "in_keys n ! j < k" using that(1) lb by (auto simp: i_def)
    then have "x \<le> in_keys n ! j" using node(11) [of j] keys [of j] that i by (metis image_iff less_trans)
    then show ?thesis using j(2) by (rule le_less_trans)
  qed
  moreover have "k < x" if h: "j < length ls" "i < j" "x \<in> set (lf_keys (snd (ls ! j)))" for j x
  proof -
    obtain j' where j': "j = Suc j'" using h(2) by (cases j) auto
    then have "j' < length (in_keys n)" "k \<le> in_keys n ! j'" using h len node(6) lb(3) by (auto simp: i_def)
    moreover from this have "in_keys n ! j' < x" using node(11) [of j'] keys [of j] h j' by (metis image_iff)
    ultimately show ?thesis by simp
  qed
  ultimately show ?thesis using es i by blast
qed

text \<open>Splitting the entries of a row at one of its leaves.\<close>

lemma entries_split:
  assumes "i < length ls"
  shows "entries_of ls = entries_of (take i ls) @ zip (lf_keys (snd (ls ! i))) (lf_refs (snd (ls ! i))) @ entries_of (drop (Suc i) ls)"
  using arg_cong [OF id_take_nth_drop [OF assms], of entries_of] by (simp add: entries_of_def)

lemma entries_keys: "e \<in> set (entries_of ls) \<Longrightarrow> \<exists>j < length ls. fst e \<in> set (lf_keys (snd (ls ! j)))"
proof -
  obtain a b where e: "e = (a, b)" by (cases e)
  assume "e \<in> set (entries_of ls)"
  then obtain x where x: "x \<in> set ls" "fst e \<in> set (lf_keys (snd x))"
    by (auto simp: e entries_of_def dest: set_zip_leftD)
  then show ?thesis by (auto simp: in_set_conv_nth [of x ls])
qed

lemma filter_row:
  assumes "i < length ls" "length (lf_refs (snd (ls ! i))) = length (lf_keys (snd (ls ! i)))"
    "\<forall>j < i. \<forall>x \<in> set (lf_keys (snd (ls ! j))). \<not> P x" "\<forall>j < length ls. i < j \<longrightarrow> (\<forall>x \<in> set (lf_keys (snd (ls ! j))). P x)"
    "\<forall>j < q. \<not> P (lf_keys (snd (ls ! i)) ! j)" "\<forall>j. q \<le> j \<and> j < length (lf_keys (snd (ls ! i))) \<longrightarrow> P (lf_keys (snd (ls ! i)) ! j)"
  shows "filter (\<lambda>e. P (fst e)) (entries_of ls) =
    drop q (zip (lf_keys (snd (ls ! i))) (lf_refs (snd (ls ! i)))) @ entries_of (drop (Suc i) ls)"
proof -
  let ?z = "zip (lf_keys (snd (ls ! i))) (lf_refs (snd (ls ! i)))"
  have "\<not> P (fst e)" if "e \<in> set (entries_of (take i ls))" for e
    using entries_keys [OF that] assms(1,3) by auto
  then have a: "filter (\<lambda>e. P (fst e)) (entries_of (take i ls)) = []" by (simp add: filter_empty_conv)
  have "P (fst e)" if h: "e \<in> set (entries_of (drop (Suc i) ls))" for e
  proof -
    obtain j where "j < length ls - Suc i" "fst e \<in> set (lf_keys (snd (ls ! (Suc i + j))))"
      using entries_keys [OF h] by auto
    then show ?thesis using assms(4) [THEN spec [of _ "Suc i + j"]] by auto
  qed
  then have b: "filter (\<lambda>e. P (fst e)) (entries_of (drop (Suc i) ls)) = entries_of (drop (Suc i) ls)"
    by (simp add: filter_id_conv)
  have "\<forall>e \<in> set (take q ?z). \<not> P (fst e)" "\<forall>e \<in> set (drop q ?z). P (fst e)"
    using assms(2,5,6) by (auto simp: in_set_conv_nth)
  then have "filter (\<lambda>e. P (fst e)) (take q ?z @ drop q ?z) = drop q ?z"
    by (simp only: filter_append) (simp add: filter_empty_conv filter_id_conv)
  then have c: "filter (\<lambda>e. P (fst e)) ?z = drop q ?z" by simp
  show ?thesis using entries_split [OF assms(1)] a b c by simp
qed

lemma seek_scan:
  assumes "search_tree t (bt_rootId t) ps es" "leaf_row t ls" "length es \<le> n"
    "\<And>x. x < k \<Longrightarrow> \<not> P x" "\<And>x. k < x \<Longrightarrow> P x"
    "\<And>m. sorted (lf_keys m) \<Longrightarrow> position m (lowerBound (lf_keys m) k) \<le> length (lf_keys m) \<and>
       (\<forall>j < position m (lowerBound (lf_keys m) k). \<not> P (lf_keys m ! j)) \<and>
       (\<forall>j. position m (lowerBound (lf_keys m) k) \<le> j \<and> j < length (lf_keys m) \<longrightarrow> P (lf_keys m ! j))"
  shows "\<exists>res c'. tree_seekFrom position k t c = (res, c') \<and>
    scan_with Cursor_next n t c' = filter (\<lambda>e. P (fst e)) es \<and> (res = Done () \<longleftrightarrow> (\<exists>e \<in> set es. P (fst e)))"
proof -
  obtain i path where i: "i < length ls" "sorted (lf_keys (snd (ls ! i)))"
    "descendLoop t k False (bt_rootId t) [] = Some (Done (fst (ls ! i), lowerBound (lf_keys (snd (ls ! i))) k, path))"
    "\<forall>j < i. \<forall>x \<in> set (lf_keys (snd (ls ! j))). x < k"
    "\<forall>j < length ls. i < j \<longrightarrow> (\<forall>x \<in> set (lf_keys (snd (ls ! j))). k < x)" and es: "es = entries_of ls"
    using row_search [OF assms(1,2), of k] by blast
  let ?m = "snd (ls ! i)"
  define q where "q = position ?m (lowerBound (lf_keys ?m) k)"
  note pos = assms(6) [OF i(2), folded q_def]
  have m: "bt_leaves t (fst (ls ! i)) = Some ?m" "unat (node_keyCount ?m) = length (lf_keys ?m)" "node_pageId ?m = fst (ls ! i)"
    "length (lf_refs ?m) = length (lf_keys ?m)"
    using leaf_atD [OF assms(2) i(1)] by (simp_all add: leaf_at_def)
  have e: "\<not> tree_empty t" using assms(2) by (simp add: leaf_row_def)
  have f: "filter (\<lambda>e. P (fst e)) es = drop q (zip (lf_keys ?m) (lf_refs ?m)) @ entries_of (drop (Suc i) ls)"
    unfolding es using i m(4) pos assms(4,5) by (intro filter_row) auto
  have run: "tree_seekFrom position k t c =
    (if q \<ge> length (lf_keys ?m) then advanceToNextLeaf (TreeTarget t) (cursor_at (fst (ls ! i)) q)
     else (Done (), cursor_at (fst (ls ! i)) q))"
    using e i(3) m by (cases c) (simp add: tree_seekFrom_def descendToLeaf_def Let_def q_def Cursor_bindTree_def Cursor_reset_def)
  have ex: "(\<exists>e \<in> set es. P (fst e)) \<longleftrightarrow> filter (\<lambda>e. P (fst e)) es \<noteq> []" by (simp add: filter_empty_conv)
  show ?thesis
  proof (cases "q < length (lf_keys ?m)")
    case True
    then have "scan_with Cursor_next n t (cursor_at (fst (ls ! i)) q) = filter (\<lambda>e. P (fst e)) es"
      using scan_next [OF assms(2) i(1) True] assms(3) es f by simp
    moreover have "filter (\<lambda>e. P (fst e)) es \<noteq> []" using f True m(4) by simp
    ultimately show ?thesis using run True ex by simp
  next
    case False
    then have z: "drop q (zip (lf_keys ?m) (lf_refs ?m)) = []" by simp
    note adv = advance_row [OF assms(2) i(1), of q]
    show ?thesis
    proof (cases "Suc i < length ls")
      case True
      let ?k = "lf_keys (snd (ls ! Suc i))"
      have k: "0 < length ?k" "length (lf_refs (snd (ls ! Suc i))) = length ?k"
        using leaf_atD [OF assms(2) True] by (simp_all add: leaf_at_def)
      have x: "entries_of (drop (Suc i) ls) = zip ?k (lf_refs (snd (ls ! Suc i))) @ entries_of (drop (Suc (Suc i)) ls)"
        using True by (subst Cons_nth_drop_Suc [symmetric]) (simp_all add: entries_of_def)
      then have "entries_of (drop (Suc i) ls) \<noteq> []" using k by auto
      then show ?thesis
        using scan_next [OF assms(2) True k(1), of n] assms(3) es f z x run False adv True ex by simp
    next
      case last: False
      then have "scan_with Cursor_next n t ((cursor_at (fst (ls ! i)) q)\<lparr>cu_atEnd := True\<rparr>) = []"
        by (cases n) (simp_all add: Cursor_valid_def)
      then show ?thesis using last False run adv ex f z by (simp add: entries_of_def)
    qed
  qed
qed

section \<open>Properties\<close>

lemma sample_leaf_at:
  assumes "b \<le> a + 158" "b \<le> 4294967296" "a < b" "bt_leaves t p = Some (sample_leaf p a b)" "bt_internals t p = None"
  shows "leaf_at t (p, sample_leaf p a b)"
proof -
  note new = leaf_create_new [of BTreeNodeConfig p]
  have "node_pageId (sample_leaf p a b) = p"
    using new leaf_with_layout(3) [of "leaf_create p BTreeNodeConfig"] by (simp add: sample_leaf_def leaf_wf_def sample_config)
  then show ?thesis
    using assms sample_leaf_wf [OF assms(1,2), of p] by (simp add: leaf_at_def) (simp add: sample_leaf_def)
qed

lemma sample_internal_count:
  "length ks < 4294967296 \<Longrightarrow> unat (node_keyCount (internal_with ks cs (internal_create p BTreeNodeConfig))) = length ks"
  using internal_create_new [of BTreeNodeConfig p]
  by (simp add: internal_with_fields internal_wf_def sample_config unat_of_nat)

lemma two_leaf_row: "leaf_row two_leaf_tree [(8, sample_leaf 8 0 100), (9, sample_leaf 9 159 258)]"
proof -
  have "leaf_at two_leaf_tree (8, sample_leaf 8 0 100)" "leaf_at two_leaf_tree (9, sample_leaf 9 159 258)"
    by (rule sample_leaf_at; simp add: two_leaf_tree_def)+
  then show ?thesis
    using sample_internal_count [of "[UInt32 158]" "[makeIndexRef 8, makeIndexRef 9]" 10]
    by (simp add: leaf_row_def two_leaf_tree_def tree_new_def tree_empty_def kInvalidPageId_def makeIndexRef_def PageReference_make_def)
qed

text \<open>
  C10. Iteration visits the whole tree: on a search tree of at most two levels without empty leaves,
  stepping forward from the beginning yields every entry in key order, and stepping back from the
  end yields them all in reverse.
\<close>

theorem cursor_visits_all:
  assumes "search_tree t (bt_rootId t) ps es" "leaf_row t ls" "length es \<le> n"
  shows "\<exists>c c'. tree_begin t = (Done (), c) \<and> scan_with Cursor_next n t c = es \<and>
    Cursor_previous (TreeTarget t) tree_end = (Done (), c') \<and> scan_with Cursor_previous n t c' = rev es"
proof -
  have es: "es = entries_of ls" using row_search [OF assms(1,2)] by blast
  note b = begin_row [OF assms(2)]
  let ?l = "length ls - 1"
  have i: "0 < length ls" "?l < length ls" "last ls = ls ! ?l" using b(1) by (simp_all add: last_conv_nth)
  have k: "0 < length (lf_keys (snd (ls ! 0)))" "0 < length (lf_keys (snd (ls ! ?l)))"
    "length (lf_refs (snd (ls ! ?l))) = length (lf_keys (snd (ls ! ?l)))"
    using leaf_atD [OF assms(2) i(1)] leaf_atD [OF assms(2) i(2)] by (simp_all add: leaf_at_def)
  have "scan_with Cursor_next n t (cursor_at (fst (ls ! 0)) 0) = es"
    using scan_next [OF assms(2) i(1) k(1)] assms(3) es entries_split [OF i(1)] by (simp add: entries_of_def)
  moreover have "entries_of ls = entries_of (take ?l ls) @ zip (lf_keys (snd (ls ! ?l))) (lf_refs (snd (ls ! ?l)))"
    using entries_split [OF i(2)] i(1) by (simp add: entries_of_def)
  then have "scan_with Cursor_previous n t (cursor_at (fst (ls ! ?l)) (length (lf_keys (snd (ls ! ?l))) - 1)) = rev es"
    using scan_previous [OF assms(2) i(2), of "length (lf_keys (snd (ls ! ?l))) - 1" n] k assms(3) es by simp
  ultimately show ?thesis using b(2,3) i(3) by simp
qed

theorem cursor_visits_all_witness:
  "\<exists>c c'. tree_begin two_leaf_tree = (Done (), c) \<and>
    scan_with Cursor_next 200 two_leaf_tree c = map (\<lambda>i. (UInt32 (of_nat i), makeIndexRef (of_nat i + 100))) ([0..<100] @ [159..<258]) \<and>
    Cursor_previous (TreeTarget two_leaf_tree) tree_end = (Done (), c') \<and>
    scan_with Cursor_previous 200 two_leaf_tree c' = rev (map (\<lambda>i. (UInt32 (of_nat i), makeIndexRef (of_nat i + 100))) ([0..<100] @ [159..<258]))"
proof -
  have "bt_rootId two_leaf_tree = 10" by (simp add: two_leaf_tree_def)
  then show ?thesis
    using cursor_visits_all [OF _ two_leaf_row, of _ _ 200] two_leaf_tree_search by (simp del: upt_rec_numeral map_append)
qed

text \<open>
  C9. Range scans: on such a tree a cursor placed with a lower bound yields exactly the entries
  whose key is at least the given one, in order, and one placed with an upper bound those whose
  key is greater; placing the cursor succeeds when there is such an entry.
\<close>

theorem range_scans_exact:
  assumes "search_tree t (bt_rootId t) ps es" "leaf_row t ls" "length es \<le> n"
  shows "(\<exists>res c'. tree_lowerBound k t c = (res, c') \<and> scan_with Cursor_next n t c' = filter (\<lambda>e. k \<le> fst e) es \<and>
      (res = Done () \<longleftrightarrow> (\<exists>e \<in> set es. k \<le> fst e))) \<and>
    (\<exists>res c'. tree_upperBound k t c = (res, c') \<and> scan_with Cursor_next n t c' = filter (\<lambda>e. k < fst e) es \<and>
      (res = Done () \<longleftrightarrow> (\<exists>e \<in> set es. k < fst e)))"
proof (intro conjI)
  show "\<exists>res c'. tree_lowerBound k t c = (res, c') \<and> scan_with Cursor_next n t c' = filter (\<lambda>e. k \<le> fst e) es \<and>
      (res = Done () \<longleftrightarrow> (\<exists>e \<in> set es. k \<le> fst e))"
    unfolding tree_lowerBound_def by (rule seek_scan [OF assms]) (use lowerBound_spec in \<open>auto simp: not_le\<close>)
  show "\<exists>res c'. tree_upperBound k t c = (res, c') \<and> scan_with Cursor_next n t c' = filter (\<lambda>e. k < fst e) es \<and>
      (res = Done () \<longleftrightarrow> (\<exists>e \<in> set es. k < fst e))"
    unfolding tree_upperBound_def by (rule seek_scan [OF assms]) (use upperBound_spec in \<open>auto simp: not_less\<close>)
qed

theorem range_scans_exact_witness:
  "\<exists>c'. tree_lowerBound (UInt32 120) two_leaf_tree Cursor_new = (Done (), c') \<and>
    scan_with Cursor_next 200 two_leaf_tree c' = map (\<lambda>i. (UInt32 (of_nat i), makeIndexRef (of_nat i + 100))) [159..<258]"
proof -
  let ?es = "map (\<lambda>i. (UInt32 (of_nat i), makeIndexRef (of_nat i + 100))) ([0..<100] @ [159..<258])"
  have r: "bt_rootId two_leaf_tree = 10" by (simp add: two_leaf_tree_def)
  have n: "length ?es \<le> 200" by simp
  have f: "filter (\<lambda>e. UInt32 120 \<le> fst e) ?es = map (\<lambda>i. (UInt32 (of_nat i), makeIndexRef (of_nat i + 100))) [159..<258]"
  proof -
    have "filter (\<lambda>i. UInt32 120 \<le> UInt32 (of_nat i)) [0..<100] = []" "filter (\<lambda>i. UInt32 120 \<le> UInt32 (of_nat i)) [159..<258] = [159..<258]"
      by (auto simp: UInt32_order word_le_nat_alt unat_of_nat filter_empty_conv filter_id_conv simp del: upt_rec_numeral)
    then show ?thesis by (simp add: filter_map comp_def del: upt_rec_numeral)
  qed
  have "\<exists>e \<in> set ?es. UInt32 120 \<le> fst e"
    by (intro bexI [of _ "(UInt32 (of_nat 200), makeIndexRef (of_nat 200 + 100))"])
      (simp_all add: UInt32_order word_le_nat_alt unat_of_nat del: upt_rec_numeral of_nat_numeral)
  moreover obtain res c' where "tree_lowerBound (UInt32 120) two_leaf_tree Cursor_new = (res, c')"
    "scan_with Cursor_next 200 two_leaf_tree c' = filter (\<lambda>e. UInt32 120 \<le> fst e) ?es"
    "res = Done () \<longleftrightarrow> (\<exists>e \<in> set ?es. UInt32 120 \<le> fst e)"
    using range_scans_exact [OF two_leaf_tree_search [folded r] two_leaf_row, of 200 "UInt32 120" Cursor_new] n by blast
  ultimately show ?thesis using f by (intro exI [of _ c']) (simp only: simp_thms)
qed

text \<open>
  C23. In a deeper tree iteration skips leaves: from the last entry of a leaf that is no child of the
  root, wherever the leaf is, the next step goes to the first leaf below the root's second child.
\<close>

theorem deep_iteration_skips:
  assumes "\<not> tree_empty t" "bt_internals t (bt_rootId t) = Some r" "0 < node_keyCount r"
    "length (in_children r) = Suc (unat (node_keyCount r))" "p \<noteq> bt_rootId t" "p \<notin> pr_pageId ` set (in_children r)"
    "bt_leaves t p = Some n" "Suc j = unat (node_keyCount n)" "leftmostLoop t (pr_pageId (in_children r ! 1)) = Some (Done q)"
  shows "Cursor_next (TreeTarget t) (cursor_at p j) = (Done (), cursor_at q 0)"
proof -
  have f: "findChild r p is = Done 0" if "set is \<subseteq> {0..<length (in_children r)}" for "is"
    using that assms(6) by (induction "is") (auto simp: internal_childAt_def)
  have path: "leafPath t p = Done [\<lparr>fm_pageId = bt_rootId t, fm_childIndex = 0, fm_pageRef = makeIndexRef (bt_rootId t)\<rparr>]"
    using f [of "[0..<unat (node_keyCount r) + 1]"] assms(2,4,5) by (auto simp: leafPath_def)
  have "1 \<le> node_keyCount r" "1 < length (in_children r)"
    using assms(3,4) by (simp_all add: word_le_nat_alt word_less_nat_alt)
  then have "advanceToNextLeaf (TreeTarget t) (cursor_at p j) = (Done (), cursor_at q 0)"
    using assms(1,2,9) path by (simp add: advanceToNextLeaf_def internal_childAt_def)
  moreover have "add_sz j 1 = unat (node_keyCount n)"
  proof -
    have "unat (node_keyCount n) \<le> 4294967295" by simp
    then have "Suc j < 18446744073709551616" using assms(8) by linarith
    then show ?thesis using assms(8) by (simp add: add_sz_def)
  qed
  ultimately show ?thesis using assms(7) by (simp add: Cursor_next_def)
qed

text \<open>Four leaves below two internal nodes: after page 1 comes page 2, but the step goes to page 3.\<close>

definition three_level_tree :: "unit btree" where
  "three_level_tree = (tree_new (SpaceManager_new FirstFitPolicy) BTreeNodeConfig ())
     \<lparr>bt_rootId := 20, bt_height := 3,
      bt_leaves := [1 \<mapsto> sample_leaf 1 0 100, 2 \<mapsto> sample_leaf 2 100 200, 3 \<mapsto> sample_leaf 3 200 300, 4 \<mapsto> sample_leaf 4 300 400],
      bt_internals :=
        [20 \<mapsto> internal_with [UInt32 199] [makeIndexRef 10, makeIndexRef 11] (internal_create 20 BTreeNodeConfig),
         10 \<mapsto> internal_with [UInt32 99] [makeIndexRef 1, makeIndexRef 2] (internal_create 10 BTreeNodeConfig),
         11 \<mapsto> internal_with [UInt32 299] [makeIndexRef 3, makeIndexRef 4] (internal_create 11 BTreeNodeConfig)]\<rparr>"

theorem deep_iteration_skips_witness:
  "Cursor_next (TreeTarget three_level_tree) (cursor_at 1 99) = (Done (), cursor_at 3 0)"
proof (rule deep_iteration_skips)
  show "bt_internals three_level_tree (bt_rootId three_level_tree) =
    Some (internal_with [UInt32 199] [makeIndexRef 10, makeIndexRef 11] (internal_create 20 BTreeNodeConfig))"
    by (simp add: three_level_tree_def)
  show "bt_leaves three_level_tree 1 = Some (sample_leaf 1 0 100)" by (simp add: three_level_tree_def)
  show "Suc 99 = unat (node_keyCount (sample_leaf 1 0 100))" by (simp add: sample_leaf_wf)
  show "\<not> tree_empty three_level_tree" "1 \<noteq> bt_rootId three_level_tree"
    by (simp_all add: three_level_tree_def tree_empty_def kInvalidPageId_def)
  show "leftmostLoop three_level_tree (pr_pageId (in_children
      (internal_with [UInt32 199] [makeIndexRef 10, makeIndexRef 11] (internal_create 20 BTreeNodeConfig)) ! 1)) = Some (Done 3)"
    by (subst leftmostLoop.simps, subst leftmostLoop.simps)
      (simp add: three_level_tree_def tree_new_def internal_childAt_def makeIndexRef_def PageReference_make_def)
qed (simp_all add: sample_internal_count word_less_nat_alt makeIndexRef_def PageReference_make_def)

end
