(* ===== verification/Catalog.thy ===== *)
theory Catalog
  imports Format
begin

unbundle bit_operations_syntax

text \<open>
  The catalog of schema and metadata descriptors (Catalog.h, Catalog.cpp) and the version checks of
  VersionCompatibility.cpp. Both tables of the catalog are finite maps from the identifier a
  descriptor carries; the order in which they are listed is an argument.
\<close>

record catalog =
  cat_schemas :: "u32 \<rightharpoonup> schema_descriptor"
  cat_metadata :: "u32 \<rightharpoonup> metadata_descriptor"

definition Catalog_new :: catalog where
  "Catalog_new = \<lparr>cat_schemas = Map.empty, cat_metadata = Map.empty\<rparr>"

definition registerSchema :: "schema_descriptor \<Rightarrow> (catalog, unit) op" where
  "registerSchema schema c =
     (if \<not> SchemaDescriptor_isValid schema then (Inl (invalidArgument ''Catalog: invalid schema descriptor''), c)
      else (Inr (), c\<lparr>cat_schemas := (cat_schemas c)(sd_schemaId schema \<mapsto> schema)\<rparr>))"

definition registerMetadata :: "metadata_descriptor \<Rightarrow> (catalog, unit) op" where
  "registerMetadata meta c =
     (if \<not> MetadataDescriptor_isValid meta then (Inl (invalidArgument ''Catalog: invalid metadata descriptor''), c)
      else (Inr (), c\<lparr>cat_metadata := (cat_metadata c)(md_typeId meta \<mapsto> meta)\<rparr>))"

definition findSchema :: "u32 \<Rightarrow> catalog \<Rightarrow> status + schema_descriptor" where
  "findSchema schemaId c =
     (case cat_schemas c schemaId of
        None \<Rightarrow> Inl (invalidArgument ''Catalog: schema not found'')
      | Some schema \<Rightarrow> Inr schema)"

definition findMetadata :: "u32 \<Rightarrow> catalog \<Rightarrow> status + metadata_descriptor" where
  "findMetadata typeId c =
     (case cat_metadata c typeId of
        None \<Rightarrow> Inl (invalidArgument ''Catalog: metadata not found'')
      | Some meta \<Rightarrow> Inr meta)"

definition schemaIds :: "(u32 set \<Rightarrow> u32 list) \<Rightarrow> catalog \<Rightarrow> u32 list" where
  "schemaIds ord c = ord (dom (cat_schemas c))"

definition metadataTypeIds :: "(u32 set \<Rightarrow> u32 list) \<Rightarrow> catalog \<Rightarrow> u32 list" where
  "metadataTypeIds ord c = ord (dom (cat_metadata c))"

definition Catalog_clear :: "catalog \<Rightarrow> catalog" where
  "Catalog_clear c = c\<lparr>cat_schemas := Map.empty, cat_metadata := Map.empty\<rparr>"

section \<open>Versions\<close>

definition supportsFormat :: "u32 \<Rightarrow> u32 \<Rightarrow> bool" where
  "supportsFormat major minor =
     (if major > 1 then False else if major = 1 \<and> minor > 0 then False else True)"

definition supportsFeatures :: "feature_flags \<Rightarrow> bool" where
  "supportsFeatures flags = True"

definition currentFormatVersion :: u32 where
  "currentFormatVersion = encodeVersion 1 0"

section \<open>Lemmas\<close>

text \<open>Every descriptor of a catalog is valid and stored under its own identifier.\<close>

definition catalog_wf :: "catalog \<Rightarrow> bool" where
  "catalog_wf c \<longleftrightarrow>
     (\<forall>i d. cat_schemas c i = Some d \<longrightarrow> sd_schemaId d = i \<and> SchemaDescriptor_isValid d) \<and>
     (\<forall>i d. cat_metadata c i = Some d \<longrightarrow> md_typeId d = i \<and> MetadataDescriptor_isValid d)"

lemma catalog_wf_new: "catalog_wf Catalog_new"
  by (simp add: catalog_wf_def Catalog_new_def)

lemma registerSchema_wf: "catalog_wf c \<Longrightarrow> catalog_wf (snd (registerSchema d c))"
  by (auto simp: catalog_wf_def registerSchema_def)

lemma registerMetadata_wf: "catalog_wf c \<Longrightarrow> catalog_wf (snd (registerMetadata d c))"
  by (auto simp: catalog_wf_def registerMetadata_def)

text \<open>
  The contract both tables keep: a valid descriptor is found under its identifier from then on, an
  invalid one is refused and changes nothing.
\<close>

locale registry =
  fixes register :: "'d \<Rightarrow> (catalog, unit) op"
    and lookup :: "u32 \<Rightarrow> catalog \<Rightarrow> status + 'd"
    and ident :: "'d \<Rightarrow> u32"
    and valid :: "'d \<Rightarrow> bool"
  assumes register_ok: "valid d \<Longrightarrow> \<exists>c'. register d c = (Inr (), c') \<and> (\<forall>i. lookup i c' = (if i = ident d then Inr d else lookup i c))"
    and register_error: "\<not> valid d \<Longrightarrow> \<exists>st. register d c = (Inl st, c)"
begin

text \<open>After a sequence of registrations the last valid one of an identifier is found.\<close>

lemma register_sequence:
  "lookup i (fold (\<lambda>d c. snd (register d c)) ds c) =
     (case find (\<lambda>d. valid d \<and> ident d = i) (rev ds) of None \<Rightarrow> lookup i c | Some d \<Rightarrow> Inr d)"
proof (induction ds rule: rev_induct)
  case (snoc d ds)
  let ?c = "fold (\<lambda>d c. snd (register d c)) ds c"
  show ?case
  proof (cases "valid d")
    case True
    then obtain c' where "register d ?c = (Inr (), c')" "\<forall>i. lookup i c' = (if i = ident d then Inr d else lookup i ?c)"
      using register_ok by blast
    then show ?thesis using snoc True by simp
  next
    case False
    then obtain st where "register d ?c = (Inl st, ?c)" using register_error by blast
    then show ?thesis using snoc False by simp
  qed
qed simp

end

interpretation schemas: registry registerSchema findSchema sd_schemaId "\<lambda>d. SchemaDescriptor_isValid d"
  by unfold_locales (auto simp: registerSchema_def findSchema_def)

interpretation metadata: registry registerMetadata findMetadata md_typeId "\<lambda>d. MetadataDescriptor_isValid d"
  by unfold_locales (auto simp: registerMetadata_def findMetadata_def)

end
