(* ===== verification/LogFile.thy ===== *)
theory LogFile
  imports DiskFile Format Complex_Main
begin

text \<open>
  The write-ahead log up to its file: records (LogRecord.cpp, LogSequenceNumber.cpp), their
  validation (LogValidator.cpp), the buffer (LogBuffer.cpp), the counters (LogStatistics.cpp) and
  the log file (LogFile.cpp), all under src/src/wal.
\<close>

section \<open>Records\<close>

text \<open>A sequence number is its value; 0 is the invalid one and 1 the initial one.\<close>

type_synonym lsn = u64

definition lsn_next :: "lsn \<Rightarrow> lsn" where "lsn_next v = v + 1"

definition isValidRecordType :: "u8 \<Rightarrow> bool" where
  "isValidRecordType type \<longleftrightarrow> type > 0 \<and> type \<le> 9"

record log_record =
  lr_type :: u8
  lr_lsn :: lsn
  lr_timestamp :: u64
  lr_pageId :: PageId
  lr_transactionId :: u64
  lr_checksum :: u32
  lr_reserved0 :: u32
  lr_reserved1 :: u32
  lr_payload :: "u8 list"

definition LogRecord_new :: log_record where
  "LogRecord_new = \<lparr>lr_type = 0, lr_lsn = 0, lr_timestamp = 0, lr_pageId = kInvalidPageId, lr_transactionId = 0,
     lr_checksum = 0, lr_reserved0 = 0, lr_reserved1 = 0, lr_payload = []\<rparr>"

text \<open>\<open>ts\<close> is the reading of the clock.\<close>

definition LogRecord_make :: "u64 \<Rightarrow> u8 \<Rightarrow> PageId \<Rightarrow> u64 \<Rightarrow> log_record" where
  "LogRecord_make ts type pid txn =
     LogRecord_new\<lparr>lr_type := type, lr_pageId := pid, lr_transactionId := txn, lr_timestamp := ts\<rparr>"

definition wireSize :: "log_record \<Rightarrow> nat" where
  "wireSize r = 1 + 4 + 8 * 2 + 4 + 8 + 4 * 3 + length (lr_payload r)"

definition record_serialize :: "log_record \<Rightarrow> (writer, unit) op" where
  "record_serialize r =
     (let payloadLen = (of_nat (length (lr_payload r)) :: u32)
      in thenS (write_word (lr_type r)) (thenS (write_word (lr_lsn r)) (thenS (write_word (lr_timestamp r))
        (thenS (write_word (lr_pageId r)) (thenS (write_word (lr_transactionId r)) (thenS (write_word payloadLen)
        (thenS (write_word (lr_checksum r)) (thenS (write_word (lr_reserved0 r)) (thenS (write_word (lr_reserved1 r))
        (if payloadLen > 0 then writeBytes (lr_payload r) else ret ()))))))))))"

text \<open>A field that is read is stored; one that cannot be read is left alone.\<close>

definition read_field :: "(reader, 'a) op \<Rightarrow> ('a \<Rightarrow> 'r \<Rightarrow> 'r) \<Rightarrow> (reader \<times> 'r, unit) op" where
  "read_field rd store s =
     (case rd (fst s) of
        (Inl st, r) \<Rightarrow> (Inl st, (r, snd s))
      | (Inr x, r) \<Rightarrow> (Inr (), (r, store x (snd s))))"

definition read_payload :: "u32 \<Rightarrow> (reader \<times> log_record, unit) op" where
  "read_payload n s =
     (case s of (r, rec) \<Rightarrow>
        if n > 0
        then (case readBytes (unat n) r of
                (Inl st, r') \<Rightarrow> (Inl st, (r', rec\<lparr>lr_payload := replicate (unat n) 0\<rparr>))
              | (Inr bs, r') \<Rightarrow> (Inr (), (r', rec\<lparr>lr_payload := bs\<rparr>)))
        else (Inr (), (r, rec\<lparr>lr_payload := []\<rparr>)))"

text \<open>The length of the payload is a local variable; it travels beside the record.\<close>

definition record_deserialize :: "(reader \<times> log_record, unit) op" where
  "record_deserialize s =
     (case s of (r0, rec0) \<Rightarrow>
        case thenS (read_field read_word (\<lambda>v x. (fst x, snd x\<lparr>lr_type := v\<rparr>)))
            (thenS (read_field read_word (\<lambda>v x. (fst x, snd x\<lparr>lr_lsn := v\<rparr>)))
            (thenS (read_field read_word (\<lambda>v x. (fst x, snd x\<lparr>lr_timestamp := v\<rparr>)))
            (thenS (read_field read_word (\<lambda>v x. (fst x, snd x\<lparr>lr_pageId := v\<rparr>)))
            (thenS (read_field read_word (\<lambda>v x. (fst x, snd x\<lparr>lr_transactionId := v\<rparr>)))
            (thenS (read_field read_word (\<lambda>v x. (v, snd x)))
            (thenS (read_field read_word (\<lambda>v x. (fst x, snd x\<lparr>lr_checksum := v\<rparr>)))
            (thenS (read_field read_word (\<lambda>v x. (fst x, snd x\<lparr>lr_reserved0 := v\<rparr>)))
               (read_field read_word (\<lambda>v x. (fst x, snd x\<lparr>lr_reserved1 := v\<rparr>))))))))))
          (r0, (0 :: u32, rec0)) of
          (Inl st, (r, (_, rec))) \<Rightarrow> (Inl st, (r, rec))
        | (Inr _, (r, (payloadLen, rec))) \<Rightarrow> read_payload payloadLen (r, rec))"

section \<open>Validation\<close>

definition validateRecordHeader :: "log_record \<Rightarrow> status + unit" where
  "validateRecordHeader r =
     (if \<not> isValidRecordType (lr_type r) then Inl (corruption ''LogValidator: invalid record type'')
      else if lr_lsn r = 0 then Inl (corruption ''LogValidator: invalid LSN'')
      else if lr_timestamp r = 0 then Inl (corruption ''LogValidator: missing timestamp'')
      else Inr ())"

text \<open>The check of the reserved fields accepts everything.\<close>

definition validateRecord :: "log_record \<Rightarrow> status + unit" where
  "validateRecord r = (case validateRecordHeader r of Inl st \<Rightarrow> Inl st | Inr _ \<Rightarrow> Inr ())"

definition validateLsnOrdering :: "lsn \<Rightarrow> lsn \<Rightarrow> status + unit" where
  "validateLsnOrdering previous current =
     (if current = 0 then Inl (corruption ''LogValidator: invalid LSN in sequence'')
      else if previous \<noteq> 0 \<and> current \<le> previous
      then Inl (corruption ''LogValidator: LSN not strictly increasing'')
      else Inr ())"

section \<open>Statistics\<close>

text \<open>The average is an exact quotient.\<close>

record log_stats =
  ls_recordCount :: u64
  ls_bytesWritten :: u64
  ls_bytesRead :: u64
  ls_flushCount :: u64
  ls_bufferUsage :: nat
  ls_largestRecord :: nat
  ls_averageRecordSize :: real
  ls_currentLsn :: lsn
  ls_lastFlushedLsn :: lsn

definition LogStatistics_new :: log_stats where
  "LogStatistics_new = \<lparr>ls_recordCount = 0, ls_bytesWritten = 0, ls_bytesRead = 0, ls_flushCount = 0,
     ls_bufferUsage = 0, ls_largestRecord = 0, ls_averageRecordSize = 0, ls_currentLsn = 0, ls_lastFlushedLsn = 0\<rparr>"

definition stats_recordWrite :: "nat \<Rightarrow> log_stats \<Rightarrow> log_stats" where
  "stats_recordWrite n s =
     (let s1 = s\<lparr>ls_recordCount := ls_recordCount s + 1, ls_bytesWritten := ls_bytesWritten s + of_nat n\<rparr>
      in if ls_recordCount s1 > 0
         then s1\<lparr>ls_averageRecordSize := real (unat (ls_bytesWritten s1)) / real (unat (ls_recordCount s1))\<rparr>
         else s1)"

definition stats_updateLargestRecord :: "nat \<Rightarrow> log_stats \<Rightarrow> log_stats" where
  "stats_updateLargestRecord n s = (if n > ls_largestRecord s then s\<lparr>ls_largestRecord := n\<rparr> else s)"

section \<open>The buffer\<close>

record log_buffer =
  lb_buffer :: buffer
  lb_capacity :: nat

definition LogBuffer_new :: "nat \<Rightarrow> log_buffer" where
  "LogBuffer_new capacity =
     (let c = (if capacity > 0 then capacity else 64 * 1024)
      in \<lparr>lb_buffer = buffer_reserve c emptyBuffer, lb_capacity = c\<rparr>)"

definition LogBuffer_append :: "view \<Rightarrow> (log_buffer, unit) op" where
  "LogBuffer_append data b =
     (if add_sz (length (bytes (lb_buffer b))) (length data) > lb_capacity b
      then (Inl (outOfMemory ''LogBuffer: capacity exceeded''), b)
      else (case buffer_append data (lb_buffer b) of (res, buf) \<Rightarrow> (res, b\<lparr>lb_buffer := buf\<rparr>)))"

definition LogBuffer_reserve :: "nat \<Rightarrow> (log_buffer, unit) op" where
  "LogBuffer_reserve additionalBytes b =
     (if add_sz (length (bytes (lb_buffer b))) additionalBytes > lb_capacity b
      then (Inl (outOfMemory ''LogBuffer: reserve exceeds capacity''), b)
      else (Inr (), b\<lparr>lb_buffer := buffer_reserve (length (bytes (lb_buffer b)) + additionalBytes) (lb_buffer b)\<rparr>))"

text \<open>The sink works on a state of its own, beside the buffer.\<close>

definition LogBuffer_flush :: "(view \<Rightarrow> ('s, unit) op) \<Rightarrow> ('s \<times> log_buffer, unit) op" where
  "LogBuffer_flush sink s =
     (case s of (x, b) \<Rightarrow>
        if bytes (lb_buffer b) = [] then (Inr (), (x, b))
        else (case sink (bytes (lb_buffer b)) x of
                (Inl st, x') \<Rightarrow> (Inl st, (x', b))
              | (Inr _, x') \<Rightarrow> (Inr (), (x', b\<lparr>lb_buffer := buffer_clear (lb_buffer b)\<rparr>))))"

definition LogBuffer_clear :: "log_buffer \<Rightarrow> log_buffer" where
  "LogBuffer_clear b = b\<lparr>lb_buffer := buffer_clear (lb_buffer b)\<rparr>"

definition LogBuffer_remainingCapacity :: "log_buffer \<Rightarrow> nat" where
  "LogBuffer_remainingCapacity b =
     (if lb_capacity b > length (bytes (lb_buffer b)) then lb_capacity b - length (bytes (lb_buffer b)) else 0)"

section \<open>The log file\<close>

record wal_header =
  wh_magic :: u32
  wh_version :: u32
  wh_pageSize :: u32
  wh_reserved :: u32

definition wal_header_image :: "wal_header \<Rightarrow> u8 list" where
  "wal_header_image h = words_image [wh_magic h, wh_version h, wh_pageSize h, wh_reserved h]"

definition wal_header_of :: "u8 list \<Rightarrow> wal_header" where
  "wal_header_of bs =
     (let ws = words_of 4 bs in \<lparr>wh_magic = ws ! 0, wh_version = ws ! 1, wh_pageSize = ws ! 2, wh_reserved = ws ! 3\<rparr>)"

abbreviation kWalHeaderSize :: nat where "kWalHeaderSize \<equiv> 16"
abbreviation kWalFormatVersion :: u32 where "kWalFormatVersion \<equiv> 1"

text \<open>
  The log file owns a database file; \<open>lf_attached\<close> says that its pointer to it is not null. Its
  operations run beside the file system.
\<close>

record log_file =
  lf_attached :: bool
  lf_file :: dbfile
  lf_appendOffset :: u64

type_synonym log_disk = "world \<times> log_file"

definition LogFile_new :: log_file where
  "LogFile_new = \<lparr>lf_attached = True, lf_file = DatabaseFile_default, lf_appendOffset = of_nat kWalHeaderSize\<rparr>"

definition LogFile_isOpen :: "log_disk \<Rightarrow> bool" where
  "LogFile_isOpen s \<longleftrightarrow> lf_attached (snd s) \<and> fs_open (df_stream (lf_file (snd s)))"

definition LogFile_fileSize :: "log_file \<Rightarrow> u64" where
  "LogFile_fileSize f = (if lf_attached f then df_size (lf_file f) else 0)"

definition on_db :: "(dbstate, 'a) op \<Rightarrow> (log_disk, 'a) op" where
  "on_db m s =
     (case m (fst s, lf_file (snd s)) of (res, (w, d)) \<Rightarrow> (res, (w, (snd s)\<lparr>lf_file := d\<rparr>)))"

definition set_appendOffset :: "u64 \<Rightarrow> (log_disk, unit) op" where
  "set_appendOffset offset s = (Inr (), (fst s, (snd s)\<lparr>lf_appendOffset := offset\<rparr>))"

definition LogFile_writeHeader :: "(log_disk, unit) op" where
  "LogFile_writeHeader =
     thenS (on_db (DatabaseFile_seek 0))
       (on_db (DatabaseFile_writeBytes (wal_header_image
          \<lparr>wh_magic = kJournalMagic, wh_version = kWalFormatVersion, wh_pageSize = of_nat kPageSize, wh_reserved = 0\<rparr>)))"

definition LogFile_readHeader :: "(log_disk, wal_header) op" where
  "LogFile_readHeader s =
     (if \<not> LogFile_isOpen s then (Inl (ioError ''LogFile: file not open''), s)
      else if LogFile_fileSize (snd s) < of_nat kWalHeaderSize
      then (Inl (corruption ''LogFile: file too small for header''), s)
      else thenS (on_db (DatabaseFile_seek 0))
             (bindS (on_db (DatabaseFile_readBytes (replicate kWalHeaderSize 0) kWalHeaderSize))
               (\<lambda>bs. ret (wal_header_of bs))) s)"

definition LogFile_create :: "string \<Rightarrow> (log_disk, unit) op" where
  "LogFile_create path s =
     (let s1 = (fst s, (snd s)\<lparr>lf_attached := True\<rparr>)
      in thenS (on_db (DatabaseFile_open path True))
           (thenS (set_appendOffset (of_nat kWalHeaderSize)) LogFile_writeHeader) s1)"

definition LogFile_open :: "string \<Rightarrow> bool \<Rightarrow> (log_disk, unit) op" where
  "LogFile_open path createIfMissing s =
     (let s1 = (fst s, (snd s)\<lparr>lf_attached := True\<rparr>)
      in case on_db (DatabaseFile_open path createIfMissing) s1 of
           (Inl st, s2) \<Rightarrow> (Inl st, s2)
         | (Inr _, s2) \<Rightarrow>
             (case LogFile_readHeader s2 of
                (Inl st, s3) \<Rightarrow>
                  if \<not> createIfMissing then (Inl st, s3)
                  else thenS (set_appendOffset (of_nat kWalHeaderSize)) LogFile_writeHeader s3
              | (Inr _, s3) \<Rightarrow> set_appendOffset (LogFile_fileSize (snd s3)) s3))"

definition LogFile_close :: "(log_disk, unit) op" where
  "LogFile_close s =
     (if \<not> lf_attached (snd s) then (Inr (), s)
      else (case on_db DatabaseFile_close s of (res, (w, f)) \<Rightarrow>
              (res, (w, f\<lparr>lf_attached := False, lf_appendOffset := of_nat kWalHeaderSize\<rparr>))))"

definition alignAppendOffset :: "(log_disk, unit) op" where
  "alignAppendOffset s =
     (let offset = lf_appendOffset (snd s); remainder = offset mod 8
      in if remainder = 0 then (Inr (), s)
         else let padding = 8 - remainder
              in thenS (on_db (DatabaseFile_writeBytes (replicate (unat padding) 0)))
                   (set_appendOffset (offset + padding)) s)"

definition LogFile_append :: "view \<Rightarrow> (log_disk, unit) op" where
  "LogFile_append data s =
     (if \<not> LogFile_isOpen s then (Inl (ioError ''LogFile: file not open''), s)
      else let offset = lf_appendOffset (snd s)
           in thenS (on_db (DatabaseFile_seek offset))
             (thenS (on_db (DatabaseFile_writeBytes data))
             (thenS (set_appendOffset (offset + of_nat (length data)))
                alignAppendOffset)) s)"

text \<open>The frame of a record: its size in front, filled in after the record was written.\<close>

definition tell :: "(writer, nat) op" where
  "tell w = (Inr (woffset w), w)"

definition record_frame :: "log_record \<Rightarrow> status + u8 list" where
  "record_frame r =
     (case thenS (write_word (0 :: u32))
          (bindS tell (\<lambda>bodyStart.
           thenS (record_serialize r)
          (bindS tell (\<lambda>bodyEnd.
             overwriteAt 0 (mem (of_nat (bodyEnd - bodyStart) :: u32)))))) (mkWriter emptyBuffer Little) of
        (Inl st, _) \<Rightarrow> Inl st
      | (Inr _, w) \<Rightarrow> Inr (bytes (wbuf w)))"

definition LogFile_appendRecord :: "log_record \<Rightarrow> (log_disk, unit) op" where
  "LogFile_appendRecord r =
     (case record_frame r of Inl st \<Rightarrow> fail st | Inr bs \<Rightarrow> LogFile_append bs)"

definition LogFile_readBytes :: "u64 \<Rightarrow> u8 list \<Rightarrow> nat \<Rightarrow> (log_disk, u8 list) op" where
  "LogFile_readBytes offset prior count s =
     (if \<not> LogFile_isOpen s then (Inl (ioError ''LogFile: file not open''), s)
      else thenS (on_db (DatabaseFile_seek offset)) (on_db (DatabaseFile_readBytes prior count)) s)"

text \<open>The number of bytes of a record of that size on disk, with its padding.\<close>

definition frame_span :: "u32 \<Rightarrow> u64" where
  "frame_span recordSize =
     (let bytesRead = 4 + ucast recordSize; remainder = bytesRead mod 8
      in if remainder \<noteq> 0 then bytesRead + (8 - remainder) else bytesRead)"

definition LogFile_readRecord :: "u64 \<Rightarrow> (log_disk \<times> log_record, u64) op" where
  "LogFile_readRecord offset x =
     (case x of (s, rec) \<Rightarrow>
        if \<not> LogFile_isOpen s then (Inl (ioError ''LogFile: file not open''), (s, rec))
        else case LogFile_readBytes offset (replicate 4 0) 4 s of
          (Inl st, s1) \<Rightarrow> (Inl st, (s1, rec))
        | (Inr sz, s1) \<Rightarrow>
            let recordSize = unmem sz :: u32
            in if recordSize = 0 then (Inl (corruption ''LogFile: zero-length record''), (s1, rec))
               else (case LogFile_readBytes (offset + 4) (replicate (unat recordSize) 0) (unat recordSize) s1 of
                  (Inl st, s2) \<Rightarrow> (Inl st, (s2, rec))
                | (Inr body, s2) \<Rightarrow>
                    (case reader_skip 4 (mkReader (sz @ body) Little) of
                       (Inl st, _) \<Rightarrow> (Inl st, (s2, rec))
                     | (Inr _, r) \<Rightarrow>
                         (case record_deserialize (r, rec) of
                            (Inl st, (_, rec')) \<Rightarrow> (Inl st, (s2, rec'))
                          | (Inr _, (_, rec')) \<Rightarrow> (Inr (frame_span recordSize), (s2, rec'))))))"

definition LogFile_flush :: "(log_disk, unit) op" where
  "LogFile_flush s =
     (if \<not> lf_attached (snd s) then (Inl (ioError ''LogFile: file not open''), s)
      else on_db DatabaseFile_flush s)"

definition LogFile_truncate :: "string \<Rightarrow> u64 \<Rightarrow> (log_disk, unit) op" where
  "LogFile_truncate what newSize s =
     (if \<not> lf_attached (snd s) then (Inl (ioError ''LogFile: file not open''), s)
      else if newSize < of_nat kWalHeaderSize then (Inl (invalidArgument ''LogFile: truncate below header size''), s)
      else thenS (on_db (DatabaseFile_resize what newSize)) (set_appendOffset newSize) s)"

definition LogFile_validate :: "(log_disk, unit) op" where
  "LogFile_validate s =
     (if \<not> LogFile_isOpen s then (Inl (ioError ''LogFile: file not open''), s)
      else bindS LogFile_readHeader (\<lambda>h.
             if wh_magic h \<noteq> kJournalMagic then fail (corruption ''LogFile: invalid WAL magic'')
             else if wh_version h \<noteq> kWalFormatVersion then fail (corruption ''LogFile: unsupported WAL version'')
             else ret ()) s)"

end
