(* ===== verification/LogManager.thy ===== *)
theory LogManager
  imports LogFile BTree
begin

text \<open>
  The write-ahead log above its file: writer (LogWriter.cpp), reader (LogReader.cpp), manager
  (LogManager.cpp) and the adapter that turns the notifications of a B-tree into records
  (BTreeWalAdapter.cpp), all under src/src/wal.
\<close>

section \<open>Writer\<close>

record log_writer =
  lw_buffer :: log_buffer
  lw_nextLsn :: lsn
  lw_currentLsn :: lsn
  lw_lastFlushedLsn :: lsn

record log_reader =
  rd_offset :: u64
  rd_lastLsn :: lsn
  rd_endOfLog :: bool

record log_manager =
  lm_file :: log_file
  lm_stats :: log_stats
  lm_writer :: log_writer
  lm_reader :: log_reader
  lm_initialized :: bool

definition LogWriter_new :: "nat \<Rightarrow> log_writer" where
  "LogWriter_new bufferCapacity =
     \<lparr>lw_buffer = LogBuffer_new bufferCapacity, lw_nextLsn = 1, lw_currentLsn = 0, lw_lastFlushedLsn = 0\<rparr>"

definition LogManager_new :: log_manager where
  "LogManager_new =
     \<lparr>lm_file = LogFile_new, lm_stats = LogStatistics_new, lm_writer = LogWriter_new (64 * 1024),
      lm_reader = \<lparr>rd_offset = of_nat kWalHeaderSize, rd_lastLsn = 0, rd_endOfLog = False\<rparr>, lm_initialized = False\<rparr>"

type_synonym log_state = "world \<times> log_manager"

definition on_log :: "(log_disk, 'a) op \<Rightarrow> (log_state, 'a) op" where
  "on_log m s =
     (case m (fst s, lm_file (snd s)) of (res, (w, f)) \<Rightarrow> (res, (w, (snd s)\<lparr>lm_file := f\<rparr>)))"

definition writeRecordToBuffer :: "log_record \<Rightarrow> (log_writer, unit) op" where
  "writeRecordToBuffer r w =
     (case record_frame r of
        Inl st \<Rightarrow> (Inl st, w)
      | Inr bs \<Rightarrow> (case LogBuffer_append bs (lw_buffer w) of (res, b) \<Rightarrow> (res, w\<lparr>lw_buffer := b\<rparr>)))"

text \<open>Appending uses the buffer and the counters only, not the file.\<close>

definition LogWriter_appendRecord :: "log_record \<Rightarrow> (log_manager, unit) op" where
  "LogWriter_appendRecord r0 m =
     (let w0 = lm_writer m;
          r = r0\<lparr>lr_lsn := lw_nextLsn w0\<rparr>;
          w1 = w0\<lparr>lw_currentLsn := lw_nextLsn w0, lw_nextLsn := lsn_next (lw_nextLsn w0)\<rparr>;
          m1 = m\<lparr>lm_writer := w1\<rparr>
      in case validateRecordHeader r of
           Inl st \<Rightarrow> (Inl st, m1)
         | Inr _ \<Rightarrow>
             (case writeRecordToBuffer r w1 of
                (Inl st, w2) \<Rightarrow> (Inl st, m1\<lparr>lm_writer := w2\<rparr>)
              | (Inr _, w2) \<Rightarrow>
                  let n = wireSize r + 4;
                      stats = stats_updateLargestRecord n (stats_recordWrite n (lm_stats m1))
                  in (Inr (), m1\<lparr>lm_writer := w2,
                        lm_stats := stats\<lparr>ls_bufferUsage := length (bytes (lb_buffer (lw_buffer w2))),
                                          ls_currentLsn := lw_currentLsn w2\<rparr>\<rparr>)))"

fun LogWriter_appendBatch :: "log_record list \<Rightarrow> (log_manager, unit) op" where
  "LogWriter_appendBatch [] = ret ()"
| "LogWriter_appendBatch (r # rs) = thenS (LogWriter_appendRecord r) (LogWriter_appendBatch rs)"

definition flushBufferToFile :: "(log_state, unit) op" where
  "flushBufferToFile s =
     (let w = lm_writer (snd s)
      in case LogBuffer_flush LogFile_append ((fst s, lm_file (snd s)), lw_buffer w) of (res, ((wd, f), b)) \<Rightarrow>
           (res, (wd, (snd s)\<lparr>lm_file := f, lm_writer := w\<lparr>lw_buffer := b\<rparr>\<rparr>)))"

definition note_flushed :: "log_manager \<Rightarrow> log_manager" where
  "note_flushed m =
     (let w = lm_writer m; stats = lm_stats m
      in m\<lparr>lm_writer := w\<lparr>lw_lastFlushedLsn := lw_currentLsn w\<rparr>,
           lm_stats := stats\<lparr>ls_flushCount := ls_flushCount stats + 1, ls_lastFlushedLsn := lw_currentLsn w\<rparr>\<rparr>)"

definition LogWriter_flush :: "(log_state, unit) op" where
  "LogWriter_flush =
     thenS flushBufferToFile (thenS (on_log LogFile_flush) (\<lambda>s. (Inr (), (fst s, note_flushed (snd s)))))"

text \<open>
  Scanning the log: \<open>None\<close> is a scan that never ends. The scan stops at the first record that
  cannot be read and returns the last sequence number it read.
\<close>

partial_function (option) restoreLoop :: "u64 \<Rightarrow> lsn \<Rightarrow> log_disk \<Rightarrow> (lsn \<times> log_disk) option" where
  "restoreLoop offset maxLsn s =
     (if offset < LogFile_fileSize (snd s)
      then (case LogFile_readRecord offset (s, LogRecord_new) of
              (Inl _, (s', _)) \<Rightarrow> Some (maxLsn, s')
            | (Inr bytesRead, (s', rec)) \<Rightarrow> restoreLoop (offset + bytesRead) (lr_lsn rec) s')
      else Some (maxLsn, s))"

definition LogWriter_restoreFromFile :: "log_state \<Rightarrow> log_state option" where
  "LogWriter_restoreFromFile s =
     (case restoreLoop (of_nat kWalHeaderSize) 0 (fst s, lm_file (snd s)) of
        None \<Rightarrow> None
      | Some (maxLsn, (w, f)) \<Rightarrow>
          let m = (snd s)\<lparr>lm_file := f\<rparr>
          in Some (w, if maxLsn \<noteq> 0
               then m\<lparr>lm_writer := (lm_writer m)\<lparr>lw_currentLsn := maxLsn, lw_nextLsn := lsn_next maxLsn,
                        lw_lastFlushedLsn := maxLsn\<rparr>,
                      lm_stats := (lm_stats m)\<lparr>ls_currentLsn := maxLsn, ls_lastFlushedLsn := maxLsn\<rparr>\<rparr>
               else m))"

section \<open>Reader\<close>

definition LogReader_rewind :: "log_reader \<Rightarrow> log_reader" where
  "LogReader_rewind r = \<lparr>rd_offset = of_nat kWalHeaderSize, rd_lastLsn = 0, rd_endOfLog = False\<rparr>"

definition set_reader :: "(log_reader \<Rightarrow> log_reader) \<Rightarrow> log_state \<Rightarrow> log_state" where
  "set_reader f s = (fst s, (snd s)\<lparr>lm_reader := f (lm_reader (snd s))\<rparr>)"

definition LogReader_readNext :: "(log_state \<times> log_record, unit) op" where
  "LogReader_readNext x =
     (case x of (s, rec) \<Rightarrow>
        let rd = lm_reader (snd s)
        in if rd_endOfLog rd then (Inl (invalidArgument ''LogReader: end of log''), (s, rec))
           else if rd_offset rd \<ge> LogFile_fileSize (lm_file (snd s))
           then (Inl (invalidArgument ''LogReader: end of log''), (set_reader (\<lambda>r. r\<lparr>rd_endOfLog := True\<rparr>) s, rec))
           else (case LogFile_readRecord (rd_offset rd) ((fst s, lm_file (snd s)), rec) of (res, ((w, f), rec')) \<Rightarrow>
              let s1 = (w, (snd s)\<lparr>lm_file := f\<rparr>)
              in case res of
                   Inl st \<Rightarrow> (Inl st, (set_reader (\<lambda>r. r\<lparr>rd_endOfLog := True\<rparr>) s1, rec'))
                 | Inr bytesRead \<Rightarrow>
                     (case validateRecord rec' of
                        Inl st \<Rightarrow> (Inl st, (s1, rec'))
                      | Inr _ \<Rightarrow>
                          (case validateLsnOrdering (rd_lastLsn rd) (lr_lsn rec') of
                             Inl st \<Rightarrow> (Inl st, (s1, rec'))
                           | Inr _ \<Rightarrow>
                               let m = snd s1; stats = lm_stats m
                               in (Inr (), ((w, m\<lparr>lm_reader := rd\<lparr>rd_lastLsn := lr_lsn rec', rd_offset := rd_offset rd + bytesRead\<rparr>,
                                     lm_stats := stats\<lparr>ls_bytesRead := ls_bytesRead stats + bytesRead\<rparr>\<rparr>), rec'))))))"

partial_function (option) seekLoop :: "lsn \<Rightarrow> log_state \<times> log_record \<Rightarrow> ((status + unit) \<times> log_state) option" where
  "seekLoop target x =
     (if rd_endOfLog (lm_reader (snd (fst x)))
      then Some (Inl (invalidArgument ''LogReader: LSN not found''), fst x)
      else let recordOffset = rd_offset (lm_reader (snd (fst x)))
           in case LogReader_readNext x of
                (Inl st, (s, _)) \<Rightarrow>
                  Some (Inl (if rd_endOfLog (lm_reader (snd s)) then invalidArgument ''LogReader: LSN not found'' else st), s)
              | (Inr _, (s, rec)) \<Rightarrow>
                  if lr_lsn rec = target
                  then Some (Inr (), set_reader (\<lambda>r. r\<lparr>rd_offset := recordOffset,
                         rd_lastLsn := (if target > 1 then target - 1 else 0), rd_endOfLog := False\<rparr>) s)
                  else if lr_lsn rec > target then Some (Inl (invalidArgument ''LogReader: LSN not found''), s)
                  else seekLoop target (s, rec))"

definition LogReader_seekLsn :: "lsn \<Rightarrow> log_state \<Rightarrow> ((status + unit) \<times> log_state) option" where
  "LogReader_seekLsn target s = seekLoop target (set_reader LogReader_rewind s, LogRecord_new)"

definition LogReader_endOfLog :: "log_manager \<Rightarrow> bool" where
  "LogReader_endOfLog m \<longleftrightarrow> rd_endOfLog (lm_reader m) \<or> rd_offset (lm_reader m) \<ge> LogFile_fileSize (lm_file m)"

section \<open>Manager\<close>

abbreviation not_initialized :: status where
  "not_initialized \<equiv> invalidArgument ''LogManager: not initialized''"

definition LogManager_initialize :: "string \<Rightarrow> bool \<Rightarrow> log_state \<Rightarrow> ((status + unit) \<times> log_state) option" where
  "LogManager_initialize path create s =
     (if lm_initialized (snd s) then Some (Inl (invalidArgument ''LogManager: already initialized''), s)
      else case thenS (on_log (if create then LogFile_create path else LogFile_open path True)) (on_log LogFile_validate) s of
        (Inl st, s1) \<Rightarrow> Some (Inl st, s1)
      | (Inr _, s1) \<Rightarrow>
          (case (if \<not> create \<and> LogFile_fileSize (lm_file (snd s1)) > of_nat kWalHeaderSize
                 then LogWriter_restoreFromFile s1 else Some s1) of
             None \<Rightarrow> None
           | Some s2 \<Rightarrow> Some (Inr (), set_reader LogReader_rewind (fst s2, (snd s2)\<lparr>lm_initialized := True\<rparr>))))"

definition LogManager_append :: "log_record \<Rightarrow> (log_manager, unit) op" where
  "LogManager_append r m = (if \<not> lm_initialized m then (Inl not_initialized, m) else LogWriter_appendRecord r m)"

definition LogManager_appendBatch :: "log_record list \<Rightarrow> (log_manager, unit) op" where
  "LogManager_appendBatch rs m = (if \<not> lm_initialized m then (Inl not_initialized, m) else LogWriter_appendBatch rs m)"

definition LogManager_flush :: "(log_state, unit) op" where
  "LogManager_flush s = (if \<not> lm_initialized (snd s) then (Inl not_initialized, s) else LogWriter_flush s)"

definition LogManager_shutdown :: "(log_state, unit) op" where
  "LogManager_shutdown s =
     (if \<not> lm_initialized (snd s) then (Inr (), s)
      else case LogManager_flush s of
        (Inl st, s1) \<Rightarrow> (Inl st, s1)
      | (Inr _, s1) \<Rightarrow> (case on_log LogFile_close s1 of (res, (w, m)) \<Rightarrow> (res, (w, m\<lparr>lm_initialized := False\<rparr>))))"

definition LogManager_readNext :: "(log_state \<times> log_record, unit) op" where
  "LogManager_readNext x =
     (if \<not> lm_initialized (snd (fst x)) then (Inl not_initialized, x) else LogReader_readNext x)"

definition LogManager_rewindReader :: "(log_state, unit) op" where
  "LogManager_rewindReader s =
     (if \<not> lm_initialized (snd s) then (Inl not_initialized, s) else (Inr (), set_reader LogReader_rewind s))"

definition LogManager_seekReader :: "lsn \<Rightarrow> log_state \<Rightarrow> ((status + unit) \<times> log_state) option" where
  "LogManager_seekReader target s =
     (if \<not> lm_initialized (snd s) then Some (Inl not_initialized, s) else LogReader_seekLsn target s)"

definition LogManager_statistics :: "log_manager \<Rightarrow> log_stats" where
  "LogManager_statistics m =
     (lm_stats m)\<lparr>ls_currentLsn := lw_currentLsn (lm_writer m), ls_lastFlushedLsn := lw_lastFlushedLsn (lm_writer m),
       ls_bufferUsage := length (bytes (lb_buffer (lw_buffer (lm_writer m))))\<rparr>"

partial_function (option) logValidateLoop ::
    "u64 \<Rightarrow> lsn \<Rightarrow> log_disk \<times> log_record \<Rightarrow> ((status + unit) \<times> log_disk) option" where
  "logValidateLoop offset previous x =
     (if offset < LogFile_fileSize (snd (fst x))
      then (case LogFile_readRecord offset x of
              (Inl st, (s, _)) \<Rightarrow> Some (Inl st, s)
            | (Inr bytesRead, (s, rec)) \<Rightarrow>
                (case validateRecord rec of
                   Inl st \<Rightarrow> Some (Inl st, s)
                 | Inr _ \<Rightarrow>
                     (case validateLsnOrdering previous (lr_lsn rec) of
                        Inl st \<Rightarrow> Some (Inl st, s)
                      | Inr _ \<Rightarrow> logValidateLoop (offset + bytesRead) (lr_lsn rec) (s, rec))))
      else Some (Inr (), fst x))"

definition LogManager_validate :: "log_state \<Rightarrow> ((status + unit) \<times> log_state) option" where
  "LogManager_validate s =
     (if \<not> lm_initialized (snd s) then Some (Inl not_initialized, s)
      else case on_log LogFile_validate s of
        (Inl st, s1) \<Rightarrow> Some (Inl st, s1)
      | (Inr _, s1) \<Rightarrow>
          (case logValidateLoop (of_nat kWalHeaderSize) 0 ((fst s1, lm_file (snd s1)), LogRecord_new) of
             None \<Rightarrow> None
           | Some (res, (w, f)) \<Rightarrow> Some (res, (w, (snd s1)\<lparr>lm_file := f\<rparr>))))"

definition LogManager_restoreWriterState :: "log_state \<Rightarrow> ((status + unit) \<times> log_state) option" where
  "LogManager_restoreWriterState s =
     (if \<not> lm_initialized (snd s) then Some (Inl not_initialized, s)
      else map_option (\<lambda>s'. (Inr (), s')) (LogWriter_restoreFromFile s))"

section \<open>The adapter of the tree\<close>

abbreviation PageUpdateRecord :: u8 where "PageUpdateRecord \<equiv> 2"
abbreviation PageDeleteRecord :: u8 where "PageDeleteRecord \<equiv> 3"
abbreviation NodeSplitRecord :: u8 where "NodeSplitRecord \<equiv> 4"
abbreviation NodeMergeRecord :: u8 where "NodeMergeRecord \<equiv> 5"
abbreviation AllocationRecord :: u8 where "AllocationRecord \<equiv> 6"
abbreviation DeallocationRecord :: u8 where "DeallocationRecord \<equiv> 7"

text \<open>
  The clock is read for every record; its readings are indexed by the sequence number the record
  will get. \<open>append_payload\<close> logs a record whose payload is what \<open>wr\<close> writes into a new buffer.
\<close>

definition make_now :: "(lsn \<Rightarrow> u64) \<Rightarrow> u8 \<Rightarrow> PageId \<Rightarrow> log_manager \<Rightarrow> log_record" where
  "make_now clock type pid m = LogRecord_make (clock (lw_nextLsn (lm_writer m))) type pid 0"

definition append_payload :: "(lsn \<Rightarrow> u64) \<Rightarrow> u8 \<Rightarrow> PageId \<Rightarrow> (writer, unit) op \<Rightarrow> (log_manager, unit) op" where
  "append_payload clock type pid wr m =
     (case wr (mkWriter emptyBuffer Little) of
        (Inl st, _) \<Rightarrow> (Inl st, m)
      | (Inr _, w) \<Rightarrow> LogManager_append ((make_now clock type pid m)\<lparr>lr_payload := bytes (wbuf w)\<rparr>) m)"

definition appendKeyRecord :: "(lsn \<Rightarrow> u64) \<Rightarrow> u8 \<Rightarrow> PageId \<Rightarrow> key \<Rightarrow> page_ref \<Rightarrow> (log_manager, unit) op" where
  "appendKeyRecord clock type pid k ref =
     append_payload clock type pid
       (thenS (key_serialize k) (if PageReference_isValid ref then write_ref ref else ret ()))"

definition BTreeWalAdapter :: "(lsn \<Rightarrow> u64) \<Rightarrow> log_manager wal_sink" where
  "BTreeWalAdapter clock =
     \<lparr>onInsert = (\<lambda>k value. appendKeyRecord clock PageUpdateRecord (pr_pageId value) k value),
      onErase = (\<lambda>k. appendKeyRecord clock PageDeleteRecord kInvalidPageId k PageReference_invalid),
      onPageAllocate = (\<lambda>pid m. LogManager_append (make_now clock AllocationRecord pid m) m),
      onPageDeallocate = (\<lambda>pid m. LogManager_append (make_now clock DeallocationRecord pid m) m),
      onNodeSplit = (\<lambda>leftId rightId promoted. append_payload clock NodeSplitRecord leftId
        (thenS (write_word rightId) (key_serialize promoted))),
      onNodeMerge = (\<lambda>survivorId removedId. append_payload clock NodeMergeRecord survivorId (write_word removedId))\<rparr>"

end
