(* ===== verification/LogSpec.thy ===== *)
theory LogSpec
  imports LogManager
begin

text \<open>
  What the write-ahead log does: what a frame contains, how appending numbers the records, that
  the scans of the log return, that the reader hands out strictly increasing sequence numbers,
  and what it makes of a record that was written.
\<close>

section \<open>Frames\<close>

lemma appends_record: "length (lr_payload r) < 2 ^ 32 \<Longrightarrow> appends (record_serialize r) (wireSize r)"
proof -
  assume p: "length (lr_payload r) < 2 ^ 32"
  let ?n = "of_nat (length (lr_payload r)) :: u32"
  have n: "unat ?n = length (lr_payload r)" using p by (simp add: unat_of_nat)
  then have "?n > 0 \<longleftrightarrow> lr_payload r \<noteq> []" by (auto simp: word_less_nat_alt)
  then have pl: "appends (if ?n > 0 then writeBytes (lr_payload r) else ret ()) (length (lr_payload r))"
    using appends_writeBytes [of "lr_payload r"] appends_ret by auto
  have u8: "appends (write_word (x :: u8)) 1" and u32: "appends (write_word (y :: u32)) 4"
    and u64: "appends (write_word (z :: u64)) 8" for x y z
    using appends_word [of x] appends_word [of y] appends_word [of z] by simp_all
  have "appends (record_serialize r) (1 + (8 + (8 + (4 + (8 + (4 + (4 + (4 + (4 + length (lr_payload r))))))))))"
    unfolding record_serialize_def Let_def by (intro appends_thenS u8 u32 u64 pl)
  then show ?thesis by (simp add: wireSize_def)
qed

text \<open>The size in front of the record is there; the record itself is zeros.\<close>

definition frame_bytes :: "log_record \<Rightarrow> u8 list" where
  "frame_bytes r = mem (of_nat (wireSize r) :: u32) @ replicate (wireSize r) 0"

lemma length_frame_bytes [simp]: "length (frame_bytes r) = wireSize r + 4"
  by (simp add: frame_bytes_def)

lemma record_frame_eq:
  assumes "length (lr_payload r) < 2 ^ 32"
  shows "record_frame r = Inr (frame_bytes r)"
proof -
  let ?w = "mkWriter emptyBuffer Little"
  have e: "at_end ?w" by simp
  have e2: "bytes (wbuf ?w) = []" by (simp add: mkWriter_def emptyBuffer_def)
  obtain w1 where w1: "write_word (0 :: u32) ?w = (Inr (), w1)" "at_end w1" "bytes (wbuf w1) = replicate 4 0"
    using appends_word [of "0 :: u32"] e e2 unfolding appends_def by fastforce
  obtain w2 where w2: "record_serialize r w1 = (Inr (), w2)" "at_end w2"
    "bytes (wbuf w2) = replicate 4 0 @ replicate (wireSize r) 0"
    using appends_record [OF assms] w1 unfolding appends_def by fastforce
  have "woffset w2 - woffset w1 = wireSize r" using w1 w2 by (simp add: at_end_def)
  moreover have "overlay 0 (mem (of_nat (wireSize r) :: u32)) (replicate 4 0 @ replicate (wireSize r) 0) = frame_bytes r"
    by (simp add: overlay_def frame_bytes_def)
  ultimately show ?thesis
    using w1(1) w2(1,3) by (simp add: record_frame_def tell_def overwriteAt_def add_sz_def)
qed

section \<open>Appending\<close>

definition loggable :: "log_record \<Rightarrow> bool" where
  "loggable r \<longleftrightarrow> isValidRecordType (lr_type r) \<and> lr_timestamp r \<noteq> 0 \<and> length (lr_payload r) < 2 ^ 32"

definition buffered :: "log_manager \<Rightarrow> u8 list" where
  "buffered m = bytes (lb_buffer (lw_buffer (lm_writer m)))"

definition log_capacity :: "log_manager \<Rightarrow> nat" where
  "log_capacity m = lb_capacity (lw_buffer (lm_writer m))"

lemma frame_bytes_lsn [simp]: "frame_bytes (r\<lparr>lr_lsn := l\<rparr>) = frame_bytes r" "wireSize (r\<lparr>lr_lsn := l\<rparr>) = wireSize r"
  by (simp_all add: frame_bytes_def wireSize_def)

lemma append_record_ok:
  assumes "loggable r" "lw_nextLsn (lm_writer m) \<noteq> 0" "length (buffered m) + wireSize r + 4 \<le> log_capacity m"
    "log_capacity m < 2 ^ 64"
  shows "\<exists>m'. LogWriter_appendRecord r m = (Inr (), m') \<and> buffered m' = buffered m @ frame_bytes r \<and>
    lw_currentLsn (lm_writer m') = lw_nextLsn (lm_writer m) \<and> lw_nextLsn (lm_writer m') = lw_nextLsn (lm_writer m) + 1 \<and>
    lw_lastFlushedLsn (lm_writer m') = lw_lastFlushedLsn (lm_writer m) \<and> log_capacity m' = log_capacity m \<and>
    ls_recordCount (lm_stats m') = ls_recordCount (lm_stats m) + 1 \<and>
    ls_bytesWritten (lm_stats m') = ls_bytesWritten (lm_stats m) + of_nat (wireSize r + 4) \<and>
    lm_file m' = lm_file m \<and> lm_reader m' = lm_reader m \<and> lm_initialized m' = lm_initialized m"
proof -
  let ?r = "r\<lparr>lr_lsn := lw_nextLsn (lm_writer m)\<rparr>"
  have v: "validateRecordHeader ?r = Inr ()" using assms(1,2) by (simp add: validateRecordHeader_def loggable_def)
  have f: "record_frame ?r = Inr (frame_bytes r)"
    using record_frame_eq [of ?r] assms(1) by (simp add: loggable_def)
  have fit: "\<not> add_sz (length (buffered m)) (length (frame_bytes r)) > log_capacity m"
    using assms(3,4) by (simp add: add_sz_def)
  obtain b where b: "buffer_append (frame_bytes r) (lb_buffer (lw_buffer (lm_writer m))) = (Inr (), b)"
    "bytes b = buffered m @ frame_bytes r"
    using buffer_append_bytes unfolding buffered_def by blast
  show ?thesis
    using v f fit b
    by (simp add: LogWriter_appendRecord_def writeRecordToBuffer_def LogBuffer_append_def Let_def buffered_def log_capacity_def
        lsn_next_def stats_recordWrite_def stats_updateLargestRecord_def)
qed

lemma append_batch_ok:
  assumes "\<forall>r \<in> set rs. loggable r" "0 < unat (lw_nextLsn (lm_writer m))"
    "unat (lw_nextLsn (lm_writer m)) + length rs < 2 ^ 64"
    "length (buffered m) + (\<Sum>r\<leftarrow>rs. wireSize r + 4) \<le> log_capacity m" "log_capacity m < 2 ^ 64"
  shows "\<exists>m'. LogWriter_appendBatch rs m = (Inr (), m') \<and> buffered m' = buffered m @ concat (map frame_bytes rs) \<and>
    lw_nextLsn (lm_writer m') = lw_nextLsn (lm_writer m) + of_nat (length rs) \<and>
    (rs \<noteq> [] \<longrightarrow> lw_currentLsn (lm_writer m') = lw_nextLsn (lm_writer m) + of_nat (length rs) - 1) \<and>
    ls_recordCount (lm_stats m') = ls_recordCount (lm_stats m) + of_nat (length rs) \<and>
    ls_bytesWritten (lm_stats m') = ls_bytesWritten (lm_stats m) + of_nat (\<Sum>r\<leftarrow>rs. wireSize r + 4) \<and>
    lm_file m' = lm_file m \<and> lw_lastFlushedLsn (lm_writer m') = lw_lastFlushedLsn (lm_writer m) \<and>
    lm_reader m' = lm_reader m \<and> lm_initialized m' = lm_initialized m"
  using assms
proof (induction rs arbitrary: m)
  case Nil
  then show ?case by simp
next
  case (Cons r rs)
  let ?n = "lw_nextLsn (lm_writer m)"
  have "loggable r" "?n \<noteq> 0" "length (buffered m) + wireSize r + 4 \<le> log_capacity m"
    using Cons.prems by auto
  from append_record_ok [OF this Cons.prems(5)] obtain m1 where m1: "LogWriter_appendRecord r m = (Inr (), m1)"
    "buffered m1 = buffered m @ frame_bytes r" "lw_currentLsn (lm_writer m1) = ?n" "lw_nextLsn (lm_writer m1) = ?n + 1"
    "lw_lastFlushedLsn (lm_writer m1) = lw_lastFlushedLsn (lm_writer m)" "log_capacity m1 = log_capacity m"
    "ls_recordCount (lm_stats m1) = ls_recordCount (lm_stats m) + 1"
    "ls_bytesWritten (lm_stats m1) = ls_bytesWritten (lm_stats m) + of_nat (wireSize r + 4)" "lm_file m1 = lm_file m"
    "lm_reader m1 = lm_reader m" "lm_initialized m1 = lm_initialized m"
    by blast
  have "unat (?n + 1) = unat ?n + 1" using Cons.prems(3) by (simp add: unat_word_ariths)
  then obtain m2 where m2: "LogWriter_appendBatch rs m1 = (Inr (), m2)" "buffered m2 = buffered m1 @ concat (map frame_bytes rs)"
    "lw_nextLsn (lm_writer m2) = ?n + 1 + of_nat (length rs)"
    "rs \<noteq> [] \<longrightarrow> lw_currentLsn (lm_writer m2) = ?n + 1 + of_nat (length rs) - 1"
    "ls_recordCount (lm_stats m2) = ls_recordCount (lm_stats m1) + of_nat (length rs)"
    "ls_bytesWritten (lm_stats m2) = ls_bytesWritten (lm_stats m1) + of_nat (\<Sum>r\<leftarrow>rs. wireSize r + 4)"
    "lm_file m2 = lm_file m1" "lw_lastFlushedLsn (lm_writer m2) = lw_lastFlushedLsn (lm_writer m1)"
    "lm_reader m2 = lm_reader m1" "lm_initialized m2 = lm_initialized m1"
    using Cons.IH [of m1] Cons.prems m1(2,4,6) by auto
  have "lw_currentLsn (lm_writer m2) = ?n + of_nat (length rs)"
    using m1(3) m2(1,4) by (cases "rs = []") (auto simp: algebra_simps)
  then show ?case using m1 m2 by (simp add: algebra_simps)
qed

section \<open>Reading\<close>

text \<open>The records a reader hands out until the first call that fails, at most \<open>n\<close> of them.\<close>

fun read_records :: "nat \<Rightarrow> log_state \<times> log_record \<Rightarrow> log_record list" where
  "read_records 0 x = []"
| "read_records (Suc n) x =
     (case LogManager_readNext x of (Inl _, _) \<Rightarrow> [] | (Inr _, x') \<Rightarrow> snd x' # read_records n x')"

lemma readNext_InrD:
  assumes "LogManager_readNext x = (Inr (), x')"
  shows "validateRecord (snd x') = Inr () \<and> rd_lastLsn (lm_reader (snd (fst x))) < lr_lsn (snd x') \<and>
    rd_lastLsn (lm_reader (snd (fst x'))) = lr_lsn (snd x')"
proof -
  obtain s rec where x: "x = (s, rec)" by (cases x)
  have n: "LogReader_readNext (s, rec) = (Inr (), x')" using assms x by (auto simp: LogManager_readNext_def split: if_splits)
  have gt: "a < b" if "validateLsnOrdering a b = Inr ()" for a b :: lsn
    using that by (auto simp: validateLsnOrdering_def word_neq_0_conv split: if_splits)
  obtain res w f rec' where rr: "LogFile_readRecord (rd_offset (lm_reader (snd s))) ((fst s, lm_file (snd s)), rec) = (res, ((w, f), rec'))"
    by (metis prod.collapse)
  with n obtain k where res: "res = Inr k"
    by (cases res) (auto simp: LogReader_readNext_def Let_def split: if_splits)
  have v: "validateRecord rec' = Inr ()"
    using n rr res by (auto simp: LogReader_readNext_def Let_def split: if_splits sum.splits)
  have o: "validateLsnOrdering (rd_lastLsn (lm_reader (snd s))) (lr_lsn rec') = Inr ()"
    using n rr res v by (auto simp: LogReader_readNext_def Let_def split: if_splits sum.splits)
  have "snd x' = rec' \<and> rd_lastLsn (lm_reader (snd (fst x'))) = lr_lsn rec'"
    using n rr res v o by (auto simp: LogReader_readNext_def Let_def split: if_splits)
  then show ?thesis using v gt [OF o] x by simp
qed

lemma read_records_sorted:
  "sorted_wrt (<) (map lr_lsn (read_records n x)) \<and>
   (\<forall>r \<in> set (read_records n x). rd_lastLsn (lm_reader (snd (fst x))) < lr_lsn r \<and> validateRecord r = Inr ())"
proof (induction n arbitrary: x)
  case (Suc n)
  obtain res x' where r: "LogManager_readNext x = (res, x')" by (cases "LogManager_readNext x")
  show ?case
  proof (cases res)
    case (Inl st)
    then show ?thesis using r by simp
  next
    case (Inr u)
    with readNext_InrD [of x x'] r Suc.IH [of x'] show ?thesis by (fastforce simp: less_trans)
  qed
qed simp

section \<open>Scans return\<close>

lemma frame_span_bounds: "8 \<le> unat (frame_span k)" "unat (frame_span k) \<le> 4294967310"
proof -
  let ?b = "4 + ucast k :: u64"
  have k: "unat k \<le> 4294967295" by simp
  then have lt: "4 + unat k < 18446744073709551616" by linarith
  then have b: "unat ?b = 4 + unat k" by (simp add: unat_word_ariths)
  have m: "unat (?b mod 8) = (4 + unat k) mod 8" using b by (simp add: unat_mod)
  have c: "unat (8 - ?b mod 8) = 8 - (4 + unat k) mod 8"
    using m by (subst unat_sub) (simp_all add: word_le_nat_alt)
  have "unat (?b + (8 - ?b mod 8)) = 4 + unat k + (8 - (4 + unat k) mod 8)"
  proof -
    have "4 + unat k + (8 - (4 + unat k) mod 8) < 18446744073709551616" using k by linarith
    then show ?thesis using unat_add_lem [of ?b "8 - ?b mod 8"] b c by simp
  qed
  moreover have "?b mod 8 = 0 \<longleftrightarrow> (4 + unat k) mod 8 = 0" 
    unfolding word_unat_eq_iff using m by simp
  ultimately have s: "unat (frame_span k) = (if (4 + unat k) mod 8 = 0 then 4 + unat k else 4 + unat k + (8 - (4 + unat k) mod 8))"
    using b by (simp add: frame_span_def Let_def)
  have "8 \<le> (if (4 + unat k) mod 8 = 0 then 4 + unat k else 4 + unat k + (8 - (4 + unat k) mod 8))"
    by (cases "(4 + unat k) mod 8 = 0"; presburger)
  with s show "8 \<le> unat (frame_span k)" by simp
  have "unat (frame_span k) \<le> 12 + unat k" using s by (simp split: if_splits)
  with k show "unat (frame_span k) \<le> 4294967310" by linarith
qed

text \<open>Reading leaves the bytes and the size of the file alone.\<close>

definition disk_of :: "log_disk \<Rightarrow> dbstate" where
  "disk_of s = (fst s, lf_file (snd s))"

definition sees :: "log_disk \<Rightarrow> u8 list \<times> u64" where
  "sees s = (content (disk_of s), LogFile_fileSize (snd s))"

definition quiet :: "(log_disk, 'a) op \<Rightarrow> bool" where
  "quiet m \<longleftrightarrow> (\<forall>s. sees (snd (m s)) = sees s)"

lemma quietD: "quiet m \<Longrightarrow> m s = (res, s') \<Longrightarrow> sees s' = sees s"
  unfolding quiet_def by (metis snd_conv)

lemma sees_size: "sees s' = sees s \<Longrightarrow> LogFile_fileSize (snd s') = LogFile_fileSize (snd s)"
  by (simp add: sees_def)

lemma quiet_seek: "quiet (on_db (DatabaseFile_seek p))"
  by (simp add: quiet_def sees_def disk_of_def content_def stream_bytes_def on_db_def DatabaseFile_seek_def stream_seek_def
      LogFile_fileSize_def Let_def split: prod.splits)

lemma quiet_read: "quiet (on_db (DatabaseFile_readBytes prior n))"
  by (auto simp: quiet_def sees_def disk_of_def content_def stream_bytes_def on_db_def DatabaseFile_readBytes_def stream_read_def
      LogFile_fileSize_def Let_def split: prod.splits)

lemma quiet_bind: "quiet m \<Longrightarrow> (\<And>x. quiet (f x)) \<Longrightarrow> quiet (bindS m f)"
  unfolding quiet_def bindS_def by (auto split: sum.splits prod.splits) (metis snd_conv)+

lemma quiet_ret [simp]: "quiet (ret x)" "quiet (fail st)"
  by (simp_all add: quiet_def ret_def fail_def)

lemma quiet_readBytes: "quiet (LogFile_readBytes p prior n)"
proof -
  have "quiet (bindS (on_db (DatabaseFile_seek p)) (\<lambda>_. on_db (DatabaseFile_readBytes prior n)))"
    by (intro quiet_bind quiet_seek quiet_read)
  then show ?thesis by (auto simp: quiet_def LogFile_readBytes_def thenS_def)
qed

lemma quiet_readHeader: "quiet LogFile_readHeader"
proof -
  have "quiet (thenS (on_db (DatabaseFile_seek 0)) (bindS (on_db (DatabaseFile_readBytes (replicate kWalHeaderSize 0) kWalHeaderSize))
               (\<lambda>bs. ret (wal_header_of bs))))"
    unfolding thenS_def by (intro quiet_bind quiet_seek quiet_read quiet_ret)
  then show ?thesis by (auto simp: quiet_def LogFile_readHeader_def)
qed

lemma quiet_validate: "quiet LogFile_validate"
proof -
  have "quiet (bindS LogFile_readHeader (\<lambda>h.
             if wh_magic h \<noteq> kJournalMagic then fail (corruption ''LogFile: invalid WAL magic'')
             else if wh_version h \<noteq> kWalFormatVersion then fail (corruption ''LogFile: unsupported WAL version'')
             else ret ()))"
    by (intro quiet_bind quiet_readHeader) simp
  then show ?thesis by (auto simp: quiet_def LogFile_validate_def)
qed

lemma readRecord_sees:
  assumes "LogFile_readRecord p (s, rec) = (res, (s', rec'))"
  shows "sees s' = sees s" "res = Inr n \<Longrightarrow> \<exists>k. n = frame_span k"
proof -
  obtain r1 s1 where r1: "LogFile_readBytes p (replicate 4 0) 4 s = (r1, s1)" by (cases "LogFile_readBytes p (replicate 4 0) 4 s")
  have z1: "sees s1 = sees s" by (rule quietD [OF quiet_readBytes r1])
  have z2: "sees s2 = sees s" if "LogFile_readBytes (p + 4) (replicate k 0) k s1 = (r2, s2)" for k r2 s2
    using quietD [OF quiet_readBytes that] z1 by simp
  show "sees s' = sees s"
    using assms r1 z1 z2 by (auto simp: LogFile_readRecord_def Let_def split: if_splits sum.splits prod.splits)
  show "\<exists>k. n = frame_span k" if "res = Inr n"
    using assms that by (auto simp: LogFile_readRecord_def Let_def split: if_splits sum.splits prod.splits)
qed

lemma offset_grows:
  assumes "LogFile_readRecord p (s, rec) = (Inr n, (s', rec'))" "p < LogFile_fileSize (snd s)" "unat (LogFile_fileSize (snd s)) < 2 ^ 63"
  shows "unat p < unat (p + n)" "LogFile_fileSize (snd s') = LogFile_fileSize (snd s)"
proof -
  obtain k where k: "n = frame_span k" using readRecord_sees(2) [OF assms(1)] by blast
  have "unat p < 2 ^ 63" using assms(2,3) by (simp add: word_less_nat_alt)
  with frame_span_bounds [of k] show "unat p < unat (p + n)" unfolding k by (simp add: unat_word_ariths)
  show "LogFile_fileSize (snd s') = LogFile_fileSize (snd s)" by (rule sees_size [OF readRecord_sees(1) [OF assms(1)]])
qed

lemma restore_returns:
  assumes "unat (LogFile_fileSize (snd s)) < 2 ^ 63"
  shows "\<exists>l' s'. restoreLoop p l s = Some (l', s') \<and> sees s' = sees s"
  using assms
proof (induction "unat (LogFile_fileSize (snd s)) - unat p" arbitrary: p l s rule: less_induct)
  case less
  obtain res s' rec' where r: "LogFile_readRecord p (s, LogRecord_new) = (res, (s', rec'))" by (metis prod.collapse)
  show ?case
  proof (cases "p < LogFile_fileSize (snd s) \<and> (\<exists>n. res = Inr n)")
    case True
    then obtain n where n: "p < LogFile_fileSize (snd s)" "res = Inr n" by blast
    note g = offset_grows [OF r [unfolded n(2)] n(1) less.prems]
    have "\<exists>l2 s2. restoreLoop (p + n) (lr_lsn rec') s' = Some (l2, s2) \<and> sees s2 = sees s'"
      using n(1) g less.prems by (intro less.hyps) (simp_all add: word_less_nat_alt)
    then show ?thesis using r n readRecord_sees(1) [OF r] by (subst restoreLoop.simps) auto
  next
    case False
    then show ?thesis using r readRecord_sees(1) [OF r] by (cases s; cases s'; cases res) (subst restoreLoop.simps, auto)+
  qed
qed

lemma validate_returns:
  assumes "unat (LogFile_fileSize (snd s)) < 2 ^ 63"
  shows "\<exists>r. logValidateLoop p l (s, rec) = Some r"
  using assms
proof (induction "unat (LogFile_fileSize (snd s)) - unat p" arbitrary: p l s rec rule: less_induct)
  case less
  obtain res s' rec' where r: "LogFile_readRecord p (s, rec) = (res, (s', rec'))" by (metis prod.collapse)
  show ?case
  proof (cases "p < LogFile_fileSize (snd s) \<and> (\<exists>n. res = Inr n)")
    case True
    then obtain n where n: "p < LogFile_fileSize (snd s)" "res = Inr n" by blast
    note g = offset_grows [OF r [unfolded n(2)] n(1) less.prems]
    have "\<exists>r. logValidateLoop (p + n) (lr_lsn rec') (s', rec') = Some r"
      using n(1) g less.prems by (intro less.hyps) (simp_all add: word_less_nat_alt)
    then show ?thesis using r n by (subst logValidateLoop.simps) (auto split: sum.splits)
  next
    case False
    then show ?thesis using r by (subst logValidateLoop.simps) (auto split: sum.splits)
  qed
qed

lemma readNext_grows:
  assumes "LogReader_readNext (s, rec) = (Inr (), (s', rec'))" "unat (LogFile_fileSize (lm_file (snd s))) < 2 ^ 63"
  shows "rd_offset (lm_reader (snd s)) < LogFile_fileSize (lm_file (snd s))"
    "unat (rd_offset (lm_reader (snd s))) < unat (rd_offset (lm_reader (snd s')))"
    "LogFile_fileSize (lm_file (snd s')) = LogFile_fileSize (lm_file (snd s))"
proof -
  obtain res w f rec1 where rr: "LogFile_readRecord (rd_offset (lm_reader (snd s))) ((fst s, lm_file (snd s)), rec) = (res, ((w, f), rec1))"
    by (metis prod.collapse)
  show lt: "rd_offset (lm_reader (snd s)) < LogFile_fileSize (lm_file (snd s))"
    using assms(1) by (auto simp: LogReader_readNext_def Let_def not_le split: if_splits)
  obtain n where res: "res = Inr n"
    using assms(1) rr by (cases res) (auto simp: LogReader_readNext_def Let_def split: if_splits)
  have e: "rd_offset (lm_reader (snd s')) = rd_offset (lm_reader (snd s)) + n \<and> lm_file (snd s') = f"
    using assms(1) rr res by (auto simp: LogReader_readNext_def Let_def split: if_splits sum.splits)
  from offset_grows [OF rr [unfolded res]] lt assms(2)
  show "unat (rd_offset (lm_reader (snd s))) < unat (rd_offset (lm_reader (snd s')))"
    "LogFile_fileSize (lm_file (snd s')) = LogFile_fileSize (lm_file (snd s))"
    unfolding conjunct1 [OF e] conjunct2 [OF e] by simp_all
qed

lemma seek_returns:
  assumes "unat (LogFile_fileSize (lm_file (snd s))) < 2 ^ 63"
  shows "\<exists>r. seekLoop l (s, rec) = Some r"
  using assms
proof (induction "unat (LogFile_fileSize (lm_file (snd s))) - unat (rd_offset (lm_reader (snd s)))" arbitrary: s rec rule: less_induct)
  case less
  obtain res s' rec' where r: "LogReader_readNext (s, rec) = (res, (s', rec'))" by (metis prod.collapse)
  show ?case
  proof (cases res)
    case (Inr u)
    with readNext_grows [of s rec s' rec'] r less.prems
    have "\<exists>r. seekLoop l (s', rec') = Some r" by (intro less.hyps) (simp_all add: word_less_nat_alt)
    then show ?thesis using r Inr by (subst seekLoop.simps) (simp add: Let_def)
  next
    case (Inl st)
    then show ?thesis using r by (subst seekLoop.simps) (simp add: Let_def)
  qed
qed

section \<open>A record that was written\<close>

definition zero_record :: log_record where
  "zero_record = LogRecord_new\<lparr>lr_pageId := 0\<rparr>"

lemma zero_record_invalid: "validateRecord zero_record = Inl (corruption ''LogValidator: invalid record type'')"
  by (simp add: validateRecord_def validateRecordHeader_def zero_record_def isValidRecordType_def LogRecord_new_def)

lemma read_zero_field:
  assumes "reader_wf r" "ahead r = replicate m 0 @ rest" "LENGTH('a::len) div 8 \<le> m"
  shows "read_field (read_word :: (reader, 'a word) op) store (r, x) = (Inr (), (advance (LENGTH('a) div 8) r, store 0 x))"
  using read_word_bytes [OF assms(1), where 'a = 'a] assms(2,3)
  by (simp add: read_field_def unmem_zeros min_def take_replicate)

lemma read_zero_step:
  assumes "reader_wf r" "ahead r = replicate 45 0 @ rest" "n + LENGTH('a::len) div 8 \<le> 45"
  shows "read_field (read_word :: (reader, 'a word) op) store (advance n r, x) =
      (Inr (), (advance (n + LENGTH('a) div 8) r, store 0 x))"
proof -
  have "reader_wf (advance n r)" using assms by (intro reader_wf_advance) simp_all
  moreover have "ahead (advance n r) = replicate (45 - n) 0 @ rest" using assms(2,3) by simp
  ultimately show ?thesis
    using read_zero_field [of "advance n r" "45 - n" rest store x] assms(3) by simp
qed

lemma deserialize_zeros:
  assumes "reader_wf r" "ahead r = replicate 45 0 @ rest"
  shows "record_deserialize (r, rec) = (Inr (), (advance 45 r, zero_record))"
proof -
  note step = read_zero_step [OF assms]
  have "read_field (read_word :: (reader, u8) op) store (r, x) = (Inr (), (advance 1 r, store 0 x))"
    for store :: "u8 \<Rightarrow> u32 \<times> log_record \<Rightarrow> u32 \<times> log_record" and x
    using step [of 0 store x] by simp
  then show ?thesis
    by (simp add: record_deserialize_def step read_payload_def zero_record_def LogRecord_new_def)
qed

section \<open>The bytes of the log file\<close>

lemma seek_any:
  assumes "file_ok s" "unat p < 9223372036854775808"
  shows "\<exists>s'. DatabaseFile_seek p s = (Inr (), s') \<and> file_ok s' \<and> content s' = content s \<and>
    fs_pos (df_stream (snd s')) = unat p \<and> df_size (snd s') = df_size (snd s)"
  using assms(1) sint_nonneg [of p] assms(2)
  by (cases s) (auto simp: DatabaseFile_seek_def stream_seek_def Let_def file_ok_def content_def stream_bytes_def)

lemma write_any:
  assumes "file_ok s"
  shows "\<exists>s'. DatabaseFile_writeBytes src s = (Inr (), s') \<and> file_ok s' \<and>
    content s' = patch (fs_pos (df_stream (snd s))) src (content s) \<and>
    fs_pos (df_stream (snd s')) = fs_pos (df_stream (snd s)) + length src \<and>
    df_size (snd s') = max (df_size (snd s)) (of_nat (fs_pos (df_stream (snd s)) + length src))"
  using assms
  by (cases s) (auto simp: DatabaseFile_writeBytes_def stream_write_def Let_def file_ok_def content_def
      stream_bytes_def max_def)

lemma patch_end: "patch (length bs) src bs = bs @ src"
  by (simp add: patch_def)

text \<open>An open log whose next record goes to the end of the file.\<close>

definition log_holds :: "log_disk \<Rightarrow> u8 list \<Rightarrow> bool" where
  "log_holds s c \<longleftrightarrow> lf_attached (snd s) \<and> file_ok (disk_of s) \<and> content (disk_of s) = c \<and>
     lf_appendOffset (snd s) = of_nat (length c) \<and> df_size (lf_file (snd s)) = of_nat (length c) \<and>
     length c < 4611686018427387904 \<and> 8 dvd length c"

lemma log_holds_open: "log_holds s c \<Longrightarrow> LogFile_isOpen s"
  by (simp add: log_holds_def LogFile_isOpen_def file_ok_def disk_of_def)

lemma on_db_ok:
  assumes "m (disk_of s) = (res, d)"
  shows "on_db m s = (res, (fst d, (snd s)\<lparr>lf_file := snd d\<rparr>))" "disk_of (fst d, (snd s)\<lparr>lf_file := snd d\<rparr>) = d"
  using assms by (simp_all add: on_db_def disk_of_def split: prod.splits)

definition padding :: "nat \<Rightarrow> nat" where
  "padding n = (8 - n mod 8) mod 8"

lemma padding_cases: "padding n = (if n mod 8 = 0 then 0 else 8 - n mod 8)"
  by (simp add: padding_def)

lemma padding_zero: "padding n = 0 \<longleftrightarrow> n mod 8 = 0"
proof (cases "n mod 8 = 0")
  case False
  have "8 - n mod 8 \<noteq> 0" using mod_less_divisor [of 8 n, OF zero_less_numeral] by linarith
  with False show ?thesis unfolding padding_cases by (simp only: if_False)
qed (simp add: padding_def)

lemma padding_aligns: "8 dvd n + padding n" "padding n < 8"
proof -
  have "(n + (8 - n mod 8)) mod 8 = 0"
  proof -
    define q r where "q = n div 8" and "r = n mod 8"
    have "n = 8 * q + r" "r < 8" by (simp_all add: q_def r_def)
    then have "n + (8 - r) = 8 * (q + 1)" by simp
    then show ?thesis unfolding r_def by (metis mod_mult_self1_is_0)
  qed
  then show "8 dvd n + padding n" by (auto simp: padding_cases mod_eq_0_iff_dvd)
  show "padding n < 8" by (simp add: padding_def)
qed

lemma padding_word:
  assumes "n < 9223372036854775808"
  shows "(of_nat n :: u64) mod 8 = 0 \<longleftrightarrow> padding n = 0"
    "padding n \<noteq> 0 \<Longrightarrow> 8 - (of_nat n :: u64) mod 8 = of_nat (padding n)"
proof -
  define x where "x = (of_nat n :: u64) mod 8"
  have x: "unat x = n mod 8" using assms by (simp add: x_def unat_mod unat_of_nat)
  have lt: "n mod 8 < 8" by simp
  have z: "x = 0 \<longleftrightarrow> n mod 8 = 0" using x by (metis unat_0 unat_eq_zero)
  then show "(of_nat n :: u64) mod 8 = 0 \<longleftrightarrow> padding n = 0" 
    unfolding x_def padding_zero .
  show "8 - (of_nat n :: u64) mod 8 = of_nat (padding n)" if "padding n \<noteq> 0"
  proof -
    have "unat (8 - x) = 8 - n mod 8" using x lt by (subst unat_sub) (simp_all add: word_le_nat_alt)
    moreover have "8 - n mod 8 = padding n" using that by (simp add: padding_cases split: if_splits)
    moreover have "unat (of_nat (padding n) :: u64) = padding n"
      using padding_aligns(2) [of n] by (simp add: unat_of_nat)
    ultimately show ?thesis by (metis x_def word_unat_eq_iff)
  qed
qed

lemma append_holds:
  assumes "log_holds s c" "length c + length data + 8 < 4611686018427387904"
  shows "\<exists>s'. LogFile_append data s = (Inr (), s') \<and> log_holds s' (c @ data @ replicate (padding (length data)) 0)"
proof -
  let ?p = "length c" and ?n = "length c + length data"
  have h: "lf_attached (snd s)" "file_ok (disk_of s)" "content (disk_of s) = c" "lf_appendOffset (snd s) = of_nat ?p"
    "df_size (snd (disk_of s)) = of_nat ?p" "8 dvd ?p"
    using assms(1) by (auto simp: log_holds_def disk_of_def)
  have u: "unat (of_nat k :: u64) = k" if "k < 9223372036854775808" for k using that by (simp add: unat_of_nat)
  obtain d1 where d1: "DatabaseFile_seek (of_nat ?p) (disk_of s) = (Inr (), d1)" "file_ok d1" "content d1 = c"
    "fs_pos (df_stream (snd d1)) = ?p" "df_size (snd d1) = of_nat ?p"
    using seek_any [OF h(2), of "of_nat ?p"] h(3,5) u [of ?p] assms(2) by auto
  let ?s1 = "(fst d1, (snd s)\<lparr>lf_file := snd d1\<rparr>)"
  note b1 = on_db_ok [of "DatabaseFile_seek (of_nat ?p)", OF d1(1)]
  obtain d2 where d2: "DatabaseFile_writeBytes data d1 = (Inr (), d2)" "file_ok d2" "content d2 = c @ data"
    "fs_pos (df_stream (snd d2)) = ?n" "df_size (snd d2) = max (of_nat ?p) (of_nat ?n)"
    using write_any [OF d1(2), of data] d1(3,4,5) patch_end [of c data] by auto
  have mx: "max (of_nat ?p) (of_nat ?n) = (of_nat ?n :: u64)"
    using u [of ?p] u [of ?n] assms(2) by (simp add: max_def word_le_nat_alt del: of_nat_add)
  let ?s2 = "(fst d2, (snd s)\<lparr>lf_file := snd d2\<rparr>)"
  have b2: "on_db (DatabaseFile_writeBytes data) ?s1 = (Inr (), ?s2)"
    using on_db_ok(1) [of "DatabaseFile_writeBytes data" ?s1] b1(2) d2(1) by simp
  let ?s3 = "(fst d2, (snd s)\<lparr>lf_file := snd d2, lf_appendOffset := of_nat ?n\<rparr>)"
  have run: "LogFile_append data s = alignAppendOffset ?s3"
    using log_holds_open [OF assms(1)] h(4) b1(1) b2 by (simp add: LogFile_append_def Let_def set_appendOffset_def)
  have pd: "padding ?n = padding (length data)"
  proof -
    obtain k where "?p = 8 * k" using h(6) by blast
    then show ?thesis by (simp add: padding_def)
  qed
  have n63: "?n < 9223372036854775808" using assms(2) by linarith
  show ?thesis
  proof (cases "padding ?n = 0")
    case True
    then have "alignAppendOffset ?s3 = (Inr (), ?s3)" 
      using padding_word(1) [OF n63] by (simp add: alignAppendOffset_def)
    moreover have "log_holds ?s3 (c @ data)"
      using d2 mx h(1) assms(2) True padding_aligns(1) [of ?n] by (simp add: log_holds_def disk_of_def)
    ultimately show ?thesis using run True pd by simp
  next
    case False
    let ?q = "padding ?n"
    have q: "(of_nat ?n :: u64) mod 8 \<noteq> 0" "8 - (of_nat ?n :: u64) mod 8 = of_nat ?q" "?q < 8" "8 dvd ?n + ?q"
      by (simp_all only: padding_word(1) [OF n63] padding_word(2) [OF n63 False] padding_aligns False simp_thms)
    have uq: "unat (of_nat ?q :: u64) = ?q" using q(3) by (intro u) simp
    obtain d3 where d3: "DatabaseFile_writeBytes (replicate ?q 0) d2 = (Inr (), d3)" "file_ok d3"
      "content d3 = c @ data @ replicate ?q 0" "df_size (snd d3) = max (of_nat ?n) (of_nat (?n + ?q))"
      using write_any [OF d2(2), of "replicate ?q 0"] d2(3,4,5) mx patch_end [of "c @ data" "replicate ?q 0"] by auto
    have mx': "max (of_nat ?n) (of_nat (?n + ?q)) = (of_nat (?n + ?q) :: u64)"
      using u [of ?n] u [of "?n + ?q"] assms(2) q(3) by (simp add: max_def word_le_nat_alt del: of_nat_add)
    let ?s4 = "(fst d3, (snd s)\<lparr>lf_file := snd d3, lf_appendOffset := of_nat ?n + of_nat ?q\<rparr>)"
    have "disk_of ?s3 = d2" by (simp add: disk_of_def)
    then have "on_db (DatabaseFile_writeBytes (replicate ?q 0)) ?s3 = (Inr (), (fst d3, (snd ?s3)\<lparr>lf_file := snd d3\<rparr>))"
      using on_db_ok(1) [of "DatabaseFile_writeBytes (replicate ?q 0)" ?s3] d3(1) by simp
    then have "alignAppendOffset ?s3 = (Inr (), ?s4)"
      using q(1,2) uq by (simp add: alignAppendOffset_def Let_def set_appendOffset_def)
    moreover have "log_holds ?s4 (c @ data @ replicate ?q 0)"
      using d3 mx' h(1) assms(2) q(3,4) by (simp add: log_holds_def disk_of_def add.assoc)
    ultimately show ?thesis using run pd by simp
  qed
qed

lemma readBytes_holds:
  assumes "log_holds s c" "p + n \<le> length c" "length prior = n"
  shows "\<exists>s'. LogFile_readBytes (of_nat p) prior n s = (Inr (take n (drop p c)), s') \<and> log_holds s' c"
proof -
  have h: "file_ok (disk_of s)" "content (disk_of s) = c" "length c < 4611686018427387904"
    using assms(1) by (auto simp: log_holds_def)
  have p: "unat (of_nat p :: u64) = p" using assms(2) h(3) by (simp add: unat_of_nat)
  obtain d1 where d1: "DatabaseFile_seek (of_nat p) (disk_of s) = (Inr (), d1)" "file_ok d1" "content d1 = c"
    "fs_pos (df_stream (snd d1)) = p" "df_size (snd d1) = df_size (snd (disk_of s))"
    using seek_any [OF h(1), of "of_nat p"] h(2,3) p assms(2) by auto
  let ?s1 = "(fst d1, (snd s)\<lparr>lf_file := snd d1\<rparr>)"
  note b1 = on_db_ok [of "DatabaseFile_seek (of_nat p)", OF d1(1)]
  obtain d2 where d2: "DatabaseFile_readBytes prior n d1 = (Inr (take n (drop p c)), d2)" "file_ok d2" "content d2 = c"
    using readBytes_ok [OF d1(2), of n prior] d1(3,4) assms(2,3) by auto
  have sz: "df_size (snd d2) = df_size (snd d1)"
    using arg_cong [OF d2(1), of "\<lambda>x. df_size (snd (snd x))"]
    by (cases d1) (auto simp: DatabaseFile_readBytes_def Let_def split: prod.splits if_splits)
  let ?s2 = "(fst d2, (snd s)\<lparr>lf_file := snd d2\<rparr>)"
  have "on_db (DatabaseFile_readBytes prior n) ?s1 = (Inr (take n (drop p c)), ?s2)"
    using on_db_ok(1) [of "DatabaseFile_readBytes prior n" ?s1] b1(2) d2(1) by simp
  then have "LogFile_readBytes (of_nat p) prior n s = (Inr (take n (drop p c)), ?s2)"
    using log_holds_open [OF assms(1)] b1(1) by (simp add: LogFile_readBytes_def)
  moreover have "log_holds ?s2 c"
    using assms(1) d1(5) d2(2,3) sz by (simp add: log_holds_def disk_of_def)
  ultimately show ?thesis by blast
qed

lemma zero_frame_reader:
  assumes "wireSize r < 4294967296"
  shows "\<exists>r1 r2. reader_skip 4 (mkReader (mem (of_nat (wireSize r) :: u32) @ replicate (wireSize r) 0) Little) = (Inr (), r1) \<and>
    record_deserialize (r1, rec) = (Inr (), (r2, zero_record))"
proof -
  let ?n = "wireSize r"
  let ?r = "mkReader (mem (of_nat ?n :: u32) @ replicate ?n 0) Little"
  have wf: "reader_wf ?r" using assms by (intro reader_wf_mkReader) simp
  have skip: "reader_skip 4 ?r = (Inr (), advance 4 ?r)"
    using add_sz_inside [OF wf, of 4] by (simp add: reader_skip_def advance_def mkReader_def ahead_def)
  have "reader_wf (advance 4 ?r)" using wf by (intro reader_wf_advance) simp_all
  moreover have "ahead (advance 4 ?r) = replicate 45 0 @ replicate (length (lr_payload r)) 0"
    by (simp add: wireSize_def replicate_add [symmetric])
  ultimately have "record_deserialize (advance 4 ?r, rec) = (Inr (), (advance 45 (advance 4 ?r), zero_record))"
    by (rule deserialize_zeros)
  with skip show ?thesis by blast
qed

lemma readRecord_zeros:
  assumes "log_holds s c" "take (wireSize r + 4) (drop p c) = frame_bytes r" "wireSize r < 4294967296"
  shows "\<exists>s'. LogFile_readRecord (of_nat p) (s, rec) = (Inr (frame_span (of_nat (wireSize r))), (s', zero_record)) \<and> log_holds s' c"
proof -
  let ?n = "wireSize r"
  have len: "p + (?n + 4) \<le> length c"
  proof -
    have "length (take (?n + 4) (drop p c)) = ?n + 4" using assms(2) by simp
    moreover have "0 < ?n" by (simp add: wireSize_def)
    ultimately show ?thesis by simp
  qed
  have sz: "take 4 (drop p c) = mem (of_nat ?n :: u32)"
    using arg_cong [OF assms(2), of "take 4"] by (simp add: frame_bytes_def)
  have body: "take ?n (drop (p + 4) c) = replicate ?n 0"
    using arg_cong [OF assms(2), of "drop 4"] by (simp add: frame_bytes_def drop_take add.commute)
  obtain s1 where s1: "LogFile_readBytes (of_nat p) (replicate 4 0) 4 s = (Inr (mem (of_nat ?n :: u32)), s1)" "log_holds s1 c"
    using readBytes_holds [OF assms(1), of p 4 "replicate 4 0"] len sz by auto
  have k: "unat (of_nat ?n :: u32) = ?n" using assms(3) by (simp add: unat_of_nat)
  obtain s2 where s2: "LogFile_readBytes (of_nat p + 4) (replicate ?n 0) ?n s1 = (Inr (replicate ?n 0), s2)" "log_holds s2 c"
    using readBytes_holds [OF s1(2), of "p + 4" ?n "replicate ?n 0"] len body by auto
  obtain r1 r2 where rd: "reader_skip 4 (mkReader (mem (of_nat ?n :: u32) @ replicate ?n 0) Little) = (Inr (), r1)"
    "record_deserialize (r1, rec) = (Inr (), (r2, zero_record))" using zero_frame_reader [OF assms(3)] by blast
  have nz: "(of_nat ?n :: u32) \<noteq> 0" using k by (metis add_is_0 unat_0 wireSize_def zero_neq_one)
  show ?thesis
    using log_holds_open [OF assms(1)] s1(1) s2 k rd nz by (simp add: LogFile_readRecord_def Let_def)
qed

section \<open>Flushing\<close>

definition log_disk_of :: "log_state \<Rightarrow> log_disk" where
  "log_disk_of s = (fst s, lm_file (snd s))"

lemma flush_file_holds: "log_holds s c \<Longrightarrow> LogFile_flush s = (Inr (), s)"
  by (cases s) (auto simp: LogFile_flush_def log_holds_def disk_of_def file_ok_def on_db_def DatabaseFile_flush_def)

lemma flush_holds:
  assumes "lm_initialized (snd s)" "log_holds (log_disk_of s) c" "length c + length (buffered (snd s)) + 8 < 4611686018427387904"
  shows "\<exists>s'. LogManager_flush s = (Inr (), s') \<and>
    log_holds (log_disk_of s') (c @ buffered (snd s) @ replicate (padding (length (buffered (snd s)))) 0) \<and>
    buffered (snd s') = [] \<and> lw_lastFlushedLsn (lm_writer (snd s')) = lw_currentLsn (lm_writer (snd s)) \<and>
    lw_currentLsn (lm_writer (snd s')) = lw_currentLsn (lm_writer (snd s)) \<and>
    lw_nextLsn (lm_writer (snd s')) = lw_nextLsn (lm_writer (snd s)) \<and>
    lm_reader (snd s') = lm_reader (snd s) \<and> lm_initialized (snd s')"
proof (cases "buffered (snd s) = []")
  case True
  have "flushBufferToFile s = (Inr (), s)"
    using True by (cases s) (simp add: flushBufferToFile_def LogBuffer_flush_def buffered_def)
  moreover have "on_log LogFile_flush s = (Inr (), s)"
    using flush_file_holds [OF assms(2)] by (cases s) (simp add: on_log_def log_disk_of_def)
  ultimately have "LogManager_flush s = (Inr (), (fst s, note_flushed (snd s)))"
    using assms(1) by (simp add: LogManager_flush_def LogWriter_flush_def)
  then show ?thesis
    using True assms(1,2) by (simp add: note_flushed_def Let_def log_disk_of_def buffered_def padding_def)
next
  case False
  let ?b = "buffered (snd s)" and ?w = "lm_writer (snd s)"
  obtain d where d: "LogFile_append ?b (log_disk_of s) = (Inr (), d)" "log_holds d (c @ ?b @ replicate (padding (length ?b)) 0)"
    using append_holds [OF assms(2,3)] by blast
  let ?s1 = "(fst d, (snd s)\<lparr>lm_file := snd d, lm_writer := ?w\<lparr>lw_buffer := (lw_buffer ?w)\<lparr>lb_buffer := buffer_clear (lb_buffer (lw_buffer ?w))\<rparr>\<rparr>\<rparr>)"
  have "flushBufferToFile s = (Inr (), ?s1)"
    using False d(1) by (cases d) (simp add: flushBufferToFile_def LogBuffer_flush_def buffered_def log_disk_of_def Let_def)
  moreover have "on_log LogFile_flush ?s1 = (Inr (), ?s1)"
    using flush_file_holds [OF d(2)] by (cases d) (simp add: on_log_def)
  ultimately have "LogManager_flush s = (Inr (), (fst d, note_flushed (snd ?s1)))"
    using assms(1) by (simp add: LogManager_flush_def LogWriter_flush_def)
  then show ?thesis
    using d(2) assms(1)
    by (simp add: note_flushed_def Let_def log_disk_of_def buffered_def buffer_clear_def)
qed

section \<open>Properties\<close>

text \<open>A fresh log: its file holds the header only.\<close>

definition sample_log :: log_state where
  "sample_log =
     (\<lparr>files = [''wal'' \<mapsto> replicate 16 0], openable = (\<lambda>_. True)\<rparr>,
      LogManager_new\<lparr>lm_initialized := True,
        lm_file := \<lparr>lf_attached = True,
          lf_file = \<lparr>df_path = ''wal'',
            df_stream = \<lparr>fs_open = True, fs_path = ''wal'', fs_pos = 0, fs_eof = False, fs_fail = False\<rparr>,
            df_size = 16\<rparr>,
          lf_appendOffset = 16\<rparr>\<rparr>)"

definition sample_record :: log_record where
  "sample_record = LogRecord_new\<lparr>lr_type := PageUpdateRecord, lr_timestamp := 1, lr_payload := [7, 8]\<rparr>"

lemma sample_log_ok:
  "lm_initialized (snd sample_log)" "log_holds (log_disk_of sample_log) (replicate 16 0)" "buffered (snd sample_log) = []"
  "log_capacity (snd sample_log) = 65536" "lw_nextLsn (lm_writer (snd sample_log)) = 1"
  "rd_offset (lm_reader (snd sample_log)) = 16" "\<not> rd_endOfLog (lm_reader (snd sample_log))"
  "LogFile_fileSize (lm_file (snd sample_log)) = 16"
  by (simp_all add: sample_log_def log_disk_of_def log_holds_def disk_of_def file_ok_def content_def stream_bytes_def
      buffered_def log_capacity_def LogManager_new_def LogWriter_new_def LogBuffer_new_def emptyBuffer_def LogFile_fileSize_def)

lemma sample_record_ok: "loggable sample_record" "wireSize sample_record = 47"
  by (simp_all add: sample_record_def loggable_def isValidRecordType_def wireSize_def LogRecord_new_def)



text \<open>
  C32. What the log file takes in it gives back: the bytes of an append are read back, at the offset
  where the log ended, exactly as they were handed over, and everything before them is unchanged.
\<close>

theorem log_file_round_trip:
  assumes "log_holds s c" "length c + length data + 8 < 4611686018427387904"
  shows "\<exists>s1 s2 s3. LogFile_append data s = (Inr (), s1) \<and>
    LogFile_readBytes (of_nat (length c)) (replicate (length data) 0) (length data) s1 = (Inr data, s2) \<and>
    LogFile_readBytes 0 (replicate (length c) 0) (length c) s2 = (Inr c, s3)"
proof -
  obtain s1 where s1: "LogFile_append data s = (Inr (), s1)" "log_holds s1 (c @ data @ replicate (padding (length data)) 0)"
    using append_holds [OF assms] by blast
  obtain s2 where s2: "LogFile_readBytes (of_nat (length c)) (replicate (length data) 0) (length data) s1 = (Inr data, s2)"
    "log_holds s2 (c @ data @ replicate (padding (length data)) 0)"
    using readBytes_holds [OF s1(2), of "length c" "length data" "replicate (length data) 0"] by auto
  show ?thesis
    using readBytes_holds [OF s2(2), of 0 "length c" "replicate (length c) 0"] s1(1) s2(1)
    by (cases s1, cases s2) auto
qed

theorem log_file_round_trip_witness:
  "\<exists>s1 s2 s3. LogFile_append [1, 2, 3] (log_disk_of sample_log) = (Inr (), s1) \<and>
    LogFile_readBytes 16 [0, 0, 0] 3 s1 = (Inr [1, 2, 3], s2) \<and> LogFile_readBytes 0 (replicate 16 0) 16 s2 = (Inr (replicate 16 0), s3)"
  using log_file_round_trip [OF sample_log_ok(2), of "[1, 2, 3]"] by (simp add: numeral_3_eq_3)

text \<open>
  C19. The reader hands out only records that passed validation, in strictly increasing order of
  their sequence numbers and all beyond the last one read before.
\<close>

theorem log_reader_is_ordered:
  "sorted_wrt (<) (map lr_lsn (read_records n x)) \<and>
   list_all (\<lambda>r. rd_lastLsn (lm_reader (snd (fst x))) < lr_lsn r \<and> validateRecord r = Inr ()) (read_records n x)"
  using read_records_sorted [of n x] by (simp add: list_all_iff)

text \<open>
  C20. The three scans of the log end, whatever the file contains: restoring the writer at start-up,
  seeking a sequence number and validating the log all return on a log of fewer than 2 to the 63 bytes.
\<close>

theorem log_scans_return:
  assumes "unat (LogFile_fileSize (lm_file (snd s))) < 2 ^ 63"
  shows "LogManager_restoreWriterState s \<noteq> None \<and> LogManager_seekReader target s \<noteq> None \<and>
    LogManager_validate s \<noteq> None"
proof -
  have "\<exists>l' s'. restoreLoop (of_nat kWalHeaderSize) 0 (fst s, lm_file (snd s)) = Some (l', s') \<and> sees s' = sees (fst s, lm_file (snd s))"
    using assms by (intro restore_returns) simp
  then have "LogManager_restoreWriterState s \<noteq> None"
    by (auto simp: LogManager_restoreWriterState_def LogWriter_restoreFromFile_def Let_def)
  moreover have "\<exists>r. seekLoop target (set_reader LogReader_rewind s, LogRecord_new) = Some r"
    using assms by (intro seek_returns) (simp add: set_reader_def)
  then have "LogManager_seekReader target s \<noteq> None"
    by (auto simp: LogManager_seekReader_def LogReader_seekLsn_def)
  moreover have "LogManager_validate s \<noteq> None"
  proof -
    obtain res d where v: "LogFile_validate (fst s, lm_file (snd s)) = (res, d)" by (cases "LogFile_validate (fst s, lm_file (snd s))")
    have "LogFile_fileSize (snd d) = LogFile_fileSize (lm_file (snd s))"
      using sees_size [OF quietD [OF quiet_validate v]] by simp
    then have "\<exists>r. logValidateLoop (of_nat kWalHeaderSize) 0 (d, LogRecord_new) = Some r"
      using assms by (intro validate_returns) simp
    then show ?thesis using v by (cases d; cases res) (auto simp: LogManager_validate_def on_log_def)
  qed
  ultimately show ?thesis by blast
qed

theorem log_scans_return_witness:
  "LogManager_restoreWriterState sample_log \<noteq> None \<and> LogManager_seekReader 5 sample_log \<noteq> None \<and>
    LogManager_validate sample_log \<noteq> None"
  using log_scans_return [of sample_log 5] by (simp add: sample_log_ok)

text \<open>
  C24. No record that the manager logs can be read again: a valid record is accepted and flushed,
  and the reader positioned on it then fails, because the bytes of the record were stored as zeros
  and zero is no record type.
\<close>

theorem logged_record_unreadable:
  assumes "lm_initialized (snd s)" "log_holds (log_disk_of s) c" "buffered (snd s) = []" "loggable r"
    "lw_nextLsn (lm_writer (snd s)) \<noteq> 0" "wireSize r + 4 \<le> log_capacity (snd s)" "wireSize r < 4294967296"
    "length c + log_capacity (snd s) + 8 < 4611686018427387904"
    "rd_offset (lm_reader (snd s)) = of_nat (length c)" "\<not> rd_endOfLog (lm_reader (snd s))"
  shows "\<exists>m1 s2. LogManager_append r (snd s) = (Inr (), m1) \<and> LogManager_flush (fst s, m1) = (Inr (), s2) \<and>
    fst (LogManager_readNext (s2, rec)) = Inl (corruption ''LogValidator: invalid record type'')"
proof -
  let ?b = "frame_bytes r" and ?z = "replicate (padding (wireSize r + 4)) (0 :: u8)"
  have "length (buffered (snd s)) + wireSize r + 4 \<le> log_capacity (snd s)" "log_capacity (snd s) < 2 ^ 64"
    using assms(3,6,8) by simp_all
  from append_record_ok [OF assms(4,5) this] obtain m1 where m1: "LogWriter_appendRecord r (snd s) = (Inr (), m1)"
    "buffered m1 = ?b" "lm_file m1 = lm_file (snd s)" "lm_reader m1 = lm_reader (snd s)" "lm_initialized m1"
    using assms(1,3) by auto
  have "length c + length (buffered (snd (fst s, m1))) + 8 < 4611686018427387904" using m1(2) assms(6,8) by simp
  moreover have "log_holds (log_disk_of (fst s, m1)) c" using assms(2) m1(3) by (simp add: log_disk_of_def)
  ultimately obtain s2 where s2: "LogManager_flush (fst s, m1) = (Inr (), s2)" "log_holds (log_disk_of s2) (c @ ?b @ ?z)"
    "lm_reader (snd s2) = lm_reader (snd s)" "lm_initialized (snd s2)"
    using flush_holds [of "(fst s, m1)" c] m1 by auto
  have "take (wireSize r + 4) (drop (length c) (c @ ?b @ ?z)) = ?b" by simp
  from readRecord_zeros [OF s2(2) this assms(7), of rec] obtain d where
    d: "LogFile_readRecord (of_nat (length c)) (log_disk_of s2, rec) = (Inr (frame_span (of_nat (wireSize r))), (d, zero_record))"
    by blast
  have sz: "LogFile_fileSize (lm_file (snd s2)) = of_nat (length (c @ ?b @ ?z))" "length (c @ ?b @ ?z) < 4611686018427387904"
    using s2(2) by (simp_all add: log_holds_def log_disk_of_def LogFile_fileSize_def)
  have "unat (of_nat (length c) :: u64) = length c" "unat (of_nat (length (c @ ?b @ ?z)) :: u64) = length (c @ ?b @ ?z)"
    using sz(2) by (simp_all add: unat_of_nat del: of_nat_add)
  then have before: "(of_nat (length c) :: u64) < LogFile_fileSize (lm_file (snd s2))"
    unfolding sz(1) word_less_nat_alt by simp
  have "fst (LogManager_readNext (s2, rec)) = Inl (corruption ''LogValidator: invalid record type'')"
    using d s2(3,4) before assms(9,10) zero_record_invalid
    by (cases d) (simp add: LogManager_readNext_def LogReader_readNext_def Let_def log_disk_of_def not_le)
  then show ?thesis using m1(1) s2(1) assms(1) by (cases s2) (simp add: LogManager_append_def)
qed

theorem logged_record_unreadable_witness:
  "\<exists>m1 s2. LogManager_append sample_record (snd sample_log) = (Inr (), m1) \<and>
    LogManager_flush (fst sample_log, m1) = (Inr (), s2) \<and>
    fst (LogManager_readNext (s2, LogRecord_new)) = Inl (corruption ''LogValidator: invalid record type'')"
  using logged_record_unreadable [OF sample_log_ok(1,2,3) sample_record_ok(1)] sample_log_ok sample_record_ok
  by simp

end
