(* ===== verification/Recovery.thy ===== *)
theory Recovery
  imports TreeSpec LogSpec
begin

text \<open>
  Crash recovery (CheckpointRecord, CheckpointManager, LogReplayer, RecoveryValidator and
  RecoveryManager): checkpoints that carry a snapshot of the tree in a log record, the replay of
  the records that follow one, and the checks that end a recovery. The tree that is rebuilt logs
  to a sink of its own, if it has one, and not to the log that is read.
\<close>

section \<open>Running log and tree together\<close>

type_synonym 'w recovering = "log_state \<times> 'w btree"

type_synonym ('w, 'a) recovery_op = "'w recovering \<Rightarrow> 'a outcome \<times> 'w recovering"

definition bindR :: "('w, 'a) recovery_op \<Rightarrow> ('a \<Rightarrow> ('w, 'b) recovery_op) \<Rightarrow> ('w, 'b) recovery_op" where
  "bindR m f s =
     (case m s of
        (Done x, s') \<Rightarrow> f x s'
      | (Error st, s') \<Rightarrow> (Error st, s')
      | (Thrown, s') \<Rightarrow> (Thrown, s')
      | (Diverges, s') \<Rightarrow> (Diverges, s'))"

definition returnR :: "'a \<Rightarrow> ('w, 'a) recovery_op" where "returnR x s = (Done x, s)"

definition outcome_of :: "status + 'a \<Rightarrow> 'a outcome" where
  "outcome_of res = (case res of Inl st \<Rightarrow> Error st | Inr x \<Rightarrow> Done x)"

definition logR :: "(log_state, 'a) op \<Rightarrow> ('w, 'a) recovery_op" where
  "logR m s = (case m (fst s) of (res, l) \<Rightarrow> (outcome_of res, (l, snd s)))"

definition scanR :: "(log_state \<Rightarrow> ((status + 'a) \<times> log_state) option) \<Rightarrow> ('w, 'a) recovery_op" where
  "scanR m s = (case m (fst s) of None \<Rightarrow> (Diverges, s) | Some (res, l) \<Rightarrow> (outcome_of res, (l, snd s)))"

definition treeR :: "('w, 'a) tree_op \<Rightarrow> ('w, 'a) recovery_op" where
  "treeR m s = (case m (snd s) of (res, t) \<Rightarrow> (res, (fst s, t)))"

lemma bindR_simps [simp]:
  "m s = (Done x, s') \<Longrightarrow> bindR m f s = f x s'" "m s = (Error st, s') \<Longrightarrow> bindR m f s = (Error st, s')"
  "m s = (Thrown, s') \<Longrightarrow> bindR m f s = (Thrown, s')" "m s = (Diverges, s') \<Longrightarrow> bindR m f s = (Diverges, s')"
  by (simp_all add: bindR_def)

section \<open>The checkpoint record\<close>

record checkpoint_payload =
  cp_magic :: u32
  cp_version :: u32
  cp_lsn :: lsn
  cp_treeSize :: u64
  cp_treeHeight :: u32
  cp_btreeSnapshot :: "u8 list"

abbreviation kCheckpointMagic :: u32 where "kCheckpointMagic \<equiv> 0x4348504B"
abbreviation kCheckpointFormatVersion :: u32 where "kCheckpointFormatVersion \<equiv> 1"
abbreviation CheckpointMarkerRecord :: u8 where "CheckpointMarkerRecord \<equiv> 9"

definition CheckpointPayload_new :: checkpoint_payload where
  "CheckpointPayload_new =
     \<lparr>cp_magic = kCheckpointMagic, cp_version = kCheckpointFormatVersion, cp_lsn = 0, cp_treeSize = 0,
      cp_treeHeight = 0, cp_btreeSnapshot = []\<rparr>"

definition payload_serialize :: "checkpoint_payload \<Rightarrow> (writer, unit) op" where
  "payload_serialize p =
     (let snapLen = (of_nat (length (cp_btreeSnapshot p)) :: u32)
      in thenS (write_word (cp_magic p)) (thenS (write_word (cp_version p)) (thenS (write_word (cp_lsn p))
        (thenS (write_word (cp_treeSize p)) (thenS (write_word (cp_treeHeight p)) (thenS (write_word snapLen)
        (if snapLen > 0 then writeBytes (cp_btreeSnapshot p) else ret ())))))))"

definition payload_validate :: "checkpoint_payload \<Rightarrow> status + unit" where
  "payload_validate p =
     (if cp_magic p \<noteq> kCheckpointMagic then Inl (corruption ''CheckpointPayload: invalid magic'')
      else if cp_version p \<noteq> kCheckpointFormatVersion then Inl (corruption ''CheckpointPayload: unsupported version'')
      else if cp_lsn p = 0 then Inl (corruption ''CheckpointPayload: invalid LSN'')
      else Inr ())"

text \<open>The payload is a local variable of the caller, which drops it when reading fails.\<close>

definition payload_deserialize :: "(reader, checkpoint_payload) op" where
  "payload_deserialize =
     bindS read_word (\<lambda>mg. bindS read_word (\<lambda>ver. bindS read_word (\<lambda>l. bindS read_word (\<lambda>sz.
     bindS read_word (\<lambda>h. bindS read_word (\<lambda>snapLen :: u32.
     bindS (if snapLen > 0 then readBytes (unat snapLen) else ret []) (\<lambda>snap.
       let p = \<lparr>cp_magic = mg, cp_version = ver, cp_lsn = l, cp_treeSize = sz, cp_treeHeight = h, cp_btreeSnapshot = snap\<rparr>
       in case payload_validate p of Inl st \<Rightarrow> fail st | Inr _ \<Rightarrow> ret p)))))))"

section \<open>Checkpoints\<close>

definition checkpoint_of :: "lsn \<Rightarrow> u8 list \<Rightarrow> 'w btree \<Rightarrow> checkpoint_payload" where
  "checkpoint_of current snapshot t =
     CheckpointPayload_new\<lparr>cp_lsn := if current \<noteq> 0 then lsn_next current else 1, cp_treeSize := bt_size t,
       cp_treeHeight := bt_height t, cp_btreeSnapshot := snapshot\<rparr>"

definition createCheckpoint ::
    "(lsn \<Rightarrow> u64) \<Rightarrow> (PageId set \<Rightarrow> PageId list) \<Rightarrow> ('w, lsn) recovery_op" where
  "createCheckpoint clock ord s =
     (case s of (l, t) \<Rightarrow>
        case tree_serialize ord t (mkWriter emptyBuffer Little) of
          (Inl st, _) \<Rightarrow> (Error st, s)
        | (Inr _, w) \<Rightarrow>
            let payload = checkpoint_of (lw_currentLsn (lm_writer (snd l))) (bytes (wbuf w)) t
            in bindR (logR (\<lambda>(wd, m). case append_payload clock CheckpointMarkerRecord kInvalidPageId (payload_serialize payload) m of
                                (res, m') \<Rightarrow> (res, (wd, m'))))
                 (\<lambda>_. bindR (logR LogManager_flush)
                 (\<lambda>_ s'. (Done (lw_currentLsn (lm_writer (snd (fst s')))), s'))) s)"

text \<open>
  The scan for the last checkpoint ends at the first record that cannot be read; the record is one
  variable through all rounds.
\<close>

partial_function (option) checkpointLoop ::
    "log_state \<times> log_record \<Rightarrow> checkpoint_payload \<times> lsn \<Rightarrow> bool \<Rightarrow>
     ((status + bool) \<times> (checkpoint_payload \<times> lsn) \<times> log_state) option" where
  "checkpointLoop x out found =
     (case LogManager_readNext x of
        (Inl _, (s', _)) \<Rightarrow> Some (Inr found, out, s')
      | (Inr _, (s', rec)) \<Rightarrow>
          if lr_type rec \<noteq> CheckpointMarkerRecord then checkpointLoop (s', rec) out found
          else (case payload_deserialize (mkReader (lr_payload rec) Little) of
                  (Inl st, _) \<Rightarrow> Some (Inl st, out, s')
                | (Inr p, _) \<Rightarrow> checkpointLoop (s', rec) (p, lr_lsn rec) True))"

text \<open>The two output parameters are returned with every status.\<close>

definition findLastCheckpoint ::
    "log_state \<Rightarrow> ((status + unit) \<times> (checkpoint_payload \<times> lsn) \<times> log_state) option" where
  "findLastCheckpoint s =
     (let out = (CheckpointPayload_new, 0)
      in case LogManager_rewindReader s of
        (Inl st, s1) \<Rightarrow> Some (Inl st, out, s1)
      | (Inr _, s1) \<Rightarrow>
          (case checkpointLoop (s1, LogRecord_new) out False of
             None \<Rightarrow> None
           | Some (Inl st, out', s2) \<Rightarrow> Some (Inl st, out', s2)
           | Some (Inr found, out', s2) \<Rightarrow>
               Some (if found then Inr () else Inl (invalidArgument ''CheckpointManager: no checkpoint found''), out', s2)))"

definition restoreTree :: "(PageId set \<Rightarrow> PageId list) \<Rightarrow> checkpoint_payload \<Rightarrow> ('w, unit) tree_op" where
  "restoreTree ord p t =
     (case payload_validate p of
        Inl st \<Rightarrow> (Error st, t)
      | Inr _ \<Rightarrow>
          (case tree_deserialize ord (mkReader (cp_btreeSnapshot p) Little, tree_clear ord t) of
             (res, (_, t')) \<Rightarrow> (outcome_of res, t')))"

text \<open>Cutting the log behind a record; \<open>what\<close> is the error text of the file system.\<close>

partial_function (option) truncateLoop ::
    "string \<Rightarrow> lsn \<Rightarrow> u64 \<Rightarrow> log_disk \<times> log_record \<Rightarrow> ((status + unit) \<times> log_disk) option" where
  "truncateLoop what target offset x =
     (if offset < LogFile_fileSize (snd (fst x))
      then (case LogFile_readRecord offset x of
              (Inl _, (d, _)) \<Rightarrow>
                Some (Inl (invalidArgument ''CheckpointManager: checkpoint LSN not found for truncation''), d)
            | (Inr bytesRead, (d, rec)) \<Rightarrow>
                if lr_lsn rec = target then Some (LogFile_truncate what (offset + bytesRead) d)
                else truncateLoop what target (offset + bytesRead) (d, rec))
      else Some (Inl (invalidArgument ''CheckpointManager: checkpoint LSN not found for truncation''), fst x))"

definition truncateAfterCheckpoint :: "string \<Rightarrow> lsn \<Rightarrow> log_state \<Rightarrow> ((status + unit) \<times> log_state) option" where
  "truncateAfterCheckpoint what target s =
     (case truncateLoop what target (of_nat kWalHeaderSize) ((fst s, lm_file (snd s)), LogRecord_new) of
        None \<Rightarrow> None
      | Some (res, (w, f)) \<Rightarrow> Some (res, (w, (snd s)\<lparr>lm_file := f\<rparr>)))"

section \<open>Replay\<close>

definition replay_reader :: "log_record \<Rightarrow> reader" where
  "replay_reader rec = mkReader (lr_payload rec) Little"

definition statusT :: "status + 'a \<Rightarrow> ('w, 'a) tree_op" where
  "statusT res t = (outcome_of res, t)"

definition applyRecord :: "log_record \<Rightarrow> ('w, unit) tree_op" where
  "applyRecord rec =
     (if lr_type rec = PageUpdateRecord
      then (case key_deserialize 0 (replay_reader rec) of
              (Inl st, _) \<Rightarrow> errorT st
            | (Inr k, r1) \<Rightarrow>
                bindT (statusT (fst (read_ref r1))) (\<lambda>ref.
                bindT (tree_contains k) (\<lambda>present.
                  if present
                  then bindT (tree_find k) (\<lambda>existing.
                         if PageReference_eq existing ref then doneT ()
                         else thenT (tree_erase k) (tree_insert k ref))
                  else tree_insert k ref)))
      else if lr_type rec = PageDeleteRecord
      then (case key_deserialize 0 (replay_reader rec) of
              (Inl st, _) \<Rightarrow> errorT st
            | (Inr k, _) \<Rightarrow> bindT (tree_contains k) (\<lambda>present. if \<not> present then doneT () else tree_erase k))
      else if isValidRecordType (lr_type rec) then doneT ()
      else errorT (corruption ''LogReplayer: invalid record type''))"

record recovery_result =
  rr_recoveredFromCheckpoint :: bool
  rr_checkpointLsn :: lsn
  rr_lastReplayedLsn :: lsn
  rr_recordsReplayed :: u64
  rr_recordsSkipped :: u64

definition RecoveryResult_new :: recovery_result where
  "RecoveryResult_new =
     \<lparr>rr_recoveredFromCheckpoint = False, rr_checkpointLsn = 0, rr_lastReplayedLsn = 0, rr_recordsReplayed = 0,
      rr_recordsSkipped = 0\<rparr>"

partial_function (option) replayLoop ::
    "lsn \<Rightarrow> 'w recovering \<Rightarrow> log_record \<Rightarrow> recovery_result \<Rightarrow> (unit outcome \<times> 'w recovering \<times> recovery_result) option" where
  "replayLoop afterLsn s rec result =
     (case LogManager_readNext (fst s, rec) of
        (Inl _, (l, _)) \<Rightarrow> Some (Done (), (l, snd s), result)
      | (Inr _, (l, rec')) \<Rightarrow>
          (case validateRecord rec' of
             Inl st \<Rightarrow> Some (Error st, (l, snd s), result)
           | Inr _ \<Rightarrow>
               if lr_lsn rec' \<le> afterLsn \<or> lr_type rec' = CheckpointMarkerRecord
               then replayLoop afterLsn (l, snd s) rec' (result\<lparr>rr_recordsSkipped := rr_recordsSkipped result + 1\<rparr>)
               else (case applyRecord rec' (snd s) of
                       (Done _, t) \<Rightarrow>
                         replayLoop afterLsn (l, t) rec'
                           (result\<lparr>rr_lastReplayedLsn := lr_lsn rec', rr_recordsReplayed := rr_recordsReplayed result + 1\<rparr>)
                     | (Error st, t) \<Rightarrow> Some (Error st, (l, t), result)
                     | (Thrown, t) \<Rightarrow> Some (Thrown, (l, t), result)
                     | (Diverges, t) \<Rightarrow> Some (Diverges, (l, t), result))))"

definition replay :: "lsn \<Rightarrow> 'w recovering \<Rightarrow> unit outcome \<times> 'w recovering \<times> recovery_result" where
  "replay afterLsn s =
     (case logR LogManager_rewindReader s of
        (Done _, s1) \<Rightarrow>
          (case replayLoop afterLsn s1 LogRecord_new RecoveryResult_new of
             None \<Rightarrow> (Diverges, s1, RecoveryResult_new)
           | Some r \<Rightarrow> r)
      | (res, s1) \<Rightarrow> (res, s1, RecoveryResult_new))"

section \<open>Recovery\<close>

text \<open>\<open>fuel\<close> bounds the recursion of the tree validator.\<close>

definition recovery_validate :: "nat \<Rightarrow> ('w, unit) recovery_op" where
  "recovery_validate fuel =
     bindR (scanR LogManager_validate) (\<lambda>_ s. (tree_validate fuel (snd s), s))"

text \<open>What was set from the checkpoint is overwritten: replay starts from an empty result.\<close>

definition recover :: "nat \<Rightarrow> (PageId set \<Rightarrow> PageId list) \<Rightarrow> 'w recovering \<Rightarrow> unit outcome \<times> 'w recovering \<times> recovery_result" where
  "recover fuel ord s =
     (case findLastCheckpoint (fst s) of
        None \<Rightarrow> (Diverges, s, RecoveryResult_new)
      | Some (found, (payload, checkpointLsn), l) \<Rightarrow>
          let restored = (case found of
                Inl _ \<Rightarrow> (Done (), tree_clear ord (snd s))
              | Inr _ \<Rightarrow> restoreTree ord payload (snd s))
          in case fst restored of
               Done _ \<Rightarrow>
                 (case replay checkpointLsn (l, snd restored) of
                    (Done _, s1, result) \<Rightarrow>
                      (case bindR (scanR LogManager_restoreWriterState)
                              (\<lambda>_. bindR (logR LogManager_rewindReader) (\<lambda>_. recovery_validate fuel)) s1 of
                         (res, s2) \<Rightarrow> (res, s2, result))
                  | r \<Rightarrow> r)
             | res \<Rightarrow> (res, (l, snd restored), RecoveryResult_new))"

definition checkpoint ::
    "(lsn \<Rightarrow> u64) \<Rightarrow> string \<Rightarrow> (PageId set \<Rightarrow> PageId list) \<Rightarrow> bool \<Rightarrow> ('w, lsn) recovery_op" where
  "checkpoint clock what ord truncateWal =
     bindR (createCheckpoint clock ord) (\<lambda>outLsn.
       if truncateWal
       then bindR (scanR (truncateAfterCheckpoint what outLsn)) (\<lambda>_.
            bindR (scanR LogManager_restoreWriterState) (\<lambda>_.
            bindR (logR LogManager_rewindReader) (\<lambda>_. returnR outLsn)))
       else returnR outLsn)"

text \<open>The scratch tree has a space manager of its own and no sink.\<close>

definition verifyLogicalConsistency :: "nat \<Rightarrow> (PageId set \<Rightarrow> PageId list) \<Rightarrow> ('w, unit) recovery_op" where
  "verifyLogicalConsistency fuel ord s =
     (case findLastCheckpoint (fst s) of
        None \<Rightarrow> (Diverges, s)
      | Some (found, (payload, checkpointLsn), l) \<Rightarrow>
          let scratch = tree_new (SpaceManager_new FirstFitPolicy) (bt_config (snd s)) ();
              restored = (case found of Inl _ \<Rightarrow> (Done (), scratch) | Inr _ \<Rightarrow> restoreTree ord payload scratch)
          in case fst restored of
               Done _ \<Rightarrow>
                 (case replay checkpointLsn (l, snd restored) of
                    (Done _, (l1, t1), _) \<Rightarrow>
                      if bt_size t1 \<noteq> bt_size (snd s)
                      then (Error (corruption ''RecoveryValidator: tree size mismatch after replay''), (l1, snd s))
                      else (case tree_validate fuel t1 of
                              Done _ \<Rightarrow> logR LogManager_rewindReader (l1, snd s)
                            | res \<Rightarrow> (res, (l1, snd s)))
                  | (res, (l1, _), _) \<Rightarrow> (res, (l1, snd s)))
             | res \<Rightarrow> (res, (l, snd s)))"

section \<open>Replay on a map\<close>

text \<open>The record the adapter means to write for a change of the tree.\<close>

definition logs_insert :: "log_record \<Rightarrow> key \<Rightarrow> page_ref \<Rightarrow> bool" where
  "logs_insert rec k v \<longleftrightarrow> lr_type rec = PageUpdateRecord \<and> lr_payload rec = key_image k @ page_ref_image v"

definition logs_erase :: "log_record \<Rightarrow> key \<Rightarrow> bool" where
  "logs_erase rec k \<longleftrightarrow> lr_type rec = PageDeleteRecord \<and> lr_payload rec = key_image k"

lemma contains_holds: "tree_holds t m \<Longrightarrow> tree_contains k t = (Done (m k \<noteq> None), t)"
  by (simp add: tree_contains_def find_holds split: option.split)

lemma key_image_short: "key_wf k \<Longrightarrow> length (key_image k) < 2 ^ 32"
  by (cases k) (auto simp: length_key_image serializedSize_def key_wf_def kMaxBinaryKeySize_def)

lemma apply_insert:
  assumes "logs_insert rec k v" "key_fits 0 k" "tree_holds t m"
  shows "applyRecord rec t =
    (case m k of None \<Rightarrow> tree_insert k v t
     | Some u \<Rightarrow> if PageReference_eq u v then (Done (), t) else thenT (tree_erase k) (tree_insert k v) t)"
proof -
  have p: "lr_type rec = 2" "lr_payload rec = key_image k @ page_ref_image v" using assms(1) by (simp_all add: logs_insert_def)
  have l: "length (lr_payload rec) < 2 ^ 64" using key_image_short [of k] assms(2) p(2) by (simp add: key_fits_def)
  have wf: "reader_wf (replay_reader rec)" "ahead (replay_reader rec) = key_image k @ page_ref_image v"
    using l p(2) by (simp_all add: replay_reader_def)
  note r1 = keyc.rd_image_step [OF wf(1) assms(2) wf(2)]
  have a2: "ahead (advance (length (key_image k)) (replay_reader rec)) = page_ref_image v @ []" using r1(3) by simp
  note r2 = refc.rd_image [OF r1(2) TrueI a2]
  show ?thesis
    using p(1) r1(1) r2 contains_holds [OF assms(3), of k] find_holds [OF assms(3), of k]
    by (cases "m k") (simp_all add: applyRecord_def statusT_def outcome_of_def bindT_def doneT_def)
qed

lemma apply_erase:
  assumes "logs_erase rec k" "key_fits 0 k" "tree_holds t m"
  shows "applyRecord rec t = (if m k = None then (Done (), t) else tree_erase k t)"
proof -
  have p: "lr_type rec = 3" "lr_payload rec = key_image k" using assms(1) by (simp_all add: logs_erase_def)
  have l: "length (lr_payload rec) < 2 ^ 64" using key_image_short [of k] assms(2) p(2) by (simp add: key_fits_def)
  have wf: "reader_wf (replay_reader rec)" "ahead (replay_reader rec) = key_image k @ []"
    using l p(2) by (simp_all add: replay_reader_def)
  show ?thesis
    using p(1) keyc.rd_image_step [OF wf(1) assms(2) wf(2)] contains_holds [OF assms(3), of k]
    by (simp add: applyRecord_def bindT_def doneT_def)
qed



section \<open>A log with one record\<close>

definition wal_start :: "u8 list" where
  "wal_start = wal_header_image \<lparr>wh_magic = kJournalMagic, wh_version = kWalFormatVersion, wh_pageSize = of_nat kPageSize, wh_reserved = 0\<rparr>"

lemma length_wal_start [simp]: "length wal_start = 16"
  by (simp add: wal_start_def wal_header_image_def)

definition logged_once :: "log_state \<Rightarrow> log_record \<Rightarrow> bool" where
  "logged_once l r \<longleftrightarrow> lm_initialized (snd l) \<and> wireSize r < 4294967200 \<and>
     log_holds (log_disk_of l) (wal_start @ frame_bytes r @ replicate (padding (wireSize r + 4)) 0)"

lemma frame_span_unat:
  assumes "n < 4294967200"
  shows "unat (frame_span (of_nat n)) = n + 4 + padding (n + 4)"
proof -
  have b: "4 + ucast (of_nat n :: u32) = (of_nat (n + 4) :: u64)"
    using assms by (simp add: word_unat_eq_iff unat_word_ariths unat_of_nat)
  have p: "padding (n + 4) < 8" by (rule padding_aligns)
  have u: "unat (of_nat k :: u64) = k" if "k < 9223372036854775808" for k using that by (simp add: unat_of_nat)
  have lt: "n + 4 < 9223372036854775808" using assms by linarith
  show ?thesis
  proof (cases "padding (n + 4) = 0")
    case True
    then have "(of_nat (n + 4) :: u64) mod 8 = 0" using padding_word(1) [OF lt] by simp
    then show ?thesis using True b u [OF lt] by (simp add: frame_span_def Let_def del: of_nat_add)
  next
    case False
    then have "(of_nat (n + 4) :: u64) mod 8 \<noteq> 0" "8 - (of_nat (n + 4) :: u64) mod 8 = of_nat (padding (n + 4))"
      using padding_word [OF lt] by simp_all
    then have "frame_span (of_nat n) = of_nat (n + 4 + padding (n + 4))"
      using b by (simp add: frame_span_def Let_def add.commute)
    then show ?thesis using u [of "n + 4 + padding (n + 4)"] assms p by simp
  qed
qed

text \<open>Every reader of such a log sees one record of zeros at offset 16 and then the end of the file.\<close>

lemma once_read:
  assumes "logged_once l r"
  shows "\<exists>d. LogFile_readRecord 16 (log_disk_of l, rec) = (Inr (frame_span (of_nat (wireSize r))), (d, zero_record)) \<and>
    log_holds d (wal_start @ frame_bytes r @ replicate (padding (wireSize r + 4)) 0)"
proof -
  let ?c = "wal_start @ frame_bytes r @ replicate (padding (wireSize r + 4)) 0"
  have h: "log_holds (log_disk_of l) ?c" "wireSize r < 4294967296" using assms by (simp_all add: logged_once_def)
  have "take (wireSize r + 4) (drop 16 ?c) = frame_bytes r" by simp
  from readRecord_zeros [OF h(1) this h(2), of rec] show ?thesis by simp
qed

lemma once_size:
  assumes "logged_once l r"
  shows "(16 :: u64) < LogFile_fileSize (lm_file (snd l))"
    "16 + frame_span (of_nat (wireSize r)) = LogFile_fileSize (lm_file (snd l))"
proof -
  have w: "wireSize r < 4294967200" "lm_file (snd l) = snd (log_disk_of l)" using assms by (simp_all add: logged_once_def log_disk_of_def)
  have p: "padding (wireSize r + 4) < 8" by (rule padding_aligns)
  have s: "LogFile_fileSize (lm_file (snd l)) = of_nat (16 + (wireSize r + 4 + padding (wireSize r + 4)))"
    using assms by (simp add: logged_once_def log_holds_def log_disk_of_def LogFile_fileSize_def)
  have u: "unat (of_nat (16 + (wireSize r + 4 + padding (wireSize r + 4))) :: u64) = 16 + (wireSize r + 4 + padding (wireSize r + 4))"
    using w(1) p by (simp add: unat_of_nat del: of_nat_add)
  then show "(16 :: u64) < LogFile_fileSize (lm_file (snd l))" unfolding s word_less_nat_alt by simp
  have "unat (16 + frame_span (of_nat (wireSize r)) :: u64) = 16 + (wireSize r + 4 + padding (wireSize r + 4))"
    using frame_span_unat [OF w(1)] w(1) p by (simp add: unat_word_ariths)
  then show "16 + frame_span (of_nat (wireSize r)) = LogFile_fileSize (lm_file (snd l))"
    unfolding s using u by (metis word_unat_eq_iff)
qed

lemma once_update:
  assumes "logged_once l r" "log_holds d (wal_start @ frame_bytes r @ replicate (padding (wireSize r + 4)) 0)"
  shows "logged_once (fst d, (snd l)\<lparr>lm_file := snd d\<rparr>) r"
  using assms by (simp add: logged_once_def log_disk_of_def)

lemma once_rewind:
  assumes "logged_once l r"
  shows "\<exists>l'. LogManager_rewindReader l = (Inr (), l') \<and> logged_once l' r \<and> rd_offset (lm_reader (snd l')) = 16 \<and>
    \<not> rd_endOfLog (lm_reader (snd l'))"
  using assms by (simp add: LogManager_rewindReader_def set_reader_def LogReader_rewind_def logged_once_def log_disk_of_def)

lemma once_readNext:
  assumes "logged_once l r" "rd_offset (lm_reader (snd l)) = 16" "\<not> rd_endOfLog (lm_reader (snd l))"
  shows "\<exists>l' rec'. LogManager_readNext (l, rec) = (Inl (corruption ''LogValidator: invalid record type''), (l', rec')) \<and> logged_once l' r"
proof -
  obtain d where d: "LogFile_readRecord 16 (log_disk_of l, rec) = (Inr (frame_span (of_nat (wireSize r))), (d, zero_record))"
    "log_holds d (wal_start @ frame_bytes r @ replicate (padding (wireSize r + 4)) 0)"
    using once_read [OF assms(1)] by blast
  have "lm_initialized (snd l)" using assms(1) by (simp add: logged_once_def)
  moreover have f: "(LogFile_fileSize (lm_file (snd l)) \<le> 16) = False" using once_size(1) [OF assms(1)] by (simp add: not_le)
  ultimately show ?thesis
    using d(1) assms(2,3) zero_record_invalid once_update [OF assms(1) d(2)]
    by (cases d) (simp add: LogManager_readNext_def LogReader_readNext_def Let_def log_disk_of_def f)
qed

lemma once_restore:
  assumes "logged_once l r"
  shows "\<exists>l'. LogManager_restoreWriterState l = Some (Inr (), l') \<and> logged_once l' r"
proof -
  obtain d where d: "LogFile_readRecord 16 (log_disk_of l, LogRecord_new) = (Inr (frame_span (of_nat (wireSize r))), (d, zero_record))"
    "log_holds d (wal_start @ frame_bytes r @ replicate (padding (wireSize r + 4)) 0)"
    using once_read [OF assms] by blast
  have sz: "LogFile_fileSize (snd d) = LogFile_fileSize (lm_file (snd l))"
    using sees_size [OF readRecord_sees(1) [OF d(1)]] by (simp add: log_disk_of_def)
  have "restoreLoop (16 + frame_span (of_nat (wireSize r))) (lr_lsn zero_record) d = Some (lr_lsn zero_record, d)"
    using once_size(2) [OF assms] sz by (subst restoreLoop.simps) simp
  then have "restoreLoop 16 0 (log_disk_of l) = Some (0, d)"
    using d(1) once_size(1) [OF assms] by (subst restoreLoop.simps) (simp add: log_disk_of_def zero_record_def LogRecord_new_def)
  then show ?thesis
    using once_update [OF assms d(2)] assms
    by (cases d) (simp add: LogManager_restoreWriterState_def LogWriter_restoreFromFile_def Let_def log_disk_of_def logged_once_def)
qed

text \<open>A log that starts with the header passes the check of the header.\<close>

lemma validate_file_holds:
  assumes "log_holds s (wal_start @ x)"
  shows "\<exists>d. LogFile_validate s = (Inr (), d) \<and> log_holds d (wal_start @ x)"
proof -
  obtain d where d: "LogFile_readBytes 0 (replicate 16 0) 16 s = (Inr wal_start, d)" "log_holds d (wal_start @ x)"
    using readBytes_holds [OF assms, of 0 16 "replicate 16 0"] by auto
  have "LogFile_fileSize (snd s) = of_nat (length (wal_start @ x))" "length (wal_start @ x) < 4611686018427387904"
    using assms by (simp_all add: log_holds_def LogFile_fileSize_def)
  then have "\<not> LogFile_fileSize (snd s) < 16" by (simp add: word_less_nat_alt unat_of_nat del: of_nat_add)
  then have "LogFile_readHeader s = (Inr (wal_header_of wal_start), d)"
    using d(1) log_holds_open [OF assms] by (auto simp: LogFile_readHeader_def LogFile_readBytes_def bindS_def thenS_def ret_def
        split: prod.splits sum.splits)
  moreover have "wh_magic (wal_header_of wal_start) = kJournalMagic" "wh_version (wal_header_of wal_start) = kWalFormatVersion"
    by (simp_all add: wal_start_def wal_header_of_def wal_header_image_def)
  ultimately show ?thesis using d(2) log_holds_open [OF assms] by (simp add: LogFile_validate_def)
qed

lemma once_validate:
  assumes "logged_once l r"
  shows "\<exists>l'. LogManager_validate l = Some (Inl (corruption ''LogValidator: invalid record type''), l') \<and> logged_once l' r"
proof -
  let ?c = "wal_start @ frame_bytes r @ replicate (padding (wireSize r + 4)) 0"
  have h: "log_holds (log_disk_of l) ?c" "lm_initialized (snd l)" using assms by (simp_all add: logged_once_def)
  obtain d where v: "LogFile_validate (log_disk_of l) = (Inr (), d)" and d: "log_holds d ?c"
    using validate_file_holds [OF h(1)] by blast
  let ?l1 = "(fst d, (snd l)\<lparr>lm_file := snd d\<rparr>)"
  have o: "logged_once ?l1 r" by (rule once_update [OF assms d])
  obtain e where e: "LogFile_readRecord 16 (d, LogRecord_new) = (Inr (frame_span (of_nat (wireSize r))), (e, zero_record))" "log_holds e ?c"
    using once_read [OF o, of LogRecord_new] by (auto simp: log_disk_of_def)
  have "logValidateLoop 16 0 (d, LogRecord_new) = Some (Inl (corruption ''LogValidator: invalid record type''), e)"
    using e(1) once_size(1) [OF o] zero_record_invalid by (subst logValidateLoop.simps) simp
  then have "LogManager_validate l = Some (Inl (corruption ''LogValidator: invalid record type''), (fst e, (snd ?l1)\<lparr>lm_file := snd e\<rparr>))"
    using v h(2) by (cases d; cases e) (simp add: LogManager_validate_def on_log_def log_disk_of_def)
  then show ?thesis using once_update [OF o e(2)] by simp
qed

lemma once_recover:
  fixes t :: "'w btree"
  assumes "logged_once l r"
  shows "\<exists>l'. recover fuel ord (l, t) =
    (Error (corruption ''LogValidator: invalid record type''), (l', tree_clear ord t), RecoveryResult_new)"
proof -
  obtain l1 where l1: "LogManager_rewindReader l = (Inr (), l1)" "logged_once l1 r" "rd_offset (lm_reader (snd l1)) = 16"
    "\<not> rd_endOfLog (lm_reader (snd l1))" using once_rewind [OF assms] by blast
  obtain l2 r2 where l2: "LogManager_readNext (l1, LogRecord_new) = (Inl (corruption ''LogValidator: invalid record type''), (l2, r2))"
    "logged_once l2 r" using once_readNext [OF l1(2-4)] by blast
  have "checkpointLoop (l1, LogRecord_new) (CheckpointPayload_new, 0) False = Some (Inr False, (CheckpointPayload_new, 0), l2)"
    using l2(1) by (subst checkpointLoop.simps) simp
  then have find: "findLastCheckpoint l =
    Some (Inl (invalidArgument ''CheckpointManager: no checkpoint found''), (CheckpointPayload_new, 0), l2)"
    using l1(1) by (simp add: findLastCheckpoint_def)
  obtain l3 where l3: "LogManager_rewindReader l2 = (Inr (), l3)" "logged_once l3 r" "rd_offset (lm_reader (snd l3)) = 16"
    "\<not> rd_endOfLog (lm_reader (snd l3))" using once_rewind [OF l2(2)] by blast
  obtain l4 r4 where l4: "LogManager_readNext (l3, LogRecord_new) = (Inl (corruption ''LogValidator: invalid record type''), (l4, r4))"
    "logged_once l4 r" using once_readNext [OF l3(2-4)] by blast
  have "replayLoop 0 (l3, tree_clear ord t) LogRecord_new RecoveryResult_new =
      Some (Done (), (l4, tree_clear ord t), RecoveryResult_new)"
    using l4(1) by (subst replayLoop.simps) simp
  then have rep: "replay 0 (l2, tree_clear ord t) = (Done (), (l4, tree_clear ord t), RecoveryResult_new)"
    using l3(1) by (simp add: replay_def logR_def outcome_of_def)
  obtain l5 where l5: "LogManager_restoreWriterState l4 = Some (Inr (), l5)" "logged_once l5 r" using once_restore [OF l4(2)] by blast
  obtain l6 where l6: "LogManager_rewindReader l5 = (Inr (), l6)" "logged_once l6 r" using once_rewind [OF l5(2)] by blast
  obtain l7 where l7: "LogManager_validate l6 = Some (Inl (corruption ''LogValidator: invalid record type''), l7)"
    using once_validate [OF l6(2)] by blast
  have "bindR (scanR LogManager_restoreWriterState) (\<lambda>_. bindR (logR LogManager_rewindReader) (\<lambda>_. recovery_validate fuel))
      (l4, tree_clear ord t) = (Error (corruption ''LogValidator: invalid record type''), (l7, tree_clear ord t))"
    using l5(1) l6(1) l7 by (simp add: bindR_def scanR_def logR_def outcome_of_def recovery_validate_def)
  then show ?thesis using find rep by (simp add: recover_def)
qed

lemma appends_payload:
  assumes "length (cp_btreeSnapshot p) < 2 ^ 32"
  shows "appends (payload_serialize p) (32 + length (cp_btreeSnapshot p))"
proof -
  let ?n = "of_nat (length (cp_btreeSnapshot p)) :: u32"
  have "unat ?n = length (cp_btreeSnapshot p)" using assms by (simp add: unat_of_nat)
  then have "?n > 0 \<longleftrightarrow> cp_btreeSnapshot p \<noteq> []" by (auto simp: word_less_nat_alt)
  then have pl: "appends (if ?n > 0 then writeBytes (cp_btreeSnapshot p) else ret ()) (length (cp_btreeSnapshot p))"
    using appends_writeBytes [of "cp_btreeSnapshot p"] appends_ret by auto
  have u32: "appends (write_word (y :: u32)) 4" and u64: "appends (write_word (z :: u64)) 8" for y z
    using appends_word [of y] appends_word [of z] by simp_all
  have "appends (payload_serialize p) (4 + (4 + (8 + (8 + (4 + (4 + length (cp_btreeSnapshot p)))))))"
    unfolding payload_serialize_def Let_def by (intro appends_thenS u32 u64 pl)
  then show ?thesis by simp
qed

lemma checkpoint_writes:
  assumes "lm_initialized (snd l)" "log_holds (log_disk_of l) wal_start" "buffered (snd l) = []"
    "lw_nextLsn (lm_writer (snd l)) \<noteq> 0" "clock (lw_nextLsn (lm_writer (snd l))) \<noteq> 0"
    "tree_serialize ord t (mkWriter emptyBuffer Little) = (Inr (), w)"
    "length (bytes (wbuf w)) + 81 \<le> log_capacity (snd l)" "log_capacity (snd l) < 4294967200"
  shows "\<exists>l' r. createCheckpoint clock ord (l, t) = (Done (lw_nextLsn (lm_writer (snd l))), (l', t)) \<and> logged_once l' r"
proof -
  let ?m = "snd l" and ?b = "bytes (wbuf w)"
  define p where "p = checkpoint_of (lw_currentLsn (lm_writer ?m)) ?b t"
  have sn: "cp_btreeSnapshot p = ?b" by (simp add: p_def checkpoint_of_def)
  have len: "length ?b < 4294967119" using assms(7,8) by linarith
  obtain w' where w': "payload_serialize p (mkWriter emptyBuffer Little) = (Inr (), w')"
    "bytes (wbuf w') = replicate (32 + length ?b) 0"
  proof -
    have e: "at_end (mkWriter emptyBuffer Little)" "bytes (wbuf (mkWriter emptyBuffer Little)) = []"
      by (simp_all add: mkWriter_def emptyBuffer_def at_end_def)
    have "appends (payload_serialize p) (32 + length ?b)" using appends_payload [of p] len sn by simp
    then show thesis using e that unfolding appends_def by fastforce
  qed
  define r where "r = (make_now clock CheckpointMarkerRecord kInvalidPageId ?m)\<lparr>lr_payload := bytes (wbuf w')\<rparr>"
  have pl: "lr_payload r = replicate (32 + length ?b) 0" by (simp add: r_def w'(2))
  have wire: "wireSize r = 77 + length ?b" using pl by (simp add: wireSize_def)
  have lg: "loggable r"
    using pl len assms(5) by (simp add: loggable_def r_def make_now_def LogRecord_make_def isValidRecordType_def)
  have "length (buffered ?m) + wireSize r + 4 \<le> log_capacity ?m" "log_capacity ?m < 2 ^ 64" using assms(3,7,8) wire by simp_all
  from append_record_ok [OF lg assms(4) this] obtain m1 where m1: "LogWriter_appendRecord r ?m = (Inr (), m1)"
    "buffered m1 = frame_bytes r" "lw_currentLsn (lm_writer m1) = lw_nextLsn (lm_writer ?m)" "lm_file m1 = lm_file ?m" "lm_initialized m1"
    using assms(1,3) by auto
  have app: "append_payload clock CheckpointMarkerRecord kInvalidPageId (payload_serialize p) ?m = (Inr (), m1)"
    using w'(1) m1(1) assms(1) by (simp add: append_payload_def LogManager_append_def r_def)
  have "log_holds (log_disk_of (fst l, m1)) wal_start" using assms(2) m1(4) by (simp add: log_disk_of_def)
  then obtain l2 where l2: "LogManager_flush (fst l, m1) = (Inr (), l2)" "lm_initialized (snd l2)"
    "log_holds (log_disk_of l2) (wal_start @ frame_bytes r @ replicate (padding (wireSize r + 4)) 0)"
    "lw_currentLsn (lm_writer (snd l2)) = lw_nextLsn (lm_writer ?m)"
    using flush_holds [of "(fst l, m1)" wal_start] m1(2,3,5) len wire by auto
  have "logged_once l2 r" using l2(2,3) wire assms(7,8) by (simp add: logged_once_def)
  moreover have "createCheckpoint clock ord (l, t) = (Done (lw_nextLsn (lm_writer ?m)), (l2, t))"
    using assms(6) app l2(1,4)
    by (cases l) (simp add: createCheckpoint_def Let_def p_def bindR_def logR_def outcome_of_def)
  ultimately show ?thesis by blast
qed

text \<open>
  C25. A checkpoint cannot be recovered from: after a successful checkpoint into a fresh log, recovery
  finds no checkpoint, clears the tree, and ends with the error of the log's validation; nothing of
  the tree is left.
\<close>

theorem checkpoint_is_lost:
  assumes "lm_initialized (snd l)" "log_holds (log_disk_of l) wal_start" "buffered (snd l) = []"
    "lw_nextLsn (lm_writer (snd l)) \<noteq> 0" "clock (lw_nextLsn (lm_writer (snd l))) \<noteq> 0"
    "tree_serialize ord t (mkWriter emptyBuffer Little) = (Inr (), w)"
    "length (bytes (wbuf w)) + 81 \<le> log_capacity (snd l)" "log_capacity (snd l) < 4294967200"
  shows "\<exists>s1 l2. checkpoint clock what ord False (l, t) = (Done (lw_nextLsn (lm_writer (snd l))), s1) \<and>
    recover fuel ord s1 = (Error (corruption ''LogValidator: invalid record type''), (l2, tree_clear ord t), RecoveryResult_new)"
proof -
  obtain l1 r where l1: "createCheckpoint clock ord (l, t) = (Done (lw_nextLsn (lm_writer (snd l))), (l1, t))" "logged_once l1 r"
    using checkpoint_writes [of l clock ord t w, OF assms] by blast
  then have "checkpoint clock what ord False (l, t) = (Done (lw_nextLsn (lm_writer (snd l))), (l1, t))"
    by (simp add: checkpoint_def returnR_def)
  then show ?thesis using once_recover [OF l1(2), of fuel ord t] by blast
qed

definition fresh_log :: log_state where
  "fresh_log = (\<lparr>files = [''wal'' \<mapsto> wal_start], openable = (\<lambda>_. True)\<rparr>, snd sample_log)"

theorem checkpoint_is_lost_witness:
  "\<exists>s1 l2. checkpoint (\<lambda>_. 1) [] (\<lambda>_. []) False (fresh_log, tree_new (SpaceManager_new FirstFitPolicy) BTreeNodeConfig ()) = (Done 1, s1) \<and>
    recover 10 (\<lambda>_. []) s1 = (Error (corruption ''LogValidator: invalid record type''),
      (l2, tree_clear (\<lambda>_. []) (tree_new (SpaceManager_new FirstFitPolicy) BTreeNodeConfig ())), RecoveryResult_new)"
proof -
  let ?t = "tree_new (SpaceManager_new FirstFitPolicy) BTreeNodeConfig ()"
  have log: "log_holds (log_disk_of fresh_log) wal_start"
    using sample_log_ok(2) by (simp add: fresh_log_def sample_log_def log_disk_of_def log_holds_def disk_of_def file_ok_def content_def
        stream_bytes_def)
  have "appends (write_word (x :: u8)) 1" "appends (write_word (y :: u16)) 2" "appends (write_word (z :: u32)) 4"
    "appends (write_word (u :: u64)) 8" for x y z u
    using appends_word [of x] appends_word [of y] appends_word [of z] appends_word [of u] by simp_all
  then have "appends (tree_serialize (\<lambda>_. []) ?t) (4 + (8 + (4 + (1 + (2 + (1 + (4 + (0 + 0))))))))"
    unfolding tree_serialize_def Let_def list.map write_pages.simps by (intro appends_thenS appends_ret)
  moreover have "at_end (mkWriter emptyBuffer Little)" "bytes (wbuf (mkWriter emptyBuffer Little)) = []"
    by (simp_all add: mkWriter_def emptyBuffer_def at_end_def)
  ultimately obtain w where "tree_serialize (\<lambda>_. []) ?t (mkWriter emptyBuffer Little) = (Inr (), w)" "length (bytes (wbuf w)) = 24"
    unfolding appends_def by fastforce
  from checkpoint_is_lost [OF _ log _ _ _ this(1), of "\<lambda>_. 1" "[]" 10] this(2) sample_log_ok
  show ?thesis by (simp add: fresh_log_def)
qed

end
