(* ===== verification/Database.thy ===== *)
theory Database
  imports Recovery
begin

text \<open>
  The engine (Database.h, Database.cpp, DatabaseOptions.h, DatabaseStatistics.h) and its consistency
  check (ConsistencyChecker.cpp): a data file, a tree and its log behind one interface. The state of
  the tree's sink is the log manager itself, so the adapter and the database share one log; the
  space manager is the one the tree holds.
\<close>

section \<open>State\<close>

record database_options =
  op_dataPath :: string
  op_createIfMissing :: bool
  op_enableWal :: bool
  op_recoverOnOpen :: bool
  op_truncateWalOnCheckpoint :: bool
  op_walBufferCapacity :: nat
  op_btreeConfig :: node_config

definition DatabaseOptions :: database_options where
  "DatabaseOptions =
     \<lparr>op_dataPath = [], op_createIfMissing = True, op_enableWal = True, op_recoverOnOpen = True,
      op_truncateWalOnCheckpoint = False, op_walBufferCapacity = 64 * 1024, op_btreeConfig = BTreeNodeConfig\<rparr>"

text \<open>The counters of \<^verbatim>\<open>DatabaseStatistics\<close>; its other members are filled in when it is read.\<close>

record database_counters =
  dc_openCount :: u64
  dc_checkpointCount :: u64
  dc_recoveryCount :: u64

record database =
  db_options :: database_options
  db_open :: bool
  db_file :: dbfile
  db_tree :: "log_manager btree"
  db_lastRecovery :: recovery_result
  db_counters :: database_counters

type_synonym engine = "world \<times> database"

definition Database_new :: "database_options \<Rightarrow> database" where
  "Database_new options =
     \<lparr>db_options = options, db_open = False, db_file = DatabaseFile_default,
      db_tree = tree_new (SpaceManager_new FirstFitPolicy) (op_btreeConfig options) LogManager_new,
      db_lastRecovery = RecoveryResult_new,
      db_counters = \<lparr>dc_openCount = 0, dc_checkpointCount = 0, dc_recoveryCount = 0\<rparr>\<rparr>"

text \<open>Calls of the members of the database.\<close>

definition fileD :: "(dbstate, 'a) op \<Rightarrow> engine \<Rightarrow> (status + 'a) \<times> engine" where
  "fileD m s = (case m (fst s, db_file (snd s)) of (res, (w, f)) \<Rightarrow> (res, (w, (snd s)\<lparr>db_file := f\<rparr>)))"

definition log_of :: "engine \<Rightarrow> log_state" where
  "log_of s = (fst s, bt_wal (db_tree (snd s)))"

definition set_log :: "log_state \<Rightarrow> engine \<Rightarrow> engine" where
  "set_log l s = (fst l, (snd s)\<lparr>db_tree := (db_tree (snd s))\<lparr>bt_wal := snd l\<rparr>\<rparr>)"

definition logD :: "(log_state, 'a) op \<Rightarrow> engine \<Rightarrow> (status + 'a) \<times> engine" where
  "logD m s = (case m (log_of s) of (res, l) \<Rightarrow> (res, set_log l s))"

definition treeD :: "(log_manager, 'a) tree_op \<Rightarrow> engine \<Rightarrow> 'a outcome \<times> engine" where
  "treeD m s = (case m (db_tree (snd s)) of (res, t) \<Rightarrow> (res, (fst s, (snd s)\<lparr>db_tree := t\<rparr>)))"

definition set_sink :: "log_manager wal_sink option \<Rightarrow> engine \<Rightarrow> engine" where
  "set_sink x s = (fst s, (snd s)\<lparr>db_tree := setWalSink x (db_tree (snd s))\<rparr>)"

section \<open>Opening and closing\<close>

definition walPathFor :: "string \<Rightarrow> string" where
  "walPathFor dataPath = dataPath @ ''.wal''"

text \<open>The status of the flush is dropped.\<close>

definition initializeStorage :: "string \<Rightarrow> bool \<Rightarrow> (dbstate, unit) op" where
  "initializeStorage path create s =
     (case DatabaseFile_open path create s of
        (Inl st, s1) \<Rightarrow> (Inl st, s1)
      | (Inr _, s1) \<Rightarrow>
          if create \<or> df_size (snd s1) < of_nat kPageSize
          then (case writePage (HeaderPage_create 1 0 0) s1 of
                  (Inl st, s2) \<Rightarrow> (Inl st, s2)
                | (Inr _, s2) \<Rightarrow> (Inr (), snd (DatabaseFile_flush s2)))
          else (Inr (), s1))"

definition initializeWal :: "string \<Rightarrow> bool \<Rightarrow> engine \<Rightarrow> unit outcome \<times> engine" where
  "initializeWal walPath create s =
     (case LogManager_initialize walPath create (log_of s) of
        None \<Rightarrow> (Diverges, s)
      | Some (res, l) \<Rightarrow> (outcome_of res, set_log l s))"

text \<open>During recovery the tree has no sink: it is set when opening has succeeded and removed in closing.\<close>

definition runRecovery :: "nat \<Rightarrow> (PageId set \<Rightarrow> PageId list) \<Rightarrow> engine \<Rightarrow> unit outcome \<times> engine" where
  "runRecovery fuel ord s =
     (let d = (snd s)\<lparr>db_counters := (db_counters (snd s))\<lparr>dc_recoveryCount := dc_recoveryCount (db_counters (snd s)) + 1\<rparr>\<rparr>
      in case recover fuel ord (log_of s, db_tree d) of
           (res, (l, t), result) \<Rightarrow> (res, set_log l (fst s, d\<lparr>db_tree := t, db_lastRecovery := result\<rparr>)))"

definition failed_open :: "bool \<Rightarrow> status \<Rightarrow> engine \<Rightarrow> unit outcome \<times> engine" where
  "failed_open shutdown st s =
     (let s1 = (if shutdown then snd (logD LogManager_shutdown s) else s)
      in (Error st, snd (fileD DatabaseFile_close s1)))"

definition Database_open ::
    "nat \<Rightarrow> (PageId set \<Rightarrow> PageId list) \<Rightarrow> (lsn \<Rightarrow> u64) \<Rightarrow> string \<Rightarrow> bool \<Rightarrow> engine \<Rightarrow> unit outcome \<times> engine" where
  "Database_open fuel ord clock path createIfMissing s =
     (if db_open (snd s) then (Error (invalidArgument ''Database: already open''), s)
      else
        let s0 = (fst s, (snd s)\<lparr>db_options := (db_options (snd s))\<lparr>op_dataPath := path\<rparr>\<rparr>);
            wal = op_enableWal (db_options (snd s0))
        in case fileD (initializeStorage path createIfMissing) s0 of
          (Inl st, s1) \<Rightarrow> (Error st, s1)
        | (Inr _, s1) \<Rightarrow>
            (case (if wal then initializeWal (walPathFor path) createIfMissing s1 else (Done (), s1)) of
               (Error st, s2) \<Rightarrow> failed_open False st s2
             | (Thrown, s2) \<Rightarrow> (Thrown, s2)
             | (Diverges, s2) \<Rightarrow> (Diverges, s2)
             | (Done _, s2) \<Rightarrow>
                 (case (if wal \<and> op_recoverOnOpen (db_options (snd s2)) then runRecovery fuel ord s2 else (Done (), s2)) of
                    (Error st, s3) \<Rightarrow> failed_open wal st s3
                  | (Thrown, s3) \<Rightarrow> (Thrown, s3)
                  | (Diverges, s3) \<Rightarrow> (Diverges, s3)
                  | (Done _, s3) \<Rightarrow>
                      let s4 = (if wal then set_sink (Some (BTreeWalAdapter clock)) s3 else s3);
                          d = snd s4
                      in (Done (), (fst s4, d\<lparr>db_open := True,
                           db_counters := (db_counters d)\<lparr>dc_openCount := dc_openCount (db_counters d) + 1\<rparr>\<rparr>)))))"

definition Database_close :: "engine \<Rightarrow> (status + unit) \<times> engine" where
  "Database_close s =
     (if \<not> db_open (snd s) then (Inr (), s)
      else
        let wal = op_enableWal (db_options (snd s))
        in case (if wal then thenS (logD LogManager_flush) (logD LogManager_shutdown) (set_sink None s) else (Inr (), s)) of
             (Inl st, s1) \<Rightarrow> (Inl st, s1)
           | (Inr _, s1) \<Rightarrow>
               (case fileD DatabaseFile_close s1 of (res, (w, d)) \<Rightarrow> (res, (w, d\<lparr>db_open := False\<rparr>))))"

section \<open>Operations\<close>

abbreviation not_open :: status where
  "not_open \<equiv> invalidArgument ''Database: not open''"

definition flushed :: "unit outcome \<times> engine \<Rightarrow> unit outcome \<times> engine" where
  "flushed r =
     (case r of
        (Done _, s) \<Rightarrow>
          if op_enableWal (db_options (snd s))
          then (case logD LogManager_flush s of (res, s') \<Rightarrow> (outcome_of res, s'))
          else (Done (), s)
      | (res, s) \<Rightarrow> (res, s))"

definition Database_insert :: "key \<Rightarrow> page_ref \<Rightarrow> engine \<Rightarrow> unit outcome \<times> engine" where
  "Database_insert k v s = (if \<not> db_open (snd s) then (Error not_open, s) else flushed (treeD (tree_insert k v) s))"

definition Database_erase :: "key \<Rightarrow> engine \<Rightarrow> unit outcome \<times> engine" where
  "Database_erase k s = (if \<not> db_open (snd s) then (Error not_open, s) else flushed (treeD (tree_erase k) s))"

definition Database_find :: "key \<Rightarrow> engine \<Rightarrow> page_ref outcome \<times> engine" where
  "Database_find k s = (if \<not> db_open (snd s) then (Error not_open, s) else treeD (tree_find k) s)"

definition Database_contains :: "key \<Rightarrow> engine \<Rightarrow> bool outcome \<times> engine" where
  "Database_contains k s = (if \<not> db_open (snd s) then (Done False, s) else treeD (tree_contains k) s)"

definition Database_checkpoint ::
    "(lsn \<Rightarrow> u64) \<Rightarrow> string \<Rightarrow> (PageId set \<Rightarrow> PageId list) \<Rightarrow> bool \<Rightarrow> engine \<Rightarrow> unit outcome \<times> engine" where
  "Database_checkpoint clock what ord truncateWal s =
     (if \<not> db_open (snd s) then (Error not_open, s)
      else if \<not> op_enableWal (db_options (snd s)) then (Error (invalidArgument ''Database: WAL not enabled''), s)
      else
        let doTruncate = (truncateWal \<or> op_truncateWalOnCheckpoint (db_options (snd s)))
        in case checkpoint clock what ord doTruncate (log_of s, db_tree (snd s)) of
             (Done _, (l, _)) \<Rightarrow>
               (case set_log l s of (w, d) \<Rightarrow>
                  (Done (), (w, d\<lparr>db_counters := (db_counters d)\<lparr>dc_checkpointCount := dc_checkpointCount (db_counters d) + 1\<rparr>\<rparr>)))
           | (Error st, (l, _)) \<Rightarrow> (Error st, set_log l s)
           | (Thrown, (l, _)) \<Rightarrow> (Thrown, set_log l s)
           | (Diverges, (l, _)) \<Rightarrow> (Diverges, set_log l s))"

definition consistency_check :: "nat \<Rightarrow> (PageId set \<Rightarrow> PageId list) \<Rightarrow> engine \<Rightarrow> unit outcome \<times> engine" where
  "consistency_check fuel ord s =
     (if \<not> db_open (snd s) then (Error (invalidArgument ''ConsistencyChecker: database not open''), s)
      else case tree_validate fuel (db_tree (snd s)) of
        Done _ \<Rightarrow>
          if op_enableWal (db_options (snd s))
          then (case bindR (scanR LogManager_validate) (\<lambda>_. verifyLogicalConsistency fuel ord) (log_of s, db_tree (snd s)) of
                  (res, (l, _)) \<Rightarrow> (res, set_log l s))
          else (Done (), s)
      | res \<Rightarrow> (res, s))"

definition Database_validate :: "nat \<Rightarrow> (PageId set \<Rightarrow> PageId list) \<Rightarrow> engine \<Rightarrow> unit outcome \<times> engine" where
  "Database_validate fuel ord s =
     (if \<not> db_open (snd s) then (Error not_open, s) else consistency_check fuel ord s)"

record database_statistics =
  ds_counters :: database_counters
  ds_btree :: tree_statistics
  ds_space :: space_stats
  ds_wal :: log_stats

definition statistics_of :: "(PageId set \<Rightarrow> PageId list) \<Rightarrow> database \<Rightarrow> database_statistics" where
  "statistics_of ord d =
     \<lparr>ds_counters = db_counters d, ds_btree = tree_statistics_of ord (db_tree d), ds_space = sm_stats (bt_space (db_tree d)),
      ds_wal = (if op_enableWal (db_options d) then LogManager_statistics (bt_wal (db_tree d)) else LogStatistics_new)\<rparr>"

section \<open>The engine without a log is a map\<close>

text \<open>Insertions are made while the leaf has room.\<close>

definition db_put :: "key \<Rightarrow> page_ref \<Rightarrow> (engine, unit) op" where
  "db_put k v s =
     (if has_room (db_tree (snd s)) then (case Database_insert k v s of (r, s') \<Rightarrow> (answer r, s'))
      else (Inl (invalidArgument ''leaf is full''), s))"

definition db_remove :: "key \<Rightarrow> (engine, unit) op" where
  "db_remove k s = (case Database_erase k s of (r, s') \<Rightarrow> (answer r, s'))"

definition plain :: "engine \<Rightarrow> bool" where
  "plain s \<longleftrightarrow> db_open (snd s) \<and> \<not> op_enableWal (db_options (snd s)) \<and> fs_open (df_stream (db_file (snd s)))"

abbreviation with_tree :: "log_manager btree \<Rightarrow> engine \<Rightarrow> engine" where
  "with_tree t s \<equiv> (fst s, (snd s)\<lparr>db_tree := t\<rparr>)"

lemma plain_with_tree [simp]: "plain (with_tree t s) = plain s"
  by (simp add: plain_def)

lemma plain_flushed: "plain s \<Longrightarrow> flushed (r, s) = (r, s)"
  by (cases r) (simp_all add: flushed_def plain_def)

lemma plain_insert:
  assumes "plain s" "tree_insert k v (db_tree (snd s)) = (r, t)"
  shows "Database_insert k v s = (r, with_tree t s)"
  using assms plain_flushed [of "with_tree t s" r] by (simp add: Database_insert_def treeD_def plain_def)

lemma plain_erase:
  assumes "plain s" "tree_erase k (db_tree (snd s)) = (r, t)"
  shows "Database_erase k s = (r, with_tree t s)"
  using assms plain_flushed [of "with_tree t s" r] by (simp add: Database_erase_def treeD_def plain_def)

lemma plain_put:
  assumes "plain s" "db_put k v s = (r, s')"
  shows "\<exists>t. tree_put k v (db_tree (snd s)) = (r, t) \<and> s' = with_tree t s"
proof (cases "has_room (db_tree (snd s))")
  case True
  obtain r1 t where i: "tree_insert k v (db_tree (snd s)) = (r1, t)" by (cases "tree_insert k v (db_tree (snd s))")
  show ?thesis using True assms plain_insert [OF assms(1) i] i by (simp add: db_put_def tree_put_def)
next
  case False
  then show ?thesis using assms(2) by (cases s) (auto simp: db_put_def tree_put_def)
qed

lemma plain_remove:
  assumes "plain s" "db_remove k s = (r, s')"
  shows "\<exists>t. tree_remove k (db_tree (snd s)) = (r, t) \<and> s' = with_tree t s"
proof -
  obtain r1 t where i: "tree_erase k (db_tree (snd s)) = (r1, t)" by (cases "tree_erase k (db_tree (snd s))")
  show ?thesis using assms plain_erase [OF assms(1) i] i by (simp add: db_remove_def tree_remove_def)
qed

definition plain_single :: "node_config \<Rightarrow> engine \<Rightarrow> bool" where
  "plain_single config s \<longleftrightarrow> plain s \<and> single (db_tree (snd s)) \<and> bt_config (db_tree (snd s)) = config"

lemma plain_single_with_tree:
  "plain_single config s \<Longrightarrow> single t \<and> bt_config t = config \<Longrightarrow> plain_single config (with_tree t s)"
  by (simp add: plain_single_def)

interpretation enginemap: map_store db_put db_remove "\<lambda>s. tree_map (db_tree (snd s))" "plain_single config" "key_typed config" for config
proof unfold_locales
  fix s s' k v u
  assume h: "plain_single config s" "key_typed config k" "db_put k v s = (Inr u, s')"
  then obtain t where t: "tree_put k v (db_tree (snd s)) = (Inr u, t)" "s' = with_tree t s"
    using plain_put plain_single_def by blast
  with treemap.ins_ok [of "db_tree (snd s)" config k v u t] h plain_single_with_tree [OF h(1), of t]
  show "plain_single config s' \<and> tree_map (db_tree (snd s)) k = None \<and>
      tree_map (db_tree (snd s')) = (tree_map (db_tree (snd s)))(k \<mapsto> v)"
    by (simp add: plain_single_def)
next
  fix s s' k v st
  assume h: "plain_single config s" "key_typed config k" "db_put k v s = (Inl st, s')"
  then obtain t where t: "tree_put k v (db_tree (snd s)) = (Inl st, t)" "s' = with_tree t s"
    using plain_put plain_single_def by blast
  with treemap.ins_error [of "db_tree (snd s)" config k v st t] h plain_single_with_tree [OF h(1), of t]
  show "plain_single config s' \<and> tree_map (db_tree (snd s')) = tree_map (db_tree (snd s))"
    by (simp add: plain_single_def)
next
  fix s s' k u
  assume h: "plain_single config s" "key_typed config k" "db_remove k s = (Inr u, s')"
  then obtain t where t: "tree_remove k (db_tree (snd s)) = (Inr u, t)" "s' = with_tree t s"
    using plain_remove plain_single_def by blast
  with treemap.del_ok [of "db_tree (snd s)" config k u t] h plain_single_with_tree [OF h(1), of t]
  show "plain_single config s' \<and> tree_map (db_tree (snd s)) k \<noteq> None \<and>
      tree_map (db_tree (snd s')) = (tree_map (db_tree (snd s)))(k := None)"
    by (simp add: plain_single_def)
next
  fix s s' k st
  assume h: "plain_single config s" "key_typed config k" "db_remove k s = (Inl st, s')"
  then obtain t where t: "tree_remove k (db_tree (snd s)) = (Inl st, t)" "s' = with_tree t s"
    using plain_remove plain_single_def by blast
  with treemap.del_error [of "db_tree (snd s)" config k st t] h plain_single_with_tree [OF h(1), of t]
  show "plain_single config s' \<and> tree_map (db_tree (snd s)) k = None \<and>
      tree_map (db_tree (snd s')) = tree_map (db_tree (snd s))"
    by (simp add: plain_single_def)
qed

lemma open_file_ok:
  assumes "openable w path" "\<not> fs_open (df_stream f)"
  shows "\<exists>s. DatabaseFile_open path True (w, f) = (Inr (), s) \<and> file_ok s"
  using assms by (auto simp: DatabaseFile_open_def stream_open_def file_ok_def Let_def)

lemma flush_ok: "file_ok s \<Longrightarrow> DatabaseFile_flush s = (Inr (), s)"
  by (cases s) (simp add: DatabaseFile_flush_def file_ok_def)

lemma header_page_id: "Page_id (HeaderPage_create a b c) = 0"
  by (simp add: HeaderPage_create_def HeaderPage_store_def Let_def Page_id_def Page_new_def PageHeader_make_def)

lemma storage_ok:
  assumes "openable w path" "\<not> fs_open (df_stream f)"
  shows "\<exists>s. initializeStorage path True (w, f) = (Inr (), s) \<and> file_ok s"
proof -
  obtain s1 where s1: "DatabaseFile_open path True (w, f) = (Inr (), s1)" "file_ok s1" using open_file_ok [OF assms] by blast
  obtain s2 where s2: "writePage (HeaderPage_create 1 0 0) s1 = (Inr (), s2)" "file_ok s2"
    using writePage_ok [OF s1(2), of "HeaderPage_create 1 0 0"] by (auto simp: header_page_id kInvalidPageId_def)
  show ?thesis using s1(1) s2 flush_ok [OF s2(2)] by (simp add: initializeStorage_def)
qed

text \<open>A new database without a log opens, with an empty tree.\<close>

lemma open_plain:
  assumes "openable w path" "\<not> op_enableWal options"
  shows "\<exists>s. Database_open fuel ord clock path True (w, Database_new options) = (Done (), s) \<and> plain s \<and>
    db_tree (snd s) = db_tree (Database_new options)"
proof -
  have "\<not> fs_open (df_stream (db_file (Database_new options)))"
    by (simp add: Database_new_def DatabaseFile_default_def closed_stream_def)
  then obtain s1 where s1: "initializeStorage path True (w, db_file (Database_new options)) = (Inr (), s1)" "file_ok s1"
    using storage_ok [OF assms(1)] by blast
  have f: "db_open (Database_new options) = False" "db_options (Database_new options) = options" by (simp_all add: Database_new_def)
  show ?thesis
    using s1 assms(2)
    by (cases s1) (simp add: Database_open_def Let_def f fileD_def plain_def file_ok_def)
qed

lemma close_plain:
  assumes "plain s"
  shows "\<exists>s'. Database_close s = (Inr (), s') \<and> \<not> db_open (snd s')"
  using assms
  by (auto simp: Database_close_def plain_def fileD_def DatabaseFile_close_def stream_close_def Let_def split: prod.splits)

section \<open>Properties\<close>



end
