(* ===== verification/DatabaseSpec.thy ===== *)
theory DatabaseSpec
  imports Database
begin

text \<open>
  What happens when a database whose log holds a record is opened again.
\<close>

section \<open>A log whose first record is zeros\<close>

definition zero_log :: "log_record \<Rightarrow> log_disk \<Rightarrow> bool" where
  "zero_log r d \<longleftrightarrow> wireSize r < 4294967296 \<and> 16 < LogFile_fileSize (snd d) \<and> unat (LogFile_fileSize (snd d)) < 2 ^ 63 \<and>
     (\<exists>rest. content (disk_of d) = wal_start @ frame_bytes r @ rest)"

lemma zero_log_sees: "zero_log r d \<Longrightarrow> sees d' = sees d \<Longrightarrow> zero_log r d'"
  by (auto simp: zero_log_def sees_def)

text \<open>Reading inside the file either fails or returns the bytes there.\<close>

lemma readBytes_inside:
  assumes "LogFile_readBytes p prior n s = (Inr bs, s')" "unat p + n \<le> length (content (disk_of s))" "length prior = n"
  shows "bs = take n (drop (unat p) (content (disk_of s)))"
proof -
  obtain d1 where d1: "DatabaseFile_seek p (disk_of s) = (Inr (), d1)"
    and rd: "on_db (DatabaseFile_readBytes prior n) (fst d1, (snd s)\<lparr>lf_file := snd d1\<rparr>) = (Inr bs, s')"
    using assms(1)
    by (cases "DatabaseFile_seek p (disk_of s)"; cases "fst (DatabaseFile_seek p (disk_of s))")
      (auto simp: LogFile_readBytes_def on_db_def disk_of_def bindS_def thenS_def split: if_splits)
  have "\<not> fs_fail (df_stream (snd d1)) \<and> fs_open (df_stream (snd d1)) \<and> fs_path (df_stream (snd d1)) = fs_path (df_stream (snd (disk_of s))) \<and>
      \<not> fs_eof (df_stream (snd d1)) \<and> fs_pos (df_stream (snd d1)) = unat p \<and> fst d1 = fst (disk_of s)"
    using d1 by (cases "disk_of s") (auto simp: DatabaseFile_seek_def stream_seek_def Let_def split: if_splits)
  then have ok: "file_ok d1" "content d1 = content (disk_of s)" "fs_pos (df_stream (snd d1)) = unat p"
    by (simp_all add: file_ok_def content_def stream_bytes_def)
  obtain d2 where "DatabaseFile_readBytes prior n d1 = (Inr (take n (drop (unat p) (content (disk_of s)))), d2)"
    using readBytes_ok [OF ok(1), of n prior] ok(2,3) assms(2,3) by auto
  then show ?thesis using rd by (cases d2) (simp add: on_db_def disk_of_def)
qed

lemma zero_log_read:
  assumes "zero_log r d" "LogFile_readRecord 16 (d, rec) = (Inr n, (d', rec'))"
  shows "rec' = zero_record"
proof -
  let ?n = "wireSize r"
  obtain rest where c: "content (disk_of d) = wal_start @ frame_bytes r @ rest" using assms(1) by (auto simp: zero_log_def)
  have w: "?n < 4294967296" using assms(1) by (simp add: zero_log_def)
  obtain bs d1 where d1: "LogFile_readBytes 16 (replicate 4 0) 4 d = (Inr bs, d1)"
    using assms(2) by (cases "LogFile_readBytes 16 (replicate 4 0) 4 d"; cases "fst (LogFile_readBytes 16 (replicate 4 0) 4 d)")
      (auto simp: LogFile_readRecord_def split: if_splits)
  have bs: "bs = mem (of_nat ?n :: u32)"
    using readBytes_inside [OF d1] c by (simp add: frame_bytes_def)
  have k: "unat (of_nat ?n :: u32) = ?n" using w by (simp add: unat_of_nat)
  have c1: "content (disk_of d1) = wal_start @ frame_bytes r @ rest"
    using quietD [OF quiet_readBytes d1] c by (simp add: sees_def)
  have nz: "(of_nat ?n :: u32) \<noteq> 0" using k by (metis add_is_0 unat_0 wireSize_def zero_neq_one)
  obtain bs2 d2 where d2: "LogFile_readBytes (16 + 4) (replicate ?n 0) ?n d1 = (Inr bs2, d2)"
    using assms(2) d1 bs k nz
    by (cases "LogFile_readBytes (16 + 4) (replicate ?n 0) ?n d1"; cases "fst (LogFile_readBytes (16 + 4) (replicate ?n 0) ?n d1)")
      (auto simp: LogFile_readRecord_def Let_def split: if_splits)
  have bs2: "bs2 = replicate ?n 0"
    using readBytes_inside [OF d2] c1 by (simp add: frame_bytes_def)
  obtain r1 r2 where rd: "reader_skip 4 (mkReader (mem (of_nat ?n :: u32) @ replicate ?n 0) Little) = (Inr (), r1)"
    "record_deserialize (r1, rec) = (Inr (), (r2, zero_record))" using zero_frame_reader [OF w] by blast
  show ?thesis using assms(2) d1 bs d2 bs2 k rd nz by (auto simp: LogFile_readRecord_def Let_def split: if_splits)
qed

text \<open>So the reader, placed at the start, hands out nothing, and validation fails.\<close>

lemma zero_log_readNext:
  assumes "zero_log r (log_disk_of l)" "rd_offset (lm_reader (snd l)) = 16" "lm_initialized (snd l)"
  shows "\<exists>st l' rec'. LogManager_readNext (l, rec) = (Inl st, (l', rec')) \<and> sees (log_disk_of l') = sees (log_disk_of l) \<and> lm_initialized (snd l')"
proof -
  obtain res d rec' where r: "LogFile_readRecord 16 (log_disk_of l, rec) = (res, (d, rec'))" by (metis prod.collapse)
  have s: "sees d = sees (log_disk_of l)" by (rule readRecord_sees(1) [OF r])
  show ?thesis
  proof (cases res)
    case (Inl st)
    then show ?thesis
      using r s assms(2,3) by (cases l; cases d) (auto simp: LogManager_readNext_def LogReader_readNext_def Let_def log_disk_of_def set_reader_def)
  next
    case (Inr n)
    then have "rec' = zero_record" using zero_log_read [OF assms(1)] r by blast
    then show ?thesis
      using Inr r s assms(2,3) zero_record_invalid
      by (cases l; cases d) (auto simp: LogManager_readNext_def LogReader_readNext_def Let_def log_disk_of_def set_reader_def)
  qed
qed

lemma zero_log_validate:
  assumes "zero_log r (log_disk_of l)" "lm_initialized (snd l)"
  shows "\<exists>st l'. LogManager_validate l = Some (Inl st, l')"
proof -
  obtain res d where v: "LogFile_validate (log_disk_of l) = (res, d)" by (cases "LogFile_validate (log_disk_of l)")
  have z: "zero_log r d" using zero_log_sees [OF assms(1) quietD [OF quiet_validate v]] .
  obtain res2 e rec' where r: "LogFile_readRecord 16 (d, LogRecord_new) = (res2, (e, rec'))" by (metis prod.collapse)
  have "\<exists>st. logValidateLoop 16 0 (d, LogRecord_new) = Some (Inl st, e)"
  proof (cases res2)
    case (Inl st)
    then show ?thesis using r z by (subst logValidateLoop.simps) (simp add: zero_log_def)
  next
    case (Inr n)
    then have "rec' = zero_record" using zero_log_read [OF z] r by blast
    then show ?thesis using Inr r z zero_record_invalid by (subst logValidateLoop.simps) (simp add: zero_log_def)
  qed
  then show ?thesis using v assms(2) by (cases res; cases d; cases e) (auto simp: LogManager_validate_def on_log_def log_disk_of_def)
qed

lemma zero_log_restore:
  assumes "zero_log r (log_disk_of l)" "lm_initialized (snd l)"
  shows "\<exists>l'. LogManager_restoreWriterState l = Some (Inr (), l') \<and> sees (log_disk_of l') = sees (log_disk_of l) \<and> lm_initialized (snd l')"
proof -
  have "unat (LogFile_fileSize (snd (log_disk_of l))) < 2 ^ 63" using assms(1) by (simp add: zero_log_def)
  from restore_returns [OF this, of 16 0] obtain m d where "restoreLoop 16 0 (log_disk_of l) = Some (m, d)" "sees d = sees (log_disk_of l)" by blast
  then show ?thesis
    using assms(2) by (cases d) (auto simp: LogManager_restoreWriterState_def LogWriter_restoreFromFile_def Let_def log_disk_of_def)
qed

lemma rewind_sees:
  assumes "lm_initialized (snd l)"
  shows "\<exists>l'. LogManager_rewindReader l = (Inr (), l') \<and> sees (log_disk_of l') = sees (log_disk_of l) \<and>
    lm_initialized (snd l') \<and> rd_offset (lm_reader (snd l')) = 16"
  using assms by (simp add: LogManager_rewindReader_def set_reader_def LogReader_rewind_def log_disk_of_def)

lemma zero_log_recover:
  assumes "zero_log r (log_disk_of l)" "lm_initialized (snd l)"
  shows "\<exists>st l'. recover fuel ord (l, t) = (Error st, (l', tree_clear ord t), RecoveryResult_new)"
proof -
  note keep = zero_log_sees [OF assms(1)]
  obtain l1 where l1: "LogManager_rewindReader l = (Inr (), l1)" "sees (log_disk_of l1) = sees (log_disk_of l)" "lm_initialized (snd l1)"
    "rd_offset (lm_reader (snd l1)) = 16" using rewind_sees [OF assms(2)] by blast
  obtain st2 l2 r2 where l2: "LogManager_readNext (l1, LogRecord_new) = (Inl st2, (l2, r2))" "sees (log_disk_of l2) = sees (log_disk_of l)"
    "lm_initialized (snd l2)" using zero_log_readNext [OF keep [OF l1(2)] l1(4,3)] l1(2) by metis
  have "checkpointLoop (l1, LogRecord_new) (CheckpointPayload_new, 0) False = Some (Inr False, (CheckpointPayload_new, 0), l2)"
    using l2(1) by (subst checkpointLoop.simps) simp
  then have find: "findLastCheckpoint l =
    Some (Inl (invalidArgument ''CheckpointManager: no checkpoint found''), (CheckpointPayload_new, 0), l2)"
    using l1(1) by (simp add: findLastCheckpoint_def)
  obtain l3 where l3: "LogManager_rewindReader l2 = (Inr (), l3)" "sees (log_disk_of l3) = sees (log_disk_of l)" "lm_initialized (snd l3)"
    "rd_offset (lm_reader (snd l3)) = 16" using rewind_sees [OF l2(3)] l2(2) by metis
  obtain st4 l4 r4 where l4: "LogManager_readNext (l3, LogRecord_new) = (Inl st4, (l4, r4))" "sees (log_disk_of l4) = sees (log_disk_of l)"
    "lm_initialized (snd l4)" using zero_log_readNext [OF keep [OF l3(2)] l3(4,3)] l3(2) by metis
  have "replayLoop 0 (l3, tree_clear ord t) LogRecord_new RecoveryResult_new =
      Some (Done (), (l4, tree_clear ord t), RecoveryResult_new)"
    using l4(1) by (subst replayLoop.simps) simp
  then have rep: "replay 0 (l2, tree_clear ord t) = (Done (), (l4, tree_clear ord t), RecoveryResult_new)"
    using l3(1) by (simp add: replay_def logR_def outcome_of_def)
  obtain l5 where l5: "LogManager_restoreWriterState l4 = Some (Inr (), l5)" "sees (log_disk_of l5) = sees (log_disk_of l)" "lm_initialized (snd l5)"
    using zero_log_restore [OF keep [OF l4(2)] l4(3)] l4(2) by metis
  obtain l6 where l6: "LogManager_rewindReader l5 = (Inr (), l6)" "sees (log_disk_of l6) = sees (log_disk_of l)" "lm_initialized (snd l6)"
    using rewind_sees [OF l5(3)] l5(2) by metis
  obtain st7 l7 where l7: "LogManager_validate l6 = Some (Inl st7, l7)" using zero_log_validate [OF keep [OF l6(2)] l6(3)] by blast
  have "bindR (scanR LogManager_restoreWriterState) (\<lambda>_. bindR (logR LogManager_rewindReader) (\<lambda>_. recovery_validate fuel))
      (l4, tree_clear ord t) = (Error st7, (l7, tree_clear ord t))"
    using l5(1) l6(1) l7 by (simp add: bindR_def scanR_def logR_def outcome_of_def recovery_validate_def)
  then show ?thesis using find rep by (simp add: recover_def)
qed

section \<open>Opening the log again\<close>

lemma open_existing:
  assumes "files w q = Some c" "\<not> fs_open (df_stream f)" "DatabaseFile_open q create (w, f) = (Inr (), s)"
  shows "file_ok s" "content s = c" "df_size (snd s) = of_nat (length c)" "fst s = w"
  using assms
  by (auto simp: DatabaseFile_open_def stream_open_def file_ok_def content_def stream_bytes_def Let_def split: if_splits)

lemma writeHeader_again:
  assumes "file_ok (disk_of s)" "content (disk_of s) = wal_start @ x" "LogFile_fileSize (snd s) = of_nat (length (wal_start @ x))"
    "length (wal_start @ x) < 4611686018427387904" "lf_attached (snd s)"
  shows "\<exists>s'. LogFile_writeHeader s = (Inr (), s') \<and> sees s' = sees s"
proof -
  obtain d1 where d1: "DatabaseFile_seek 0 (disk_of s) = (Inr (), d1)" "file_ok d1" "content d1 = wal_start @ x"
    "fs_pos (df_stream (snd d1)) = 0" "df_size (snd d1) = df_size (snd (disk_of s))"
    using seek_any [OF assms(1), of 0] assms(2) by auto
  note b1 = on_db_ok [of "DatabaseFile_seek 0", OF d1(1)]
  obtain d2 where d2: "DatabaseFile_writeBytes wal_start d1 = (Inr (), d2)" "content d2 = wal_start @ x"
    "df_size (snd d2) = max (df_size (snd d1)) (of_nat 16)"
    using write_any [OF d1(2), of wal_start] d1(3,4) by (auto simp: patch_def)
  have u: "unat (of_nat (length (wal_start @ x)) :: u64) = length (wal_start @ x)" using assms(4) by (simp add: unat_of_nat del: of_nat_add)
  have "(of_nat 16 :: u64) \<le> of_nat (length (wal_start @ x))" unfolding word_le_nat_alt u by simp
  then have "of_nat 16 \<le> df_size (snd d1)"
    using d1(5) assms(3,5) by (simp add: LogFile_fileSize_def disk_of_def)
  then have sz: "df_size (snd d2) = df_size (lf_file (snd s))"
    using d2(3) d1(5) max.absorb1 by (metis disk_of_def snd_conv)
  let ?s1 = "(fst d1, (snd s)\<lparr>lf_file := snd d1\<rparr>)"
  have "on_db (DatabaseFile_writeBytes wal_start) ?s1 = (Inr (), (fst d2, (snd s)\<lparr>lf_file := snd d2\<rparr>))"
    using on_db_ok(1) [of "DatabaseFile_writeBytes wal_start" ?s1] b1(2) d2(1) by simp
  then have "LogFile_writeHeader s = (Inr (), (fst d2, (snd s)\<lparr>lf_file := snd d2\<rparr>))"
    using b1(1) by (simp add: LogFile_writeHeader_def wal_start_def)
  then show ?thesis using d2(2) sz assms(2) by (simp add: sees_def disk_of_def LogFile_fileSize_def)
qed

lemma readHeader_again:
  assumes "file_ok (disk_of s)" "lf_attached (snd s)" "16 \<le> length (content (disk_of s))" "16 \<le> LogFile_fileSize (snd s)"
  shows "\<exists>h s'. LogFile_readHeader s = (Inr h, s')"
proof -
  obtain d1 where d1: "DatabaseFile_seek 0 (disk_of s) = (Inr (), d1)" "file_ok d1" "content d1 = content (disk_of s)"
    "fs_pos (df_stream (snd d1)) = 0" using seek_any [OF assms(1), of 0] by auto
  note b1 = on_db_ok [of "DatabaseFile_seek 0", OF d1(1)]
  obtain d2 bs where d2: "DatabaseFile_readBytes (replicate 16 0) 16 d1 = (Inr bs, d2)"
    using readBytes_ok [OF d1(2), of 16 "replicate 16 0"] d1(3,4) assms(3) by auto
  let ?s1 = "(fst d1, (snd s)\<lparr>lf_file := snd d1\<rparr>)"
  have "on_db (DatabaseFile_readBytes (replicate 16 0) 16) ?s1 = (Inr bs, (fst d2, (snd s)\<lparr>lf_file := snd d2\<rparr>))"
    using on_db_ok(1) [of "DatabaseFile_readBytes (replicate 16 0) 16" ?s1] b1(2) d2 by simp
  moreover have "LogFile_isOpen s" using assms(1,2) by (simp add: LogFile_isOpen_def file_ok_def disk_of_def)
  moreover have "\<not> LogFile_fileSize (snd s) < 16" using assms(4) by (simp add: not_less)
  ultimately show ?thesis using b1(1) by (simp add: LogFile_readHeader_def ret_def)
qed

lemma log_file_again:
  assumes "files w q = Some (wal_start @ x)" "\<not> fs_open (df_stream (lf_file f))" "length (wal_start @ x) < 4611686018427387904"
  shows "\<exists>res s. (if create then LogFile_create q else LogFile_open q True) (w, f) = (res, s) \<and>
    (res = Inr () \<longrightarrow> sees s = (wal_start @ x, of_nat (length (wal_start @ x))))"
proof -
  obtain r d where Pair: "DatabaseFile_open q True (w, lf_file f) = (r, d)" by (cases "DatabaseFile_open q True (w, lf_file f)")
  let ?f1 = "f\<lparr>lf_attached := True\<rparr>" and ?s2 = "(fst d, f\<lparr>lf_attached := True, lf_file := snd d\<rparr>)"
  have o: "on_db (DatabaseFile_open q True) (w, ?f1) = (r, ?s2)" using Pair by (cases d) (simp add: on_db_def)
  show ?thesis
  proof (cases r)
    case (Inl st)
    then show ?thesis using o by (simp add: LogFile_create_def LogFile_open_def Let_def)
  next
    case (Inr u)
    then have d: "file_ok d" "content d = wal_start @ x" "df_size (snd d) = of_nat (length (wal_start @ x))"
      using open_existing [OF assms(1), of "lf_file f" True d] assms(2) Pair by auto
    have s2: "file_ok (disk_of s)" "content (disk_of s) = wal_start @ x" "LogFile_fileSize (snd s) = of_nat (length (wal_start @ x))"
      if "lf_file (snd s) = snd d" "fst s = fst d" "lf_attached (snd s)" for s
      using that d by (simp_all add: disk_of_def LogFile_fileSize_def)
    show ?thesis
    proof (cases create)
      case True
      let ?s3 = "(fst d, f\<lparr>lf_attached := True, lf_file := snd d, lf_appendOffset := 16\<rparr>)"
      obtain s' where "LogFile_writeHeader ?s3 = (Inr (), s')" "sees s' = sees ?s3"
        using writeHeader_again [of ?s3 x] s2 [of ?s3] assms(3) by auto
      then show ?thesis
        using True o Inr s2 [of ?s3] by (simp add: LogFile_create_def Let_def set_appendOffset_def sees_def)
    next
      case False
      have u: "unat (of_nat (length (wal_start @ x)) :: u64) = length (wal_start @ x)" using assms(3) by (simp add: unat_of_nat del: of_nat_add)
      have "16 \<le> LogFile_fileSize (snd ?s2)" using s2(3) [of ?s2] u by (simp add: word_le_nat_alt del: of_nat_add)
      then obtain h s' where h: "LogFile_readHeader ?s2 = (Inr h, s')"
        using readHeader_again [of ?s2] s2 [of ?s2] by auto
      have "sees s' = sees ?s2" by (rule quietD [OF quiet_readHeader h])
      then show ?thesis
        using False o Inr h s2 [of ?s2]
        by (auto simp: LogFile_open_def Let_def set_appendOffset_def sees_def disk_of_def LogFile_fileSize_def split: if_splits)
    qed
  qed
qed

lemma initialize_again:
  assumes "files w q = Some (wal_start @ frame_bytes r @ rest)" "\<not> fs_open (df_stream (lf_file (lm_file m)))" "\<not> lm_initialized m"
    "length (wal_start @ frame_bytes r @ rest) < 4611686018427387904" "wireSize r < 4294967296"
  shows "\<exists>res l. LogManager_initialize q create (w, m) = Some (res, l) \<and>
    (res = Inr () \<longrightarrow> zero_log r (log_disk_of l) \<and> lm_initialized (snd l))"
proof -
  let ?c = "wal_start @ frame_bytes r @ rest"
  let ?open = "if create then LogFile_create q else LogFile_open q True"
  obtain res s where s: "?open (w, lm_file m) = (res, s)" "res = Inr () \<longrightarrow> sees s = (?c, of_nat (length ?c))"
    using log_file_again [OF assms(1,2,4)] by blast
  have on: "on_log ?open (w, m) = (res, (fst s, m\<lparr>lm_file := snd s\<rparr>))" using s(1) by (cases s) (simp add: on_log_def)
  show ?thesis
  proof (cases res)
    case (Inl st)
    then show ?thesis using on assms(3) by (simp add: LogManager_initialize_def)
  next
    case (Inr u)
    obtain res2 d where v: "LogFile_validate s = (res2, d)" by (cases "LogFile_validate s")
    have sd: "sees d = (?c, of_nat (length ?c))" using quietD [OF quiet_validate v] s(2) Inr by simp
    have len: "unat (of_nat (length ?c) :: u64) = length ?c" using assms(4) by (simp add: unat_of_nat del: of_nat_add)
    have z: "zero_log r e" if "sees e = sees d" for e
    proof -
      have "LogFile_fileSize (snd e) = of_nat (length ?c)" "content (disk_of e) = ?c" using that sd by (simp_all add: sees_def)
      moreover have "(16 :: u64) < of_nat (length ?c)" unfolding word_less_nat_alt len by simp
      ultimately show ?thesis using len assms(4,5) by (auto simp: zero_log_def simp del: of_nat_add)
    qed
    let ?m1 = "m\<lparr>lm_file := snd d\<rparr>"
    have on2: "on_log LogFile_validate (fst s, m\<lparr>lm_file := snd s\<rparr>) = (res2, (fst d, ?m1))" using v by (cases d) (simp add: on_log_def)
    have start: "thenS (on_log ?open) (on_log LogFile_validate) (w, m) = (res2, (fst d, ?m1))" using on on2 Inr by simp
    have "unat (LogFile_fileSize (snd (fst d, lm_file ?m1))) < 2 ^ 63" using z [of d] by (simp add: zero_log_def)
    from restore_returns [OF this, of 16 0] obtain mx e where e: "restoreLoop 16 0 (fst d, snd d) = Some (mx, e)" "sees e = sees d"
      by auto
    have "\<exists>l2. (if \<not> create \<and> LogFile_fileSize (lm_file ?m1) > of_nat kWalHeaderSize then LogWriter_restoreFromFile (fst d, ?m1)
        else Some (fst d, ?m1)) = Some l2 \<and> sees (log_disk_of l2) = sees d"
    proof (cases "\<not> create \<and> LogFile_fileSize (lm_file ?m1) > of_nat kWalHeaderSize")
      case True
      then show ?thesis using e by (cases e) (simp add: LogWriter_restoreFromFile_def Let_def log_disk_of_def)
    next
      case False
      then show ?thesis unfolding if_not_P [OF False] by (cases d) (simp add: log_disk_of_def)
    qed
    then obtain l2 where l2: "(if \<not> create \<and> LogFile_fileSize (lm_file ?m1) > of_nat kWalHeaderSize then LogWriter_restoreFromFile (fst d, ?m1)
        else Some (fst d, ?m1)) = Some l2" "sees (log_disk_of l2) = sees d" by blast
    show ?thesis
    proof (cases res2)
      case (Inl st)
      then show ?thesis using start assms(3) by (simp add: LogManager_initialize_def)
    next
      case (Inr u)
      have "zero_log r (log_disk_of (set_reader LogReader_rewind (fst l2, (snd l2)\<lparr>lm_initialized := True\<rparr>)))"
        using z [of "log_disk_of l2"] l2(2) by (simp add: set_reader_def log_disk_of_def)
      then show ?thesis using start l2(1) Inr assms(3) by (simp add: LogManager_initialize_def set_reader_def)
    qed
  qed
qed

section \<open>The data file does not touch the log\<close>

lemma storage_elsewhere:
  assumes "\<not> fs_open (df_stream f)" "initializeStorage path create (w, f) = (Inr (), (w', f'))" "q \<noteq> path"
  shows "files w' q = files w q"
proof -
  obtain w1 f1 where o: "DatabaseFile_open path create (w, f) = (Inr (), (w1, f1))"
    using assms(2) by (cases "DatabaseFile_open path create (w, f)"; cases "fst (DatabaseFile_open path create (w, f))")
      (auto simp: initializeStorage_def)
  have 1: "files w1 q = files w q" "fs_path (df_stream f1) = path"
    using o assms(1,3) by (auto simp: DatabaseFile_open_def stream_open_def Let_def split: if_splits)
  have sk: "fs_path (df_stream (snd (snd (DatabaseFile_seek p s)))) = fs_path (df_stream (snd s))" "fst (snd (DatabaseFile_seek p s)) = fst s" for p s
    by (cases s; simp add: DatabaseFile_seek_def stream_seek_def Let_def)+
  have wr: "fs_path (df_stream (snd (snd (DatabaseFile_writeBytes b s)))) = fs_path (df_stream (snd s))"
    "fs_path (df_stream (snd s)) = path \<Longrightarrow> files (fst (snd (DatabaseFile_writeBytes b s))) q = files (fst s) q" for b s
    using assms(3) by (cases s; auto simp: DatabaseFile_writeBytes_def stream_write_def Let_def)+
  have pg: "files (fst (snd (writePage p s))) q = files (fst s) q" if pa: "fs_path (df_stream (snd s)) = path" for p s
  proof -
    obtain r1 s1 where s1: "DatabaseFile_seek (page_position (Page_id p)) s = (r1, s1)" by (rule prod.exhaust)
    obtain r2 s2 where s2: "DatabaseFile_writeBytes (page_header_image (pg_header p)) s1 = (r2, s2)" by (rule prod.exhaust)
    obtain r3 s3 where s3: "DatabaseFile_writeBytes (Page_payload p) s2 = (r3, s3)" by (rule prod.exhaust)
    have "fs_path (df_stream (snd s1)) = path" "fst s1 = fst s" using sk [of "page_position (Page_id p)" s] s1 pa by simp_all
    moreover from this have "fs_path (df_stream (snd s2)) = path" "files (fst s2) q = files (fst s) q"
      using wr [where b = "page_header_image (pg_header p)" and s = s1] s2 by simp_all
    moreover from this have "files (fst s3) q = files (fst s) q" using wr(2) [where b = "Page_payload p" and s = s2] s3 by simp
    ultimately show ?thesis using s1 s2 s3 by (cases r1; cases r2) (simp_all add: writePage_def fail_def)
  qed
  have fl: "snd (DatabaseFile_flush s) = s" for s by (cases s) (simp add: DatabaseFile_flush_def)
  show ?thesis
    using assms(2) o 1 pg [of "(w1, f1)" "HeaderPage_create 1 0 0"] fl
    by (auto simp: initializeStorage_def split: if_splits sum.splits prod.splits)
qed

section \<open>Properties\<close>

text \<open>
  A database whose log holds a record cannot be opened again: in a new process, with the log and
  recovery enabled, opening reports an error whatever follows that record, and the database stays
  closed; every later operation is refused.
\<close>

theorem logged_database_does_not_reopen:
  assumes "op_enableWal options" "op_recoverOnOpen options" "wireSize r < 4294967296"
    "files w (path @ ''.wal'') = Some (wal_start @ frame_bytes r @ rest)" "length (wal_start @ frame_bytes r @ rest) < 4611686018427387904"
  shows "\<exists>st s. Database_open fuel ord clock path create (w, Database_new options) = (Error st, s) \<and> \<not> db_open (snd s) \<and>
    fst (Database_find k s) = Error (invalidArgument ''Database: not open'')"
proof -
  let ?d = "Database_new options"
  let ?base = "?d\<lparr>db_options := options\<lparr>op_dataPath := path\<rparr>\<rparr>"
  have new: "db_open ?d = False" "db_options ?d = options" "\<not> fs_open (df_stream (db_file ?d))"
    "\<not> fs_open (df_stream (lf_file (lm_file (bt_wal (db_tree ?d)))))" "\<not> lm_initialized (bt_wal (db_tree ?d))"
    by (simp_all add: Database_new_def tree_new_def LogManager_new_def LogFile_new_def DatabaseFile_default_def closed_stream_def)
  have no_find: "fst (Database_find k s) = Error (invalidArgument ''Database: not open'')" if "\<not> db_open (snd s)" for s
    using that by (simp add: Database_find_def)
  have fin: "\<exists>s'. failed_open x st s = (Error st, s') \<and> \<not> db_open (snd s') \<and>
      fst (Database_find k s') = Error (invalidArgument ''Database: not open'')" if h: "\<not> db_open (snd s)" for x st s
  proof -
    obtain s' where f: "failed_open x st s = (Error st, s')" by (simp add: failed_open_def Let_def)
    moreover have "\<not> db_open (snd s')"
      using f h by (auto simp: failed_open_def Let_def logD_def fileD_def set_log_def split: prod.splits if_splits)
    ultimately show ?thesis using no_find by blast
  qed
  obtain res w1 f1 where st: "initializeStorage path create (w, db_file ?d) = (res, (w1, f1))" by (metis prod.collapse)
  let ?sa = "(w1, ?base\<lparr>db_file := f1\<rparr>)"
  have fd: "fileD (initializeStorage path create) (w, ?base) = (res, ?sa)" using st by (simp add: fileD_def)
  have c1: "\<not> db_open (snd ?sa)" using new(1) by simp
  show ?thesis
  proof (cases res)
    case (Inl e)
    then show ?thesis using fd new c1 no_find [of ?sa] by (simp add: Database_open_def Let_def)
  next
    case (Inr u)
    have "path @ ''.wal'' \<noteq> path" by simp
    then have "files w1 (path @ ''.wal'') = Some (wal_start @ frame_bytes r @ rest)"
      using storage_elsewhere [OF new(3)] st Inr assms(4) by simp
    from initialize_again [OF this new(4,5) assms(5,3), of create] obtain res2 l
      where i: "LogManager_initialize (path @ ''.wal'') create (w1, bt_wal (db_tree ?d)) = Some (res2, l)"
        "res2 = Inr () \<longrightarrow> zero_log r (log_disk_of l) \<and> lm_initialized (snd l)" by blast
    let ?sb = "set_log l ?sa"
    have iw: "initializeWal (walPathFor path) create ?sa = (outcome_of res2, ?sb)"
      using i(1) by (simp add: initializeWal_def log_of_def walPathFor_def)
    have c2: "\<not> db_open (snd ?sb)" "op_recoverOnOpen (db_options (snd ?sb))" using new(1) assms(2) by (simp_all add: set_log_def)
    show ?thesis
    proof (cases res2)
      case (Inl e)
      then show ?thesis
        using fd new iw assms(1) Inr fin [OF c2(1), of False e] by (simp add: Database_open_def Let_def outcome_of_def) blast
    next
      case ok: (Inr u2)
      have l: "log_of ?sb = l" by (simp add: log_of_def set_log_def)
      obtain st3 l3 where "recover fuel ord (l, db_tree (snd ?sb)) = (Error st3, (l3, tree_clear ord (db_tree (snd ?sb))), RecoveryResult_new)"
        using zero_log_recover [of r l fuel ord "db_tree (snd ?sb)"] i(2) ok by auto
      then obtain s3 where s3: "runRecovery fuel ord ?sb = (Error st3, s3)" "\<not> db_open (snd s3)"
        using l c2(1) by (simp add: runRecovery_def Let_def set_log_def)
      show ?thesis
        using fd new iw assms(1) Inr ok c2(2) s3(1) fin [OF s3(2), of True st3] by (simp add: Database_open_def Let_def outcome_of_def) blast
    qed
  qed
qed

end
