(* ===== verification/Lifecycle.thy ===== *)
theory Lifecycle
  imports DatabaseSpec
begin

text \<open>
  The life of a database without a log, from the creation of its file over any sequence of
  operations to closing and opening it again: the sessions of an open database as an inductive
  relation, what a new file holds, and that no operation touches the file.
\<close>

section \<open>Sessions\<close>

text \<open>
  The states a database reaches through its operations, in any order and with any outcome.
\<close>

inductive session :: "nat \<Rightarrow> (PageId set \<Rightarrow> PageId list) \<Rightarrow> engine \<Rightarrow> engine \<Rightarrow> bool"
  for fuel ord s where
  start: "session fuel ord s s"
| insertion: "session fuel ord s s1 \<Longrightarrow> Database_insert k v s1 = (res, s2) \<Longrightarrow> session fuel ord s s2"
| erasure: "session fuel ord s s1 \<Longrightarrow> Database_erase k s1 = (res, s2) \<Longrightarrow> session fuel ord s s2"
| lookup: "session fuel ord s s1 \<Longrightarrow> Database_find k s1 = (ref, s2) \<Longrightarrow> session fuel ord s s2"
| membership: "session fuel ord s s1 \<Longrightarrow> Database_contains k s1 = (found, s2) \<Longrightarrow> session fuel ord s s2"
| checkpointing: "session fuel ord s s1 \<Longrightarrow> Database_checkpoint clock what ord truncateWal s1 = (res, s2) \<Longrightarrow> session fuel ord s s2"
| validation: "session fuel ord s s1 \<Longrightarrow> Database_validate fuel ord s1 = (res, s2) \<Longrightarrow> session fuel ord s s2"

lemma session_plain:
  assumes "session fuel ord s s'" "plain s"
  shows "plain s' \<and> fst s' = fst s \<and> db_file (snd s') = db_file (snd s)"
  using assms
proof (induction rule: session.induct)
  case start
  then show ?case by simp
next
  case (insertion s1 k v res s2)
  obtain r t where "tree_insert k v (db_tree (snd s1)) = (r, t)" by (rule prod.exhaust)
  with insertion plain_insert [of s1 k v r t] show ?case by (auto simp: plain_def)
next
  case (erasure s1 k res s2)
  obtain r t where "tree_erase k (db_tree (snd s1)) = (r, t)" by (rule prod.exhaust)
  with erasure plain_erase [of s1 k r t] show ?case by (auto simp: plain_def)
next
  case (lookup s1 k ref s2)
  then show ?case by (auto simp: Database_find_def treeD_def plain_def split: prod.splits)
next
  case (membership s1 k found s2)
  then show ?case by (auto simp: Database_contains_def treeD_def plain_def split: prod.splits)
next
  case (checkpointing s1 clock what truncateWal res s2)
  then show ?case by (auto simp: Database_checkpoint_def plain_def)
next
  case (validation s1 res s2)
  then show ?case by (auto simp: Database_validate_def consistency_check_def plain_def split: outcome.splits)
qed

section \<open>The file of a new database\<close>

lemma header_page:
  "page_wf (HeaderPage_create 1 0 0)" "PageHeader_isValid (pg_header (HeaderPage_create 1 0 0))"
  "header_layout_isValid (HeaderPage_layout (HeaderPage_create 1 0 0))"
proof -
  let ?l = "HeaderPage_layout HeaderPage_new"
  let ?m = "?l\<lparr>hl_databaseHeader := (hl_databaseHeader ?l)\<lparr>dh_magic := kDatabaseMagic, dh_majorVersion := 1, dh_minorVersion := 0,
      dh_pageSize := of_nat kPageSize\<rparr>, hl_superblockPageId := 1, hl_flags := 0, hl_formatVersion := encodeVersion 1 0\<rparr>"
  have new: "payload_wf HeaderPage_new" by (simp add: payload_wf_def Page_new_def kPageSize_def)
  then have wf: "database_header_wf (hl_databaseHeader ?m) \<and> length (hl_reserved ?m) = 486"
    using header_pl.wf_get [OF new] by (simp add: database_header_wf_def)
  have c: "HeaderPage_create 1 0 0 = put_layout header_layout_image ?m HeaderPage_new"
    by (simp add: HeaderPage_create_def HeaderPage_store_def Let_def)
  have pw: "payload_wf (HeaderPage_create 1 0 0)" unfolding c by (rule header_pl.payload_wf_put [OF new wf])
  show "PageHeader_isValid (pg_header (HeaderPage_create 1 0 0))"
    by (simp add: c Page_new_def PageHeader_isValid_def PageHeader_make_def)
  show "page_wf (HeaderPage_create 1 0 0)"
    using pw by (simp add: page_wf_def payload_wf_def) (simp add: c Page_new_def header_wf_def PageHeader_make_def)
  have "HeaderPage_layout (HeaderPage_create 1 0 0) = ?m" unfolding c using header_pl.get_put [OF new wf] by simp
  then show "header_layout_isValid (HeaderPage_layout (HeaderPage_create 1 0 0))"
    by simp
qed

lemma seek_world:
  "DatabaseFile_seek p s = (r, s') \<Longrightarrow> fst s' = fst s \<and> fs_path (df_stream (snd s')) = fs_path (df_stream (snd s))"
  by (cases s) (auto simp: DatabaseFile_seek_def stream_seek_def Let_def split: if_splits)

lemma write_world:
  assumes "file_ok s" "DatabaseFile_writeBytes bs s = (r, s')"
  shows "files (fst s') = (files (fst s))(fs_path (df_stream (snd s)) \<mapsto> content s') \<and> openable (fst s') = openable (fst s) \<and>
    fs_path (df_stream (snd s')) = fs_path (df_stream (snd s))"
  using assms
  by (cases s) (auto simp: DatabaseFile_writeBytes_def stream_write_def Let_def file_ok_def content_def stream_bytes_def split: if_splits)

lemma storage_new:
  assumes "openable w path" "files w path = None" "\<not> fs_open (df_stream f)"
  shows "\<exists>s. initializeStorage path True (w, f) = (Inr (), s) \<and> file_ok s \<and> content s = page_image (HeaderPage_create 1 0 0) \<and>
    df_size (snd s) = 4096 \<and> files (fst s) = (files w)(path \<mapsto> content s) \<and> openable (fst s) = openable w"
proof -
  let ?p = "HeaderPage_create 1 0 0"
  have p0: "page_position (Page_id ?p) = 0" "Page_id ?p \<noteq> kInvalidPageId"
    by (simp_all add: header_page_id page_position_def kInvalidPageId_def)
  obtain s where s: "DatabaseFile_open path True (w, f) = (Inr (), s)" "file_ok s" "content s = []" "df_size (snd s) = 0"
    "files (fst s) = (files w)(path \<mapsto> [])" "openable (fst s) = openable w" "fs_path (df_stream (snd s)) = path"
    using assms by (auto simp: DatabaseFile_open_def stream_open_def file_ok_def content_def stream_bytes_def Let_def)
  obtain s1 where s1: "DatabaseFile_seek 0 s = (Inr (), s1)" "file_ok s1" "content s1 = []" "fs_pos (df_stream (snd s1)) = 0" "df_size (snd s1) = 0"
    using seek_any [OF s(2), of 0] s(3,4) by auto
  have len: "length (page_header_image (pg_header ?p)) = 64" "length (Page_payload ?p) = 4032"
    using header_page(1) by (simp_all add: page_wf_def length_page_header_image Page_payload_def size_consts)
  obtain s2 where s2: "DatabaseFile_writeBytes (page_header_image (pg_header ?p)) s1 = (Inr (), s2)" "file_ok s2"
    "fs_pos (df_stream (snd s2)) = 64" "df_size (snd s2) = 64" "content s2 = page_header_image (pg_header ?p)"
    using write_any [OF s1(2), of "page_header_image (pg_header ?p)"] s1 len(1) by (auto simp: patch_def max_def)
  obtain s3 where s3: "DatabaseFile_writeBytes (Page_payload ?p) s2 = (Inr (), s3)" "file_ok s3"
    "df_size (snd s3) = 4096" "content s3 = page_image ?p"
    using write_any [OF s2(2), of "Page_payload ?p"] s2 len patch_end [of "page_header_image (pg_header ?p)" "Page_payload ?p"]
    by (auto simp: max_def page_image_def)
  have w: "files (fst s3) = (files w)(path \<mapsto> content s3)" "openable (fst s3) = openable w"
    using s(5,6,7) seek_world [OF s1(1)] write_world [OF s1(2) s2(1)] write_world [OF s2(2) s3(1)] by simp_all
  have "writePage ?p s = (Inr (), s3)" using p0 s1(1) s2(1) s3(1) by (simp add: writePage_def)
  then show ?thesis using s(1) s3 w flush_ok [OF s3(2)] by (simp add: initializeStorage_def)
qed

section \<open>Properties\<close>

text \<open>
  C27. Without a log nothing a database holds reaches its file: whatever insertions, erasures,
  lookups, checkpoints and validations follow the creation of a database, closing it succeeds, the
  only change to the files is that its own file holds one header page, and a database opened on
  that file in a new process starts empty.
\<close>

theorem data_stays_in_memory:
  assumes "openable w path" "files w path = None" "\<not> op_enableWal options"
    "Database_open fuel ord clock path True (w, Database_new options) = (Done (), s1)" "session fuel ord s1 s2"
  shows "\<exists>s3 s4. Database_close s2 = (Inr (), s3) \<and>
    files (fst s3) = (files w)(path \<mapsto> page_image (HeaderPage_create 1 0 0)) \<and>
    Database_open fuel ord clock path True (fst s3, Database_new options) = (Done (), s4) \<and> tree_empty (db_tree (snd s4))"
proof -
  let ?d = "Database_new options"
  have f: "\<not> fs_open (df_stream (db_file ?d))" "db_open ?d = False" "db_options ?d = options" "tree_empty (db_tree ?d)"
    by (simp_all add: Database_new_def DatabaseFile_default_def closed_stream_def tree_new_def tree_empty_def)
  obtain e where e: "initializeStorage path True (w, db_file ?d) = (Inr (), e)" "file_ok e"
    "files (fst e) = (files w)(path \<mapsto> page_image (HeaderPage_create 1 0 0))" "openable (fst e) = openable w"
    using storage_new [OF assms(1,2) f(1)] by auto
  have s1: "plain s1" "fst s1 = fst e"
    using e(1,2) assms(3,4) f by (cases e; auto simp: Database_open_def Let_def fileD_def plain_def file_ok_def)+
  then have s2: "plain s2" "fst s2 = fst e" using session_plain [OF assms(5)] by simp_all
  obtain s3 where s3: "Database_close s2 = (Inr (), s3)" "fst s3 = fst s2"
    using s2(1) by (auto simp: Database_close_def plain_def fileD_def DatabaseFile_close_def stream_close_def Let_def split: prod.splits)
  then have "openable (fst s3) path" using s2(2) e(4) assms(1) by simp
  then obtain s4 where s4: "Database_open fuel ord clock path True (fst s3, ?d) = (Done (), s4)" "db_tree (snd s4) = db_tree ?d"
    using open_plain assms(3) by blast
  show ?thesis using s3 s2(2) e(3) s4 f(4) by (intro exI [of _ s3] exI [of _ s4]) simp
qed

theorem data_stays_in_memory_witness:
  "\<exists>s1 s2 s3 s4. Database_open 10 (\<lambda>_. []) (\<lambda>_. 1) ''db'' True
      (\<lparr>files = Map.empty, openable = (\<lambda>_. True)\<rparr>, Database_new (DatabaseOptions\<lparr>op_enableWal := False\<rparr>)) = (Done (), s1) \<and>
    s2 = snd (Database_insert (UInt32 5) (makeIndexRef 9) s1) \<and> Database_close s2 = (Inr (), s3) \<and>
    Database_open 10 (\<lambda>_. []) (\<lambda>_. 1) ''db'' True (fst s3, Database_new (DatabaseOptions\<lparr>op_enableWal := False\<rparr>)) = (Done (), s4) \<and>
    tree_empty (db_tree (snd s4))"
proof -
  let ?w = "\<lparr>files = Map.empty, openable = (\<lambda>_. True)\<rparr>" and ?o = "DatabaseOptions\<lparr>op_enableWal := False\<rparr>"
  have h: "openable ?w ''db''" "files ?w ''db'' = None" "\<not> op_enableWal ?o" by simp_all
  obtain s1 where s1: "Database_open 10 (\<lambda>_. []) (\<lambda>_. 1) ''db'' True (?w, Database_new ?o) = (Done (), s1)"
    using open_plain [OF h(1,3)] by blast
  have "session 10 (\<lambda>_. []) s1 (snd (Database_insert (UInt32 5) (makeIndexRef 9) s1))"
    by (rule insertion [OF start prod.collapse [symmetric]])
  from data_stays_in_memory [OF h s1 this] show ?thesis using s1 by blast
qed

end
