(* ===== verification/Maintenance.thy ===== *)
theory Maintenance
  imports Lifecycle
begin

text \<open>
  Diagnostics (DiagnosticReport.cpp, ConsistencyChecker.cpp, IntegrityScanner.cpp), maintenance
  (BulkLoader.cpp, Vacuum.cpp) and the counters of the instrumentation (Counter.cpp,
  MemoryStats.cpp). A bulk load extends the map of the tree by its pairs, a new database passes the
  integrity scan, and a vacuum changes statistics only.
\<close>

section \<open>Diagnostic reports\<close>

datatype finding_severity = SeverityInfo | SeverityWarning | SeverityError

record diagnostic_finding =
  fi_severity :: finding_severity
  fi_component :: string
  fi_message :: string

type_synonym diagnostic_report = "diagnostic_finding list"

definition report_passed :: "diagnostic_report \<Rightarrow> bool" where
  "report_passed findings = list_all (\<lambda>f. fi_severity f \<noteq> SeverityError) findings"

definition report_add :: "finding_severity \<Rightarrow> string \<Rightarrow> string \<Rightarrow> diagnostic_report \<Rightarrow> diagnostic_report" where
  "report_add severity component message findings =
     findings @ [\<lparr>fi_severity = severity, fi_component = component, fi_message = message\<rparr>]"

section \<open>The consistency checker\<close>

text \<open>
  \<^verbatim>\<open>std::to_string(double)\<close> prints six decimals; as everywhere in the space layer the percentage is
  exact and not rounded to a double first.
\<close>

definition six_digits :: "nat \<Rightarrow> string" where
  "six_digits n = (let d = to_string n in replicate (6 - length d) (CHR ''0'') @ d)"

definition to_string_double :: "real \<Rightarrow> string" where
  "to_string_double x =
     (let n = nat (round (x * 1000000)) in to_string (n div 1000000) @ ''.'' @ six_digits (n mod 1000000))"

text \<open>
  The checks on the open database. Validating the log moves its reader and may not end; the outcome
  of such a check is kept apart from the report.
\<close>

definition report_status :: "string \<Rightarrow> string \<Rightarrow> unit outcome \<Rightarrow> diagnostic_report \<Rightarrow> diagnostic_report outcome" where
  "report_status component fine res findings =
     (case res of
        Done _ \<Rightarrow> Done (report_add SeverityInfo component fine findings)
      | Error st \<Rightarrow> Done (report_add SeverityError component (toString st) findings)
      | Thrown \<Rightarrow> Thrown
      | Diverges \<Rightarrow> Diverges)"

definition report_space :: "space_manager \<Rightarrow> diagnostic_report \<Rightarrow> diagnostic_report" where
  "report_space m findings =
     (let frag = analyze (sm_fsm m) (allocatedPageCount m + freePageCount m)
      in if fr_fragmentationPercent frag > 50
         then report_add SeverityWarning ''space''
                (''high fragmentation: '' @ to_string_double (fr_fragmentationPercent frag) @ ''%'') findings
         else findings)"

definition checker_analyze :: "nat \<Rightarrow> engine \<Rightarrow> diagnostic_report outcome" where
  "checker_analyze fuel s =
     (if \<not> db_open (snd s) then Done (report_add SeverityError ''database'' ''not open'' [])
      else case report_status ''btree'' ''structure valid'' (tree_validate fuel (db_tree (snd s))) [] of
        Done findings \<Rightarrow>
          let findings1 = report_space (bt_space (db_tree (snd s))) findings
          in if op_enableWal (db_options (snd s))
             then report_status ''wal'' ''log valid'' (fst (scanR LogManager_validate (log_of s, db_tree (snd s)))) findings1
             else Done findings1
      | res \<Rightarrow> res)"

section \<open>The integrity scanner\<close>

text \<open>
  The scan of a file: the status, the file afterwards and the report. \<open>junk\<close> is the content of the
  page header variable of the read before it is filled.
\<close>

definition IntegrityScanner_scan :: "u8 list \<Rightarrow> dbstate \<Rightarrow> ((status + unit) \<times> dbstate) \<times> diagnostic_report" where
  "IntegrityScanner_scan junk s =
     (if \<not> fs_open (df_stream (snd s))
      then ((Inl (invalidArgument ''IntegrityScanner: file not open''), s), report_add SeverityError ''file'' ''not open'' [])
      else if df_size (snd s) < of_nat kPageSize
      then ((Inl (corruption ''IntegrityScanner: file too small''), s), report_add SeverityError ''file'' ''file too small'' [])
      else case DatabaseFile_seek 0 s of
        (Inl st, s1) \<Rightarrow> ((Inl st, s1), [])
      | (Inr _, s1) \<Rightarrow>
          (case readPage junk (s1, Page_new 0 PageType_Header) of
             (Inl st, (s2, _)) \<Rightarrow> ((Inl st, s2), report_add SeverityError ''header'' (toString st) [])
           | (Inr _, (s2, page)) \<Rightarrow>
               (case HeaderPage_validate page of
                  Inl st \<Rightarrow> ((Inl st, s2), report_add SeverityError ''header'' (toString st) [])
                | Inr _ \<Rightarrow>
                    let pageCount = df_size (snd s2) div of_nat kPageSize
                    in ((Inr (), s2),
                        report_add SeverityInfo ''file''
                          (''pages='' @ to_string (unat pageCount) @ '', size='' @ to_string (unat (df_size (snd s2))))
                          (report_add SeverityInfo ''header'' ''valid'' [])))))"

section \<open>Bulk loading and vacuuming\<close>

text \<open>The loader works on the tree and counts the keys it has loaded.\<close>

fun loadLoop :: "(key \<times> page_ref) list \<Rightarrow> 'w btree \<times> u64 \<Rightarrow> unit outcome \<times> ('w btree \<times> u64)" where
  "loadLoop [] s = (Done (), s)"
| "loadLoop ((k, v) # kvs) (t, keysLoaded) =
     (case tree_insert k v t of
        (Done _, t') \<Rightarrow> loadLoop kvs (t', keysLoaded + 1)
      | (res, t') \<Rightarrow> (res, (t', keysLoaded)))"

definition loadSorted :: "nat \<Rightarrow> key list \<Rightarrow> page_ref list \<Rightarrow> 'w btree \<times> u64 \<Rightarrow> unit outcome \<times> ('w btree \<times> u64)" where
  "loadSorted fuel keys values s =
     (if length keys \<noteq> length values then (Error (invalidArgument ''BulkLoader: key/value count mismatch''), s)
      else case loadLoop (zip keys values) (fst s, 0) of
        (Done _, s') \<Rightarrow> (tree_validate fuel (fst s'), s')
      | (res, s') \<Rightarrow> (res, s'))"

text \<open>Vacuuming: the space manager with the number of pages reported as reclaimed.\<close>

definition Vacuum_run :: "space_manager \<times> u32 \<Rightarrow> (status + unit) \<times> (space_manager \<times> u32)" where
  "Vacuum_run s =
     (let m = fst s;
          total = allocatedPageCount m + freePageCount m;
          m1 = m\<lparr>sm_stats := update_stats (sm_fsm m) total (sm_stats m)\<rparr>;
          report = analyze (sm_fsm m1) total
      in if fr_fragmentationPercent report < 1 then (Inr (), (m1, 0))
         else (Inr (), (m1, fr_largestFreeExtent report)))"

section \<open>Instrumentation\<close>

record counter =
  ct_name :: string
  ct_value :: u64

definition Counter_new :: "string \<Rightarrow> counter" where
  "Counter_new name = \<lparr>ct_name = name, ct_value = 0\<rparr>"

definition Counter_increment :: "u64 \<Rightarrow> counter \<Rightarrow> counter" where
  "Counter_increment delta c = c\<lparr>ct_value := ct_value c + delta\<rparr>"

definition Counter_reset :: "counter \<Rightarrow> counter" where
  "Counter_reset c = c\<lparr>ct_value := 0\<rparr>"

record memory_stats =
  heapAllocatedBytes :: u64
  peakHeapBytes :: u64
  allocationCount :: u64
  deallocationCount :: u64

definition MemoryStats_new :: memory_stats where
  "MemoryStats_new = \<lparr>heapAllocatedBytes = 0, peakHeapBytes = 0, allocationCount = 0, deallocationCount = 0\<rparr>"

definition memory_recordAllocation :: "u64 \<Rightarrow> memory_stats \<Rightarrow> memory_stats" where
  "memory_recordAllocation count m =
     (let heap = heapAllocatedBytes m + count
      in m\<lparr>heapAllocatedBytes := heap, allocationCount := allocationCount m + 1,
           peakHeapBytes := (if peakHeapBytes m < heap then heap else peakHeapBytes m)\<rparr>)"

definition memory_recordDeallocation :: "u64 \<Rightarrow> memory_stats \<Rightarrow> memory_stats" where
  "memory_recordDeallocation count m =
     m\<lparr>heapAllocatedBytes := (if count \<le> heapAllocatedBytes m then heapAllocatedBytes m - count else 0),
       deallocationCount := deallocationCount m + 1\<rparr>"

definition MemoryStats_reset :: "memory_stats \<Rightarrow> memory_stats" where
  "MemoryStats_reset m = MemoryStats_new"

text \<open>A vacuum changes no page: only the statistics differ, and what it reports is no count of reclaimed pages.\<close>

lemma vacuum_reclaims_nothing:
  assumes "Vacuum_run (m, n) = (res, (m', n'))"
  shows "res = Inr ()" "sm_pages m' = sm_pages m" "sm_extents m' = sm_extents m" "n' = 0 \<or> n' = largestFreeExtent (sm_fsm m)"
  using assms by (auto simp: Vacuum_run_def analyze_def Let_def split: if_splits)

text \<open>The peak is never below the bytes in use, and deallocation never wraps.\<close>

lemma memory_peak:
  "heapAllocatedBytes (memory_recordAllocation n m) \<le> peakHeapBytes (memory_recordAllocation n m)"
  "heapAllocatedBytes m \<le> peakHeapBytes m \<Longrightarrow>
    heapAllocatedBytes (memory_recordDeallocation n m) \<le> peakHeapBytes (memory_recordDeallocation n m)"
  "unat (heapAllocatedBytes (memory_recordDeallocation n m)) = unat (heapAllocatedBytes m) - unat n"
  by (auto simp: memory_recordAllocation_def memory_recordDeallocation_def Let_def word_le_nat_alt unat_sub not_less)

section \<open>Loading a leaf\<close>

lemma validateKeys_sorted:
  "sorted ks \<Longrightarrow> (\<forall>p k. prev = Some p \<longrightarrow> k \<in> set ks \<longrightarrow> p \<le> k) \<Longrightarrow> validateKeys None None prev ks = Inr ()"
proof (induction ks arbitrary: prev)
  case Nil
  then show ?case by simp
next
  case (Cons k ks)
  then have "validateKeys None None (Some k) ks = Inr ()" by simp
  moreover have "\<not> key_less k p" if "prev = Some p" for p
    using Cons.prems(2) that by (simp add: not_less)
  ultimately show ?case by (cases prev) simp_all
qed

text \<open>A tree that fits in one leaf passes the validator.\<close>

lemma single_validate:
  assumes "single t"
  shows "tree_validate (Suc fuel) t = Done ()"
proof (cases "tree_empty t")
  case True
  then show ?thesis by (simp add: tree_validate_def)
next
  case False
  obtain n where n: "bt_leaves t = [bt_rootId t \<mapsto> n]" "leaf_wf n" by (rule singleE [OF assms False])
  then have "validateKeys None None None (lf_keys n) = Inr ()"
    by (intro validateKeys_sorted) (simp_all add: leaf_wf_def leaf_ordered_def)
  then show ?thesis using n False by (simp add: tree_validate_def isLeaf_def validateLeafRange_def leaf_validate_wf)
qed

definition loadable :: "'w btree \<Rightarrow> key \<Rightarrow> page_ref \<Rightarrow> bool" where
  "loadable t k v \<longleftrightarrow> key_typed (bt_config t) k \<and> PageReference_isValid v \<and> tree_map t k = None"

lemma insert_succeeds:
  assumes "single t" "loadable t k v" "card (dom (tree_map t)) < unat (computeCapacity (bt_config t) NodeType_Leaf)"
    "tree_empty t \<longrightarrow> fst (allocatePage (bt_space t)) \<noteq> kInvalidPageId"
  shows "\<exists>t'. tree_insert k v t = (Done (), t') \<and> single t' \<and> bt_config t' = bt_config t \<and>
    tree_map t' = (tree_map t)(k \<mapsto> v) \<and> \<not> tree_empty t'"
proof -
  have kv: "key_typed (bt_config t) k" "PageReference_isValid v" "tree_map t k = None" using assms(2) by (simp_all add: loadable_def)
  obtain r t' where i: "tree_insert k v t = (r, t')" by (cases "tree_insert k v t")
  have "has_room t \<and> r = Done ()"
  proof (cases "tree_empty t")
    case True
    obtain p sp where al: "allocatePage (bt_space t) = (p, sp)" "p \<noteq> kInvalidPageId" using assms(4) True by (metis prod.collapse)
    let ?cfg = "(bt_config t)\<lparr>level := 0\<rparr>"
    have w: "keyWireSize ?cfg \<le> 3940" "bt_walSink t = None" "bt_leaves t = Map.empty" using assms(1) True by (simp_all add: single_def)
    note c = leaf_create_new [OF w(1), of p]
    have "0 < unat (node_capacity (leaf_create p ?cfg))" using capacity_iff(1) [of 1 ?cfg] w(1) by (simp add: c)
    then obtain n' where "leaf_insert k v (leaf_create p ?cfg) = (Inr (), n')"
      using leaf_insert_cases [OF c(1), of k v] kv c(2,4) by simp
    then have "r = Done ()"
      using i True kv(2) al w(2,3)
      by (auto simp: tree_insert_def allocateLeaf_def Let_def walOnPageAllocate_def walOnInsert_def wal_none
          on_node_simps(1) setRoot_def setHeight_def incrementSize_def)
    then show ?thesis using True by (simp add: has_room_def)
  next
    case False
    obtain n where n: "bt_leaves t = [bt_rootId t \<mapsto> n]" "leaf_wf n" "nd_config n = (bt_config t)\<lparr>level := 0\<rparr>"
      "unat (bt_size t) = length (lf_keys n)" by (rule singleE [OF assms(1) False])
    have "node_capacity n = computeCapacity (nd_config n) NodeType_Leaf" "unat (node_keyCount n) = length (lf_keys n)"
      using n(2) by (simp_all add: leaf_wf_def)
    then have room: "node_keyCount n < node_capacity n"
      using assms(3) single_size [OF assms(1)] n(3,4) by (simp add: word_less_nat_alt unat_computeCapacity)
    then show ?thesis
      using single_insert [OF assms(1) False kv(1) _ room, of v] n(1) i kv(2,3) False by (simp add: has_room_def)
  qed
  with insert_step [OF assms(1) kv(1) _ i] have "single t'" "bt_config t' = bt_config t" "tree_map t' = (tree_map t)(k \<mapsto> v)" "r = Done ()"
    by auto
  then show ?thesis using i single_empty [of t'] by auto
qed

lemma loadLoop_loads:
  assumes "single t" "\<forall>(k, v) \<in> set kvs. loadable t k v" "distinct (map fst kvs)"
    "card (dom (tree_map t)) + length kvs \<le> unat (computeCapacity (bt_config t) NodeType_Leaf)"
    "tree_empty t \<longrightarrow> fst (allocatePage (bt_space t)) \<noteq> kInvalidPageId"
  shows "\<exists>t'. loadLoop kvs (t, n) = (Done (), (t', n + of_nat (length kvs))) \<and> single t' \<and> tree_map t' = tree_map t ++ map_of kvs"
  using assms
proof (induction kvs arbitrary: t n)
  case Nil
  then show ?case by simp
next
  case (Cons kv kvs)
  obtain k v where kv: "kv = (k, v)" by (cases kv)
  have "loadable t k v" "card (dom (tree_map t)) < unat (computeCapacity (bt_config t) NodeType_Leaf)"
    using Cons.prems(2,4) kv by auto
  from insert_succeeds [OF Cons.prems(1) this Cons.prems(5)] obtain t1 where
    t1: "tree_insert k v t = (Done (), t1)" "single t1" "bt_config t1 = bt_config t" "tree_map t1 = (tree_map t)(k \<mapsto> v)" "\<not> tree_empty t1"
    by blast
  have new: "tree_map t k = None" "k \<notin> fst ` set kvs" using Cons.prems(2,3) kv by (auto simp: loadable_def)
  have "finite (dom (tree_map t))"
    using Cons.prems(1) by (cases "tree_empty t") (auto simp: single_empty leaf_map_def finite_dom_map_of elim!: singleE)
  then have c: "card (dom (tree_map t1)) + length kvs \<le> unat (computeCapacity (bt_config t1) NodeType_Leaf)"
    using Cons.prems(4) t1(3,4) new(1) by (simp add: card_insert_if domIff)
  have l: "\<forall>(k', v') \<in> set kvs. loadable t1 k' v'"
    using Cons.prems(2) new(2) t1(3,4) by (force simp: loadable_def)
  obtain t' where "loadLoop kvs (t1, n + 1) = (Done (), (t', n + 1 + of_nat (length kvs)))" "single t'" "tree_map t' = tree_map t1 ++ map_of kvs"
    using Cons.IH [OF t1(2) l _ c, of "n + 1"] Cons.prems(3) t1(5) by auto
  moreover have "tree_map t1 ++ map_of kvs = tree_map t ++ map_of (kv # kvs)"
    unfolding t1(4) kv
    using new(2) by (auto simp: map_add_def fun_eq_iff dom_map_of_conv_image_fst split: option.split dest: map_of_SomeD)
      (metis image_eqI fst_conv map_of_SomeD)
  ultimately show ?case using t1(1) kv by (simp add: algebra_simps del: map_of.simps)
qed

section \<open>A new file scans clean\<close>

text \<open>Reading a page keeps the size the file object remembers.\<close>

definition keeps_size :: "(dbstate \<times> page, 'a) op \<Rightarrow> bool" where
  "keeps_size m \<longleftrightarrow> (\<forall>s. df_size (snd (fst (snd (m s)))) = df_size (snd (fst s)))"

lemma keeps_size_bind: "keeps_size m \<Longrightarrow> (\<And>a. keeps_size (k a)) \<Longrightarrow> keeps_size (bindS m k)"
  unfolding keeps_size_def bindS_def by (auto split: sum.splits prod.splits) (metis fst_conv snd_conv)+

lemma keeps_size_file: "(\<And>d. df_size (snd (snd (m d))) = df_size (snd d)) \<Longrightarrow> keeps_size (on_file m)"
  unfolding keeps_size_def on_file_def by (simp split: prod.split) (metis snd_conv)

lemma keeps_size_readPage: "keeps_size (readPage junk)"
proof -
  have sk: "keeps_size (on_file (DatabaseFile_seek p))" for p
    by (rule keeps_size_file) (simp add: DatabaseFile_seek_def Let_def split: prod.split)
  have rd: "keeps_size (on_file (DatabaseFile_readBytes b n))" for b n
    by (rule keeps_size_file) (simp add: DatabaseFile_readBytes_def Let_def split: prod.split)
  have st: "keeps_size (set_page p)" "keeps_size (fail e)" for p e by (simp_all add: keeps_size_def set_page_def fail_def)
  have "keeps_size (if c then m else k)" if "keeps_size m" "keeps_size k" for c m k using that by simp
  note all = keeps_size_bind sk rd st this
  show ?thesis
    unfolding keeps_size_def
  proof
    fix s :: "dbstate \<times> page"
    let ?page = "\<lambda>h. Page_setGeneration (ph_generation h) (Page_new (Page_id (snd s)) (ph_pageType h))"
    define m where "m = thenS (on_file (DatabaseFile_seek (page_position (Page_id (snd s)))))
        (bindS (on_file (DatabaseFile_readBytes junk kPageHeaderSize)) (\<lambda>hb.
           if \<not> PageHeader_isValid (page_header_of hb)
           then fail (corruption (''Invalid page header at page '' @ to_string (unat (Page_id (snd s)))))
           else thenS (set_page (?page (page_header_of hb)))
             (bindS (on_file (DatabaseFile_readBytes (Page_payload (?page (page_header_of hb))) kPagePayloadSize)) (\<lambda>pl.
                set_page (Page_setDirty False ((?page (page_header_of hb))\<lparr>pg_data := take kPageHeaderSize (pg_data (?page (page_header_of hb))) @ pl\<rparr>))))))"
    have "keeps_size m" unfolding m_def thenS_def by (intro all)
    moreover have "readPage junk s = (if Page_id (snd s) = kInvalidPageId
        then (Inl (invalidArgument ''Cannot read page with invalid ID''), s) else m s)"
      unfolding readPage_def Let_def m_def by (rule refl)
    ultimately show "df_size (snd (fst (snd (readPage junk s)))) = df_size (snd (fst s))"
      unfolding keeps_size_def by (simp del: split_paired_All)
  qed
qed

lemma scan_clean:
  assumes "file_ok s" "content s = page_image (HeaderPage_create 1 0 0)" "df_size (snd s) = 4096" "length junk = 64"
  shows "\<exists>s'. IntegrityScanner_scan junk s = ((Inr (), s'), [\<lparr>fi_severity = SeverityInfo, fi_component = ''header'', fi_message = ''valid''\<rparr>,
    \<lparr>fi_severity = SeverityInfo, fi_component = ''file'', fi_message = ''pages=1, size=4096''\<rparr>])"
proof -
  let ?p = "HeaderPage_create 1 0 0"
  obtain s1 where s1: "DatabaseFile_seek 0 s = (Inr (), s1)" "file_ok s1" "content s1 = content s" "df_size (snd s1) = 4096"
    using seek_any [OF assms(1), of 0] assms(3) by auto
  have w: "header_wf (pg_header ?p)" "length (Page_payload ?p) = 4032"
    using header_page(1) by (simp_all add: page_wf_def Page_payload_def size_consts)
  have img: "take 4096 (drop (unat (0 :: PageId) * 4096) (content s1)) = page_header_image (pg_header ?p) @ Page_payload ?p"
    using s1(3) assms(2) length_page_image [OF header_page(1)] by (simp add: page_image_def)
  have q: "(0 :: PageId) = Page_id (Page_new 0 PageType_Header)" "(0 :: PageId) \<noteq> kInvalidPageId"
    by (simp_all add: Page_id_def Page_new_def PageHeader_make_def kInvalidPageId_def)
  obtain s2 pg where r: "readPage junk (s1, Page_new 0 PageType_Header) = (Inr (), (s2, pg))" "Page_payload pg = Page_payload ?p"
    using readPage_ok [OF s1(2) q assms(4) w(1) header_page(2) w(2) img]
    by (auto simp: Page_payload_def Page_setDirty_def Page_setGeneration_def Page_new_def size_consts)
  have "HeaderPage_layout pg = HeaderPage_layout ?p" using r(2) by (simp add: get_layout_def)
  then have "HeaderPage_validate pg = Inr ()" using header_page(3) by (simp add: HeaderPage_validate_def)
  moreover have "df_size (snd s2) = 4096"
    using keeps_size_readPage [of junk] r(1) s1(4) unfolding keeps_size_def by (metis fst_conv snd_conv)
  moreover have "fs_open (df_stream (snd s))" using assms(1) by (simp add: file_ok_def)
  moreover have "to_string 4096 = ''4096''" "to_string 1 = ''1''" by code_simp+
  ultimately show ?thesis
    using s1(1) r(1) assms(3) by (simp add: IntegrityScanner_scan_def report_add_def kPageSize_def)
qed

section \<open>Properties\<close>



text \<open>
  C12. A database that was just created passes the integrity scan: opening a database without a log
  on a path with no file succeeds, and scanning its file then succeeds with a clean report, one
  valid header page of 4096 bytes.
\<close>

theorem new_database_scans_clean:
  assumes "openable w path" "files w path = None" "\<not> op_enableWal options" "length junk = 64"
  shows "\<exists>s d findings. Database_open fuel ord clock path True (w, Database_new options) = (Done (), s) \<and>
    IntegrityScanner_scan junk (fst s, db_file (snd s)) = ((Inr (), d), findings) \<and> report_passed findings \<and>
    map fi_message findings = [''valid'', ''pages=1, size=4096'']"
proof -
  let ?d = "Database_new options"
  have f: "\<not> fs_open (df_stream (db_file ?d))" "db_open ?d = False" "db_options ?d = options"
    by (simp_all add: Database_new_def DatabaseFile_default_def closed_stream_def)
  obtain s1 where s1: "initializeStorage path True (w, db_file ?d) = (Inr (), s1)" "file_ok s1"
    "content s1 = page_image (HeaderPage_create 1 0 0)" "df_size (snd s1) = 4096"
    using storage_new [OF assms(1,2) f(1)] by blast
  obtain s where s: "Database_open fuel ord clock path True (w, ?d) = (Done (), s)" "(fst s, db_file (snd s)) = s1"
    using s1(1) assms(3) f by (cases s1) (simp add: Database_open_def Let_def fileD_def)
  show ?thesis using s scan_clean [OF s1(2,3,4) assms(4)] by (auto simp: report_passed_def)
qed

theorem new_database_scans_clean_witness:
  "\<exists>s d findings. Database_open 10 (\<lambda>_. []) (\<lambda>_. 1) ''db'' True
      (\<lparr>files = Map.empty, openable = (\<lambda>_. True)\<rparr>, Database_new (DatabaseOptions\<lparr>op_enableWal := False\<rparr>)) = (Done (), s) \<and>
    IntegrityScanner_scan (replicate 64 0) (fst s, db_file (snd s)) = ((Inr (), d), findings) \<and> report_passed findings"
proof -
  let ?w = "\<lparr>files = Map.empty, openable = (\<lambda>_. True)\<rparr>" and ?o = "DatabaseOptions\<lparr>op_enableWal := False\<rparr>"
  have "openable ?w ''db''" "files ?w ''db'' = None" "\<not> op_enableWal ?o" "length (replicate 64 (0 :: u8)) = 64" by simp_all
  then show ?thesis using new_database_scans_clean by blast
qed

end
