(* ===== verification/Reopen.thy ===== *)
theory Reopen
  imports Lifecycle
begin

text \<open>
  The engine with its log, from a new database over one insertion to closing and opening again:
  what a new log file holds, what recovery makes of it, which records an insertion leaves in the log,
  and that the database cannot be opened a second time.
\<close>

section \<open>The file behind the log\<close>

definition log_path :: "log_disk \<Rightarrow> string" where
  "log_path s = fs_path (df_stream (lf_file (snd s)))"

definition keeps_path :: "(log_disk, 'a) op \<Rightarrow> bool" where
  "keeps_path m \<longleftrightarrow> (\<forall>s. log_path (snd (m s)) = log_path s)"

named_theorems keeps_path_rules \<open>operations that stay with their file\<close>

lemma keeps_pathD: "keeps_path m \<Longrightarrow> m s = (res, s') \<Longrightarrow> log_path s' = log_path s"
  unfolding keeps_path_def by (metis snd_conv)

lemma keeps_path_bind [keeps_path_rules]: "keeps_path m \<Longrightarrow> (\<And>x. keeps_path (f x)) \<Longrightarrow> keeps_path (bindS m f)"
  unfolding keeps_path_def bindS_def by (auto split: sum.splits prod.splits) (metis snd_conv)+

lemma keeps_path_ops [keeps_path_rules]:
  "keeps_path (ret x)" "keeps_path (fail st)" "keeps_path (set_appendOffset off)" "keeps_path (on_db (DatabaseFile_seek p))"
  "keeps_path (on_db (DatabaseFile_writeBytes bs))" "keeps_path (on_db (DatabaseFile_readBytes prior n))" "keeps_path (on_db DatabaseFile_flush)"
  by (auto simp: keeps_path_def log_path_def ret_def fail_def set_appendOffset_def on_db_def DatabaseFile_seek_def stream_seek_def
      DatabaseFile_writeBytes_def stream_write_def DatabaseFile_readBytes_def stream_read_def DatabaseFile_flush_def Let_def split: prod.splits)

lemma keeps_path_if [keeps_path_rules]: "keeps_path m \<Longrightarrow> keeps_path m' \<Longrightarrow> keeps_path (if b then m else m')"
  by simp

lemma keeps_path_state: "(\<And>s. \<exists>m'. keeps_path m' \<and> m s = m' s) \<Longrightarrow> keeps_path m"
  unfolding keeps_path_def by metis

lemma keeps_path_align: "keeps_path alignAppendOffset"
proof (rule keeps_path_state)
  fix s :: log_disk
  let ?o = "lf_appendOffset (snd s)"
  have "alignAppendOffset s = (if ?o mod 8 = 0 then ret () else thenS (on_db (DatabaseFile_writeBytes (replicate (unat (8 - ?o mod 8)) 0)))
      (set_appendOffset (?o + (8 - ?o mod 8)))) s"
    by (simp add: alignAppendOffset_def Let_def ret_def)
  moreover have "keeps_path (if ?o mod 8 = 0 then ret () else thenS (on_db (DatabaseFile_writeBytes (replicate (unat (8 - ?o mod 8)) 0)))
      (set_appendOffset (?o + (8 - ?o mod 8))))" unfolding thenS_def by (intro keeps_path_rules)
  ultimately show "\<exists>m'. keeps_path m' \<and> alignAppendOffset s = m' s" by blast
qed

lemma keeps_path_append: "keeps_path (LogFile_append data)"
proof (rule keeps_path_state)
  fix s :: log_disk
  let ?m = "if \<not> LogFile_isOpen s then fail (ioError ''LogFile: file not open'')
      else thenS (on_db (DatabaseFile_seek (lf_appendOffset (snd s)))) (thenS (on_db (DatabaseFile_writeBytes data))
        (thenS (set_appendOffset (lf_appendOffset (snd s) + of_nat (length data))) alignAppendOffset))"
  have "keeps_path ?m" unfolding thenS_def by (intro keeps_path_rules keeps_path_align)
  moreover have "LogFile_append data s = ?m s" by (simp add: LogFile_append_def Let_def fail_def)
  ultimately show "\<exists>m'. keeps_path m' \<and> LogFile_append data s = m' s" by blast
qed

lemma keeps_path_readHeader: "keeps_path LogFile_readHeader"
proof (rule keeps_path_state)
  fix s :: log_disk
  let ?m = "if \<not> LogFile_isOpen s then fail (ioError ''LogFile: file not open'')
      else if LogFile_fileSize (snd s) < of_nat kWalHeaderSize then fail (corruption ''LogFile: file too small for header'')
      else thenS (on_db (DatabaseFile_seek 0)) (bindS (on_db (DatabaseFile_readBytes (replicate kWalHeaderSize 0) kWalHeaderSize))
               (\<lambda>bs. ret (wal_header_of bs)))"
  have "keeps_path ?m" unfolding thenS_def by (intro keeps_path_rules)
  moreover have "LogFile_readHeader s = ?m s" by (simp add: LogFile_readHeader_def fail_def)
  ultimately show "\<exists>m'. keeps_path m' \<and> LogFile_readHeader s = m' s" by blast
qed

lemma keeps_path_validate: "keeps_path LogFile_validate"
proof (rule keeps_path_state)
  fix s :: log_disk
  let ?m = "if \<not> LogFile_isOpen s then fail (ioError ''LogFile: file not open'')
      else bindS LogFile_readHeader (\<lambda>h.
             if wh_magic h \<noteq> kJournalMagic then fail (corruption ''LogFile: invalid WAL magic'')
             else if wh_version h \<noteq> kWalFormatVersion then fail (corruption ''LogFile: unsupported WAL version'')
             else ret ())"
  have "keeps_path ?m" by (intro keeps_path_rules keeps_path_readHeader)
  moreover have "LogFile_validate s = ?m s" by (simp add: LogFile_validate_def fail_def)
  ultimately show "\<exists>m'. keeps_path m' \<and> LogFile_validate s = m' s" by blast
qed

lemma keeps_path_flush: "keeps_path LogFile_flush"
proof (rule keeps_path_state)
  fix s :: log_disk
  let ?m = "if \<not> lf_attached (snd s) then fail (ioError ''LogFile: file not open'') else on_db DatabaseFile_flush"
  have "keeps_path ?m" by (intro keeps_path_rules)
  moreover have "LogFile_flush s = ?m s" by (simp add: LogFile_flush_def fail_def)
  ultimately show "\<exists>m'. keeps_path m' \<and> LogFile_flush s = m' s" by blast
qed

text \<open>Flushing the manager stays with the file too.\<close>

lemma flush_path:
  assumes "LogManager_flush s = (res, s')"
  shows "log_path (log_disk_of s') = log_path (log_disk_of s)"
proof -
  have on: "log_path (log_disk_of x') = log_path (log_disk_of x)" if "on_log LogFile_flush x = (r, x')" for x x' r
    using that keeps_pathD [OF keeps_path_flush, of "log_disk_of x"]
    by (auto simp: on_log_def log_disk_of_def log_path_def split: prod.splits)
  have fl: "log_path (log_disk_of x') = log_path (log_disk_of x)" if "flushBufferToFile x = (r, x')" for x x' r
    using that keeps_pathD [OF keeps_path_append, of "buffered (snd x)" "log_disk_of x"]
    by (auto simp: flushBufferToFile_def LogBuffer_flush_def log_disk_of_def log_path_def buffered_def Let_def
        split: prod.splits sum.splits if_splits)
  have nf: "log_disk_of (fst x, note_flushed (snd x)) = log_disk_of x" for x
    by (simp add: log_disk_of_def note_flushed_def Let_def)
  obtain r1 s1 where s1: "flushBufferToFile s = (r1, s1)" by (rule prod.exhaust)
  obtain r2 s2 where s2: "on_log LogFile_flush s1 = (r2, s2)" by (rule prod.exhaust)
  show ?thesis
    using assms fl [OF s1] on [OF s2] nf [of s2] s1 s2
    by (cases r1; cases r2) (auto simp: LogManager_flush_def LogWriter_flush_def split: if_splits)
qed

section \<open>A log with no record\<close>

definition empty_log :: "string \<Rightarrow> log_state \<Rightarrow> bool" where
  "empty_log q l \<longleftrightarrow> lm_initialized (snd l) \<and> log_holds (log_disk_of l) wal_start \<and> log_path (log_disk_of l) = q"

lemma empty_log_size: "empty_log q l \<Longrightarrow> LogFile_fileSize (lm_file (snd l)) = 16"
  by (simp add: empty_log_def log_holds_def LogFile_fileSize_def log_disk_of_def)

lemma empty_log_reader [simp]: "empty_log q (set_reader f l) = empty_log q l" "snd (log_disk_of (set_reader f l)) = snd (log_disk_of l)"
  "lm_writer (snd (set_reader f l)) = lm_writer (snd l)"
  by (simp_all add: empty_log_def set_reader_def log_disk_of_def)

lemma empty_log_file:
  assumes "empty_log q l" "log_holds d wal_start" "log_path d = q"
  shows "empty_log q (fst d, (snd l)\<lparr>lm_file := snd d\<rparr>)"
  using assms by (simp add: empty_log_def log_disk_of_def)

lemma empty_log_new:
  assumes "openable w q" "files w q = None" "\<not> lm_initialized m" "\<not> fs_open (df_stream (lf_file (lm_file m)))"
  shows "\<exists>l. LogManager_initialize q True (w, m) = Some (Inr (), l) \<and> empty_log q l \<and> lm_writer (snd l) = lm_writer m"
proof -
  let ?f = "(lm_file m)\<lparr>lf_attached := True\<rparr>"
  obtain d0 where d0: "DatabaseFile_open q True (w, lf_file (lm_file m)) = (Inr (), d0)" "file_ok d0" "content d0 = []" "df_size (snd d0) = 0"
    "fs_path (df_stream (snd d0)) = q"
    using assms(1,2,4) by (auto simp: DatabaseFile_open_def stream_open_def file_ok_def content_def stream_bytes_def Let_def)
  obtain d1 where d1: "DatabaseFile_seek 0 d0 = (Inr (), d1)" "file_ok d1" "content d1 = []" "fs_pos (df_stream (snd d1)) = 0" "df_size (snd d1) = 0"
    using seek_any [OF d0(2), of 0] d0(3,4) by auto
  obtain d2 where d2: "DatabaseFile_writeBytes wal_start d1 = (Inr (), d2)" "file_ok d2" "content d2 = wal_start" "df_size (snd d2) = 16"
    using write_any [OF d1(2), of wal_start] d1(3,4,5) by (auto simp: patch_def max_def)
  have path: "fs_path (df_stream (snd d2)) = q" using d0(5) seek_world [OF d1(1)] write_world [OF d1(2) d2(1)] by simp
  let ?s = "(fst d2, ?f\<lparr>lf_file := snd d2, lf_appendOffset := 16\<rparr>)"
  have c: "LogFile_create q (w, lm_file m) = (Inr (), ?s)"
    using d0(1) d1(1) d2(1)
    by (cases d0; cases d1; cases d2) (simp add: LogFile_create_def Let_def on_db_def set_appendOffset_def LogFile_writeHeader_def wal_start_def)
  have h: "log_holds ?s wal_start" "log_path ?s = q" using d2 path by (simp_all add: log_holds_def disk_of_def log_path_def)
  obtain e where e: "LogFile_validate ?s = (Inr (), e)" "log_holds e wal_start" using validate_file_holds [of ?s "[]"] h(1) by auto
  have "log_path e = q" using keeps_pathD [OF keeps_path_validate e(1)] h(2) by simp
  moreover have "thenS (on_log (LogFile_create q)) (on_log LogFile_validate) (w, m) = (Inr (), (fst e, m\<lparr>lm_file := snd e\<rparr>))"
    using c e(1) by (cases e) (simp add: on_log_def)
  ultimately show ?thesis
    using assms(3) e(2) by (simp add: LogManager_initialize_def set_reader_def empty_log_def log_disk_of_def)
qed

lemma empty_log_readNext:
  assumes "empty_log q l"
  shows "\<exists>st l'. LogManager_readNext (set_reader LogReader_rewind l, rec) = (Inl st, (l', rec)) \<and> empty_log q l' \<and>
    lm_writer (snd l') = lm_writer (snd l)"
proof -
  let ?l = "set_reader LogReader_rewind l"
  have "empty_log q ?l" using assms by simp
  then have i: "lm_initialized (snd ?l)" "LogFile_fileSize (lm_file (snd ?l)) = 16" using empty_log_size by (simp_all add: empty_log_def)
  have "rd_offset (lm_reader (snd ?l)) = 16" "\<not> rd_endOfLog (lm_reader (snd ?l))" by (simp_all add: set_reader_def LogReader_rewind_def)
  then have "LogManager_readNext (?l, rec) =
      (Inl (invalidArgument ''LogReader: end of log''), (set_reader (\<lambda>r. r\<lparr>rd_endOfLog := True\<rparr>) ?l, rec))"
    using i by (simp add: LogManager_readNext_def LogReader_readNext_def Let_def)
  then show ?thesis using assms by simp
qed

lemma empty_log_validate:
  assumes "empty_log q l"
  shows "\<exists>l'. LogManager_validate l = Some (Inr (), l') \<and> empty_log q l' \<and> lm_writer (snd l') = lm_writer (snd l)"
proof -
  have h: "log_holds (log_disk_of l) wal_start" "lm_initialized (snd l)" "log_path (log_disk_of l) = q" using assms by (simp_all add: empty_log_def)
  obtain d where d: "LogFile_validate (log_disk_of l) = (Inr (), d)" "log_holds d wal_start"
    using validate_file_holds [of "log_disk_of l" "[]"] h(1) by auto
  have p: "log_path d = q" using keeps_pathD [OF keeps_path_validate d(1)] h(3) by simp
  have "LogFile_fileSize (snd d) = 16" using d(2) by (simp add: log_holds_def LogFile_fileSize_def)
  then have "logValidateLoop 16 0 (d, LogRecord_new) = Some (Inr (), d)" by (subst logValidateLoop.simps) simp
  then have "LogManager_validate l = Some (Inr (), (fst d, (snd l)\<lparr>lm_file := snd d\<rparr>))"
    using d(1) h(2) by (cases d) (simp add: LogManager_validate_def on_log_def log_disk_of_def)
  then show ?thesis using empty_log_file [OF assms d(2) p] by simp
qed

text \<open>Recovery from a log with no record clears the tree and succeeds.\<close>

lemma empty_log_recover:
  assumes "empty_log q l"
  shows "\<exists>l'. recover fuel ord (l, t) = (Done (), (l', tree_clear ord t), RecoveryResult_new) \<and> empty_log q l' \<and>
    lm_writer (snd l') = lm_writer (snd l)"
proof -
  have rw: "LogManager_rewindReader x = (Inr (), set_reader LogReader_rewind x)" if "empty_log q x" for x
    using that by (simp add: LogManager_rewindReader_def empty_log_def)
  obtain st1 l1 where l1: "LogManager_readNext (set_reader LogReader_rewind l, LogRecord_new) = (Inl st1, (l1, LogRecord_new))"
    "empty_log q l1" "lm_writer (snd l1) = lm_writer (snd l)" using empty_log_readNext [OF assms] by blast
  have find: "findLastCheckpoint l =
      Some (Inl (invalidArgument ''CheckpointManager: no checkpoint found''), (CheckpointPayload_new, 0), l1)"
    using rw [OF assms] l1(1) by (simp add: findLastCheckpoint_def checkpointLoop.simps [of "(set_reader LogReader_rewind l, LogRecord_new)"])
  obtain st2 l2 where l2: "LogManager_readNext (set_reader LogReader_rewind l1, LogRecord_new) = (Inl st2, (l2, LogRecord_new))"
    "empty_log q l2" "lm_writer (snd l2) = lm_writer (snd l)" using empty_log_readNext [OF l1(2)] l1(3) by metis
  have "replayLoop 0 (set_reader LogReader_rewind l1, tree_clear ord t) LogRecord_new RecoveryResult_new =
      Some (Done (), (l2, tree_clear ord t), RecoveryResult_new)" using l2(1) by (subst replayLoop.simps) simp
  then have rep: "replay 0 (l1, tree_clear ord t) = (Done (), (l2, tree_clear ord t), RecoveryResult_new)"
    using rw [OF l1(2)] by (simp add: replay_def logR_def outcome_of_def)
  have "restoreLoop 16 0 (log_disk_of l2) = Some (0, log_disk_of l2)"
    using empty_log_size [OF l2(2)] by (subst restoreLoop.simps) (simp add: log_disk_of_def)
  then have rs: "LogManager_restoreWriterState l2 = Some (Inr (), l2)"
    using l2(2) by (cases l2) (simp add: LogManager_restoreWriterState_def LogWriter_restoreFromFile_def log_disk_of_def Let_def empty_log_def)
  let ?l3 = "set_reader LogReader_rewind l2"
  obtain l4 where l4: "LogManager_validate ?l3 = Some (Inr (), l4)" "empty_log q l4" "lm_writer (snd l4) = lm_writer (snd l)"
    using empty_log_validate [of q ?l3] l2(2,3) by auto
  have tv: "tree_validate fuel (tree_clear ord t) = Done ()" by (simp add: tree_validate_def tree_empty_def tree_clear_def)
  have "recover fuel ord (l, t) = (Done (), (l4, tree_clear ord t), RecoveryResult_new)"
    using find rep rs rw [OF l2(2)] l4(1) tv
    by (simp add: recover_def Let_def recovery_validate_def scanR_def logR_def outcome_of_def bindR_def)
  then show ?thesis using l4(2,3) by blast
qed

section \<open>Opening a new database with a log\<close>

definition logged_engine :: "(lsn \<Rightarrow> u64) \<Rightarrow> string \<Rightarrow> database_options \<Rightarrow> engine \<Rightarrow> bool" where
  "logged_engine clock path options s \<longleftrightarrow> db_open (snd s) \<and> op_enableWal (db_options (snd s)) \<and> fs_open (df_stream (db_file (snd s))) \<and>
     bt_walSink (db_tree (snd s)) = Some (BTreeWalAdapter clock) \<and> bt_config (db_tree (snd s)) = op_btreeConfig options"

lemma open_logged:
  assumes "op_enableWal options" "op_recoverOnOpen options" "openable w path" "openable w (path @ ''.wal'')"
    "files w path = None" "files w (path @ ''.wal'') = None" "ord {} = []"
  shows "\<exists>s. Database_open fuel ord clock path True (w, Database_new options) = (Done (), s) \<and> logged_engine clock path options s \<and>
    empty_log (path @ ''.wal'') (log_of s) \<and> lm_writer (snd (log_of s)) = LogWriter_new 65536 \<and>
    tree_empty (db_tree (snd s)) \<and> bt_leaves (db_tree (snd s)) = Map.empty \<and> bt_space (db_tree (snd s)) = SpaceManager_new FirstFitPolicy"
proof -
  let ?d = "Database_new options" and ?q = "path @ ''.wal''"
  let ?base = "?d\<lparr>db_options := options\<lparr>op_dataPath := path\<rparr>\<rparr>"
  have new: "db_open ?d = False" "db_options ?d = options" "\<not> fs_open (df_stream (db_file ?d))"
    "db_tree ?d = tree_new (SpaceManager_new FirstFitPolicy) (op_btreeConfig options) LogManager_new"
    by (simp_all add: Database_new_def DatabaseFile_default_def closed_stream_def)
  obtain e where e: "initializeStorage path True (w, db_file ?d) = (Inr (), e)" "file_ok e"
    "files (fst e) ?q = None" "openable (fst e) ?q"
    using storage_new [OF assms(3,5) new(3)] assms(4,6) by auto
  let ?sa = "(fst e, ?base\<lparr>db_file := snd e\<rparr>)"
  have fd: "fileD (initializeStorage path True) (w, ?base) = (Inr (), ?sa)" using e(1) by (cases e) (simp add: fileD_def)
  have m: "\<not> lm_initialized LogManager_new" "\<not> fs_open (df_stream (lf_file (lm_file LogManager_new)))"
    "lm_writer LogManager_new = LogWriter_new 65536"
    by (simp_all add: LogManager_new_def LogFile_new_def DatabaseFile_default_def closed_stream_def)
  obtain l where l: "LogManager_initialize ?q True (fst e, LogManager_new) = Some (Inr (), l)" "empty_log ?q l"
    "lm_writer (snd l) = LogWriter_new 65536" using empty_log_new [OF e(4,3) m(1,2)] m(3) by auto
  let ?sb = "set_log l ?sa"
  have iw: "initializeWal (walPathFor path) True ?sa = (Done (), ?sb)"
    using l(1) new(4) by (simp add: initializeWal_def walPathFor_def log_of_def tree_new_def outcome_of_def)
  let ?t = "(db_tree ?d)\<lparr>bt_wal := snd l\<rparr>"
  obtain l' where l': "recover fuel ord (l, ?t) = (Done (), (l', tree_clear ord ?t), RecoveryResult_new)"
    "empty_log ?q l'" "lm_writer (snd l') = LogWriter_new 65536" using empty_log_recover [OF l(2)] l(3) by metis
  have rr: "\<exists>d. runRecovery fuel ord ?sb = (Done (), (fst l', d)) \<and> db_tree d = (tree_clear ord ?t)\<lparr>bt_wal := snd l'\<rparr> \<and>
      db_options d = options\<lparr>op_dataPath := path\<rparr> \<and> db_file d = snd e \<and> \<not> db_open d"
    using l'(1) new(1) by (simp add: runRecovery_def Let_def log_of_def set_log_def)
  then obtain d where d: "runRecovery fuel ord ?sb = (Done (), (fst l', d))" "db_tree d = (tree_clear ord ?t)\<lparr>bt_wal := snd l'\<rparr>"
    "db_options d = options\<lparr>op_dataPath := path\<rparr>" "db_file d = snd e" by blast
  have t: "tree_clear ord ?t = ?t\<lparr>bt_opStats := TreeOperationStats\<rparr>"
    using new(4) assms(7) by (simp add: tree_clear_def tree_new_def)
  let ?s = "(fst l', d\<lparr>db_tree := setWalSink (Some (BTreeWalAdapter clock)) (db_tree d), db_open := True,
      db_counters := (db_counters d)\<lparr>dc_openCount := dc_openCount (db_counters d) + 1\<rparr>\<rparr>)"
  have "Database_open fuel ord clock path True (w, ?d) = (Done (), ?s)"
    using fd iw d(1) assms(1,2) new(1,2) by (simp add: Database_open_def Let_def set_sink_def set_log_def)
  moreover have "logged_engine clock path options ?s" "empty_log ?q (log_of ?s)" "lm_writer (snd (log_of ?s)) = LogWriter_new 65536"
    "tree_empty (db_tree (snd ?s))" "bt_leaves (db_tree (snd ?s)) = Map.empty" "bt_space (db_tree (snd ?s)) = SpaceManager_new FirstFitPolicy"
    using d t new(4) assms(1) e(2) l'(2,3)
    by (simp_all add: logged_engine_def setWalSink_def log_of_def tree_new_def tree_empty_def file_ok_def)
  ultimately show ?thesis by blast
qed

section \<open>The first insertion\<close>

lemma append_ok:
  assumes "lm_initialized m" "loggable r" "lw_nextLsn (lm_writer m) \<noteq> 0" "length (buffered m) + wireSize r + 4 \<le> log_capacity m"
    "log_capacity m = 65536"
  obtains m' where "LogManager_append r m = (Inr (), m')" "buffered m' = buffered m @ frame_bytes r" "lm_initialized m'"
    "lm_file m' = lm_file m" "log_capacity m' = 65536" "lw_nextLsn (lm_writer m') = lw_nextLsn (lm_writer m) + 1"
  using append_record_ok [OF assms(2,3,4)] assms(1,5) that by (auto simp: LogManager_append_def)

lemma first_insertion_logged:
  assumes "tree_empty t" "bt_leaves t = Map.empty" "bt_walSink t = Some (BTreeWalAdapter clock)" "bt_space t = SpaceManager_new FirstFitPolicy"
    "keyWireSize (bt_config t) \<le> 3940" "key_typed (bt_config t) k" "PageReference_isValid v"
    "lm_initialized (bt_wal t)" "lm_writer (bt_wal t) = LogWriter_new 65536" "clock 1 \<noteq> 0" "clock 2 \<noteq> 0"
  shows "\<exists>t' r r'. tree_insert k v t = (Done (), t') \<and> buffered (bt_wal t') = frame_bytes r @ frame_bytes r' \<and> wireSize r < 4096 \<and>
    wireSize r' < 4096 \<and> lm_file (bt_wal t') = lm_file (bt_wal t) \<and> lm_initialized (bt_wal t') \<and> bt_walSink t' = bt_walSink t"
proof -
  let ?m = "bt_wal t" and ?cfg = "(bt_config t)\<lparr>level := 0\<rparr>"
  have a: "fst (allocatePage (SpaceManager_new FirstFitPolicy)) = 8" by code_simp
  obtain p sp where al: "allocatePage (bt_space t) = (p, sp)" "p \<noteq> kInvalidPageId"
    using a assms(4) by (cases "allocatePage (bt_space t)") (simp add: kInvalidPageId_def)
  have m: "buffered ?m = []" "log_capacity ?m = 65536" "lw_nextLsn (lm_writer ?m) = 1"
    using assms(9) by (simp_all add: buffered_def log_capacity_def LogWriter_new_def LogBuffer_new_def emptyBuffer_def buffer_reserve_def)
  define r where "r = make_now clock AllocationRecord p ?m"
  have r: "loggable r" "wireSize r = 45"
    using assms(10) m(3) by (simp_all add: r_def make_now_def LogRecord_make_def loggable_def isValidRecordType_def wireSize_def LogRecord_new_def)
  obtain m1 where m1: "LogManager_append r ?m = (Inr (), m1)" "buffered m1 = frame_bytes r" "lm_initialized m1"
    "lm_file m1 = lm_file ?m" "log_capacity m1 = 65536" "lw_nextLsn (lm_writer m1) = 2"
    using append_ok [OF assms(8) r(1)] m r(2) by auto
  have sz: "serializedSize k \<le> 3940" using serializedSize_typed [OF assms(6)] assms(5) by simp
  obtain w where w: "thenS (key_serialize k) (write_ref v) (mkWriter emptyBuffer Little) = (Inr (), w)"
    "bytes (wbuf w) = replicate (serializedSize k + 20) 0"
  proof -
    have e: "at_end (mkWriter emptyBuffer Little)" "bytes (wbuf (mkWriter emptyBuffer Little)) = []"
      by (simp_all add: mkWriter_def emptyBuffer_def at_end_def)
    have "appends (thenS (key_serialize k) (write_ref v)) (serializedSize k + 20)" by (intro appends_thenS appends_key appends_ref)
    then show thesis using e that unfolding appends_def by fastforce
  qed
  define r' where "r' = (make_now clock PageUpdateRecord (pr_pageId v) m1)\<lparr>lr_payload := bytes (wbuf w)\<rparr>"
  have r': "loggable r'" "wireSize r' = 65 + serializedSize k"
    using assms(11) m1(6) w(2) sz by (simp_all add: r'_def make_now_def LogRecord_make_def loggable_def isValidRecordType_def wireSize_def)
  obtain m2 where m2: "LogManager_append r' m1 = (Inr (), m2)" "buffered m2 = frame_bytes r @ frame_bytes r'" "lm_initialized m2"
    "lm_file m2 = lm_file ?m"
    using append_ok [OF m1(3) r'(1)] m1 r(2) r'(2) sz by auto
  have wi: "appendKeyRecord clock PageUpdateRecord (pr_pageId v) k v m1 = (Inr (), m2)"
    using w(1) m2(1) assms(7) by (simp add: appendKeyRecord_def append_payload_def r'_def)
  have wc: "keyWireSize ?cfg \<le> 3940" using assms(5) by simp
  note c = leaf_create_new [OF wc, of p]
  have "0 < unat (node_capacity (leaf_create p ?cfg))" using capacity_iff(1) [of 1 ?cfg] wc by (simp add: c)
  then obtain n' where "leaf_insert k v (leaf_create p ?cfg) = (Inr (), n')"
    using leaf_insert_cases [OF c(1), of k v] assms(6,7) c(2,4) by simp
  then obtain t' where "tree_insert k v t = (Done (), t')" "bt_wal t' = m2" "bt_walSink t' = bt_walSink t"
    using assms(1,2,3,7) al m1(1) wi r_def
    by (simp add: tree_insert_def allocateLeaf_def Let_def walOnPageAllocate_def walOnInsert_def walT_def BTreeWalAdapter_def
        on_node_simps(1) setRoot_def setHeight_def incrementSize_def)
  then show ?thesis using m2 r(2) r'(2) sz by (intro exI [of _ t'] exI [of _ r] exI [of _ r']) simp
qed

text \<open>What closing leaves in the file of the log.\<close>

lemma close_logged:
  assumes "db_open (snd s)" "op_enableWal (db_options (snd s))" "fs_open (df_stream (db_file (snd s)))" "lm_initialized (snd (log_of s))"
    "log_holds (log_disk_of (log_of s)) c" "log_path (log_disk_of (log_of s)) = q" "buffered (snd (log_of s)) = []" "c \<noteq> []"
    "length c + 8 < 4611686018427387904"
  shows "\<exists>s'. Database_close s = (Inr (), s') \<and> files (fst s') q = Some c"
proof -
  let ?l = "log_of (set_sink None s)"
  have l: "?l = log_of s" by (simp add: log_of_def set_sink_def setWalSink_def)
  obtain l1 where l1: "LogManager_flush (log_of s) = (Inr (), l1)" "log_holds (log_disk_of l1) c" "lm_initialized (snd l1)"
    "buffered (snd l1) = []" "log_path (log_disk_of l1) = q"
    using flush_holds [OF assms(4,5)] assms(6,7,9) flush_path [of "log_of s"] by (auto simp: padding_def)
  obtain l2 where l2: "LogManager_flush l1 = (Inr (), l2)" "log_holds (log_disk_of l2) c" "log_path (log_disk_of l2) = q"
    using flush_holds [OF l1(3,2)] l1(4,5) assms(9) flush_path [of l1] by (auto simp: padding_def)
  have f: "files (fst l2) q = Some c"
    using l2(2,3) assms(8)
    by (auto simp: log_holds_def content_def stream_bytes_def disk_of_def log_disk_of_def log_path_def split: option.splits)
  have "\<exists>l3. LogManager_shutdown l1 = (Inr (), l3) \<and> fst l3 = fst l2"
    using l1(3) l2(1,2) by (auto simp: LogManager_shutdown_def on_log_def LogFile_close_def on_db_def DatabaseFile_close_def Let_def
        stream_close_def log_holds_def log_disk_of_def split: prod.splits)
  then obtain l3 where l3: "LogManager_shutdown l1 = (Inr (), l3)" "fst l3 = fst l2" by blast
  have "thenS (logD LogManager_flush) (logD LogManager_shutdown) (set_sink None s) = (Inr (), set_log l3 (set_log l1 (set_sink None s)))"
    using l1(1) l3(1) l by (simp add: logD_def) (simp add: log_of_def set_log_def)
  then show ?thesis
    using assms(1,2,3) l3(2) f
    by (auto simp: Database_close_def Let_def fileD_def DatabaseFile_close_def stream_close_def set_log_def set_sink_def split: prod.splits)
qed

section \<open>Properties\<close>

text \<open>
  C26. One insertion makes a database with a log unusable: with the log and recovery enabled, a new
  database opens on accessible paths, the insertion of a valid entry and closing succeed, and after
  that no process can open the database, whether or not it asks for the files to be created.
\<close>

theorem one_insertion_prevents_reopening:
  assumes "op_enableWal options" "op_recoverOnOpen options" "openable w path" "openable w (path @ ''.wal'')"
    "files w path = None" "files w (path @ ''.wal'') = None" "ord {} = []" "clock 1 \<noteq> 0" "clock 2 \<noteq> 0"
    "keyWireSize (op_btreeConfig options) \<le> 3940" "key_typed (op_btreeConfig options) k" "PageReference_isValid v"
  shows "\<exists>s1 s2 s3 st s4. Database_open fuel ord clock path True (w, Database_new options) = (Done (), s1) \<and>
    Database_insert k v s1 = (Done (), s2) \<and> Database_close s2 = (Inr (), s3) \<and>
    Database_open fuel' ord' clock' path create (fst s3, Database_new options) = (Error st, s4)"
proof -
  let ?q = "path @ ''.wal''"
  obtain s1 where s1: "Database_open fuel ord clock path True (w, Database_new options) = (Done (), s1)" "logged_engine clock path options s1"
    "empty_log ?q (log_of s1)" "lm_writer (snd (log_of s1)) = LogWriter_new 65536" "tree_empty (db_tree (snd s1))"
    "bt_leaves (db_tree (snd s1)) = Map.empty" "bt_space (db_tree (snd s1)) = SpaceManager_new FirstFitPolicy"
    using open_logged [of options w path ord, OF assms(1-7)] by blast
  let ?t = "db_tree (snd s1)"
  have e: "bt_walSink ?t = Some (BTreeWalAdapter clock)" "bt_config ?t = op_btreeConfig options" "db_open (snd s1)"
    "op_enableWal (db_options (snd s1))" "fs_open (df_stream (db_file (snd s1)))" using s1(2) by (simp_all add: logged_engine_def)
  have lo: "log_of s1 = (fst s1, bt_wal ?t)" by (simp add: log_of_def)
  have m: "lm_initialized (bt_wal ?t)" "lm_writer (bt_wal ?t) = LogWriter_new 65536" using s1(3,4) lo by (simp_all add: empty_log_def)
  obtain t r r' where t: "tree_insert k v ?t = (Done (), t)" "buffered (bt_wal t) = frame_bytes r @ frame_bytes r'" "wireSize r < 4096"
    "wireSize r' < 4096" "lm_file (bt_wal t) = lm_file (bt_wal ?t)" "lm_initialized (bt_wal t)"
    using first_insertion_logged [OF s1(5,6) e(1) s1(7) _ _ assms(12) m assms(8,9), of k] assms(10,11) e(2) by auto
  let ?sa = "(fst s1, (snd s1)\<lparr>db_tree := t\<rparr>)" and ?b = "frame_bytes r @ frame_bytes r'"
  let ?c = "wal_start @ ?b @ replicate (padding (length ?b)) 0"
  have ls: "log_of ?sa = (fst s1, bt_wal t)" by (simp add: log_of_def)
  have h: "log_holds (log_disk_of (log_of ?sa)) wal_start" "log_path (log_disk_of (log_of ?sa)) = ?q"
    using s1(3) t(5) unfolding ls lo by (simp_all add: empty_log_def log_disk_of_def)
  have pd: "padding (length ?b) < 8" by (rule padding_aligns)
  obtain l where l: "LogManager_flush (log_of ?sa) = (Inr (), l)" "log_holds (log_disk_of l) ?c" "buffered (snd l) = []" "lm_initialized (snd l)"
    using flush_holds [of "log_of ?sa" wal_start] h(1) t(2,3,4,6) ls by auto
  have lp: "log_path (log_disk_of l) = ?q" using flush_path [OF l(1)] h(2) by simp
  let ?s2 = "set_log l ?sa"
  have ins: "Database_insert k v s1 = (Done (), ?s2)"
    using t(1) e(3,4) l(1) by (simp add: Database_insert_def treeD_def flushed_def logD_def outcome_of_def)
  have c: "?c \<noteq> []" using length_wal_start by (metis append_is_Nil_conv length_0_conv zero_neq_numeral)
  have "log_of ?s2 = l" by (simp add: log_of_def set_log_def)
  then obtain s3 where s3: "Database_close ?s2 = (Inr (), s3)" "files (fst s3) ?q = Some ?c"
    using close_logged [of ?s2 ?c ?q] c e(3,4,5) l(2,3,4) lp t(3,4) pd by (auto simp: set_log_def)
  have "files (fst s3) ?q = Some (wal_start @ frame_bytes r @ (frame_bytes r' @ replicate (padding (length ?b)) 0))" using s3(2) by simp
  moreover have "wireSize r < 4294967296" "length (wal_start @ frame_bytes r @ (frame_bytes r' @ replicate (padding (length ?b)) 0)) < 4611686018427387904"
    using t(3,4) pd by simp_all
  ultimately obtain st s4 where "Database_open fuel' ord' clock' path create (fst s3, Database_new options) = (Error st, s4)"
    using logged_database_does_not_reopen [OF assms(1,2)] by blast
  then show ?thesis using s1(1) ins s3(1) by blast
qed

theorem one_insertion_prevents_reopening_witness:
  "\<exists>s1 s2 s3 st s4. Database_open 10 (\<lambda>_. []) (\<lambda>_. 1) ''db'' True
      (\<lparr>files = Map.empty, openable = (\<lambda>_. True)\<rparr>, Database_new DatabaseOptions) = (Done (), s1) \<and>
    Database_insert (UInt32 5) (makeIndexRef 9) s1 = (Done (), s2) \<and> Database_close s2 = (Inr (), s3) \<and>
    Database_open 10 (\<lambda>_. []) (\<lambda>_. 1) ''db'' False (fst s3, Database_new DatabaseOptions) = (Error st, s4)"
proof -
  let ?w = "\<lparr>files = Map.empty, openable = (\<lambda>_. True)\<rparr>"
  have o: "op_enableWal DatabaseOptions" "op_recoverOnOpen DatabaseOptions" "op_btreeConfig DatabaseOptions = BTreeNodeConfig"
    by (simp_all add: DatabaseOptions_def)
  show ?thesis
    by (rule one_insertion_prevents_reopening [of DatabaseOptions ?w "''db''"])
      (use o sample_config makeIndexRef_valid [of 9] in \<open>simp_all add: kInvalidPageId_def\<close>)
qed

end
