(* ===== verification/Spec2Isabelle.thy ===== *)
theory Spec2Isabelle
  imports Space DiskFile Key Pages Cursor Catalog Maintenance Reopen
begin

text \<open>
  A verification development of QuartzDB, an embedded key/value engine written in C++17 (the
  sources are under src/include/quartz and src/src; paths below are relative to these).

  \<^bold>\<open>The program.\<close> A \<^verbatim>\<open>Database\<close> owns a data file made of 4096-byte pages, a space
  manager that hands out page identifiers, a B-tree from keys to page references, and a
  write-ahead log. The tree keeps its nodes in memory, each with the index page it would be
  stored in; it takes pages from the space manager and reports every change to a log sink. The
  log turns these reports into framed records, buffers them and appends them to its own file;
  checkpoints put a snapshot of the tree into the log. Opening a database initialises both files
  and rebuilds the tree from the log. Below all of this lie binary readers and writers over
  buffers, variable-length integers, and the layouts of the file format.

  \<^bold>\<open>How the code is modelled.\<close> A class is a record of its data members, a packed structure
  a record with its byte image, an integer type the word of its width, with the wrap-around of
  the source. A method that returns a \<^verbatim>\<open>Status\<close> and changes its object is an operation
  \<open>('s, 'a) op\<close>, from a state to a status or a result together with the new state, so that what a
  failing call leaves behind is part of the model. Operations on the tree end in one of four
  outcomes: \<open>Done\<close>, \<open>Error\<close> (a status), \<open>Thrown\<close> (an exception) and \<open>Diverges\<close> (a loop that
  never ends). Definitions carry the names of the source, prefixed by the class where a name
  occurs twice.

  \<^bold>\<open>Theories, in the order of the layers.\<close>

  \<^descr> Prelude: words, statuses, the state monad, \<^verbatim>\<open>std::to_string\<close>, the little-endian image
    of a word.
  \<^descr> VarInt (serialization/VariableLengthInteger): encoding, decoding and sizes; every 64-bit
    value round-trips, ZigZag round-trips exactly on the values it can.
  \<^descr> Serialization (util/Endian.h, serialization/): buffers, views, readers, writers and strings.
    The locale \<open>codec\<close> is the contract of a byte image and the reader that undoes it; readers never
    leave their view; what a write at the end of a buffer really stores.
  \<^descr> Storage (storage/Page, PageAllocator) and DiskFile (storage/DatabaseFile): pages, the
    allocator as an implementation of the ledger of pages in use (locale \<open>page_source\<close>), and the
    file on a model of streams with their fail and end-of-file flags; pages that were written are
    read back.
  \<^descr> FreeSpace (space/Extent, FreeSpaceMap) and Space (space/AllocationPolicy, ExtentAllocator,
    SpaceStatistics, FragmentationAnalyzer, SpaceManager): the map as a set of page numbers, the
    exact effect of each operation on it, the three policies under the locale
    \<open>allocation_policy\<close>, and the manager as a second \<open>page_source\<close>.
  \<^descr> Format (format/), Catalog (metadata/) and Pages (pages/): identifiers, versions, headers,
    validators, the catalog (locale \<open>registry\<close>, one interpretation per table), and the six page
    classes over the locale \<open>payload_layout\<close>.
  \<^descr> Key (btree/Key, KeyComparator.h, format/PageReference.h) and Nodes (btree/BTreeNode,
    LeafNode, InternalNode, NodeValidator, SplitMergePlanner): the total order of keys, binary
    search, and nodes with their capacity, their entries and their page image.
  \<^descr> MapStore: the contract of a store of unique keys, \<open>map_store\<close>; every run of requests on
    such a store is a run of a finite map. It is interpreted on leaves (Nodes), on trees that fit
    in one leaf (TreeProps) and on the engine without a log (Database).
  \<^descr> BTree, Rebalance, TreeOps (btree/BTree, Rebalance, SearchPath, TreeValidator): descent,
    insertion with splits, erasure with borrowing and merging, statistics, snapshots, validation.
    TreeProps, SearchTree and TreeSpec hold their properties: every operation returns; on search
    trees of any height (an inductive invariant of the node tables) lookups, and updates that
    change one leaf, are those of a map; what splitting and merging do to the entries.
  \<^descr> Cursor (btree/Cursor): positions, steps and range scans; forward and backward iteration
    visits exactly the entries in order on trees of at most two levels.
  \<^descr> LogFile, LogManager and LogSpec (wal/): records, buffer, file, writer, reader, manager and the
    adapter of the tree; group commit, sequence numbers, termination of the scans, and what is
    read back.
  \<^descr> Recovery (recovery/): checkpoints, replay, recovery and its validation; replaying a record
    is idempotent on the map; what becomes of a checkpoint.
  \<^descr> Database, DatabaseSpec, Lifecycle, Reopen (core/Database): the engine on a file system.
    Without a log it is a map between opening and closing, and nothing of the map reaches the data
    file (Lifecycle, with sessions as an inductive relation). With the log, a new database takes an
    insertion and closes, but cannot be opened again (DatabaseSpec, Reopen).
  \<^descr> Maintenance (diagnostics/, maintenance/, instrumentation/): reports, the integrity scan of a
    new database, bulk loading, vacuuming, counters.

  \<^bold>\<open>Fuel and termination.\<close> Loops with a measure are total functions. Loops that follow
  references through the node tables or offsets through a file are partial functions into
  \<open>option\<close>, \<open>None\<close> standing for a loop that never ends; that they return is proved for every search
  tree (TreeSpec) and for every log below 2^63 bytes (LogSpec). The tree validator recurses without
  a bound of its own and takes fuel; running out of it is the outcome \<open>Diverges\<close>, and fuel for
  the number of pages of a search tree is enough (TreeSpec).

  \<^bold>\<open>Parameters.\<close> Values the code takes from its surroundings are arguments: the draws of the
  random engine, the clock, the order in which an unordered container is traversed, the content of
  uninitialised variables, the text of system exceptions, and whether the operating system lets a
  path be opened.

  \<^bold>\<open>Not modelled.\<close>
  \<^item> The example, benchmark, fuzz and test programs, which only call the library.
  \<^item> The logger, the timers and the profiler (text output and clocks), the assertion handler,
    scope guards and deleted copy operations, build switches, and the file utilities, which call
    the operating system and are called by nothing.
  \<^item> Printing functions for debugging; \<^verbatim>\<open>Database::context\<close> and accessors that return
    references to members; destructors; \<^verbatim>\<open>Buffer::swap\<close> and the move members of buffers and
    database files (moving a page is modelled in Storage).
  \<^item> Rounding of floating-point statistics: percentages and averages are exact real numbers.
  \<^item> Threads: apart from the logger and one atomic counter the library has no shared state.
  \<^item> Allocation failures of the C++ heap, and devices that lose or refuse data.
\<close>

end
